(* ===== verification/Durable_Prelude.thy ===== *)
theory Durable_Prelude
  imports Main "HOL-Library.Sublist" "HOL-Library.Word" "HOL-Library.Signed_Division"
begin

text \<open>
  Shared vocabulary of the development: the collections of rewrite rules the component
  theories extend, tables as lists of rows with the three data manipulation statements of SQL
  (update, delete, insert) and the look-up by key, and Go's 64-bit signed arithmetic.
\<close>

named_theorems table_simps
  \<open>look-ups after a statement\<close>
named_theorems code_defs
  \<open>the bodies of the store's transactions\<close>

type_synonym time = int
type_synonym exec_id = string

section \<open>Tables\<close>

text \<open>
  A table is the list of its rows in physical order. \<open>upd_where p f\<close> is
  \<open>UPDATE .. SET f WHERE p\<close>, \<open>del_where p\<close> is \<open>DELETE .. WHERE p\<close>;
  \<open>returning p f\<close> lists the rows that \<open>UPDATE .. RETURNING\<close> sends back.
\<close>

definition upd_where :: "('r \<Rightarrow> bool) \<Rightarrow> ('r \<Rightarrow> 'r) \<Rightarrow> 'r list \<Rightarrow> 'r list" where
  "upd_where p f rows = map (\<lambda>r. if p r then f r else r) rows"

definition returning :: "('r \<Rightarrow> bool) \<Rightarrow> ('r \<Rightarrow> 'r) \<Rightarrow> 'r list \<Rightarrow> 'r list" where
  "returning p f rows = map f (filter p rows)"

definition del_where :: "('r \<Rightarrow> bool) \<Rightarrow> 'r list \<Rightarrow> 'r list" where
  "del_where p rows = filter (\<lambda>r. \<not> p r) rows"

definition row_of :: "('r \<Rightarrow> 'k) \<Rightarrow> 'r list \<Rightarrow> 'k \<Rightarrow> 'r option" where
  "row_of key rows k = find (\<lambda>r. key r = k) rows"

lemma row_of_Nil [simp]: "row_of key [] k = None"
  by (simp add: row_of_def)

lemma row_of_Cons: "row_of key (r # rows) k = (if key r = k then Some r else row_of key rows k)"
  by (simp add: row_of_def)

lemma row_of_None_iff: "row_of key rows k = None \<longleftrightarrow> k \<notin> key ` set rows"
  by (auto simp: row_of_def find_None_iff)

lemma row_of_SomeD: "row_of key rows k = Some r \<Longrightarrow> r \<in> set rows \<and> key r = k"
  by (auto simp: row_of_def find_Some_iff)

lemma row_of_Some_iff:
  "distinct (map key rows) \<Longrightarrow> row_of key rows k = Some r \<longleftrightarrow> r \<in> set rows \<and> key r = k"
  by (induction rows) (auto simp: row_of_Cons rev_image_eqI)

lemma row_of_in: "distinct (map key rows) \<Longrightarrow> r \<in> set rows \<Longrightarrow> row_of key rows (key r) = Some r"
  by (simp add: row_of_Some_iff)

lemma row_of_append:
  "row_of key (xs @ ys) k = (case row_of key xs k of None \<Rightarrow> row_of key ys k | Some r \<Rightarrow> Some r)"
  by (induction xs) (auto simp: row_of_Cons)

lemma row_of_upd_where [table_simps]:
  assumes "\<And>r. key (f r) = key r"
  shows "row_of key (upd_where (\<lambda>r. key r = k \<and> p r) f rows) k' =
    (if k' = k then map_option (\<lambda>r. if p r then f r else r) (row_of key rows k')
     else row_of key rows k')"
  by (induction rows) (auto simp: upd_where_def row_of_Cons assms)

lemma row_of_del_where [table_simps]:
  "row_of key (del_where (\<lambda>r. key r = k) rows) k' = (if k' = k then None else row_of key rows k')"
  by (induction rows) (auto simp: del_where_def row_of_Cons)

lemma map_upd_where [table_simps]:
  "(\<And>r. g (f r) = g r) \<Longrightarrow> map g (upd_where p f rows) = map g rows"
  by (simp add: upd_where_def)

lemma distinct_del_where: "distinct (map g rows) \<Longrightarrow> distinct (map g (del_where p rows))"
  by (simp add: del_where_def distinct_map_filter)

lemma set_del_where [table_simps]: "set (del_where p rows) = {r \<in> set rows. \<not> p r}"
  by (auto simp: del_where_def)

lemma set_upd_where [table_simps]:
  "set (upd_where p f rows) = (\<lambda>r. if p r then f r else r) ` set rows"
  by (simp add: upd_where_def)

lemma returning_Nil_iff: "returning p f rows = [] \<longleftrightarrow> (\<forall>r\<in>set rows. \<not> p r)"
  by (simp add: returning_def filter_empty_conv)

lemma upd_where_none: "(\<forall>r\<in>set rows. \<not> p r) \<Longrightarrow> upd_where p f rows = rows"
  by (induction rows) (auto simp: upd_where_def)

text \<open>With a unique key, the rows \<open>RETURNING\<close> sends back are at most one.\<close>

lemma filter_key:
  "distinct (map key rows) \<Longrightarrow>
    filter (\<lambda>r. key r = k) rows = (case row_of key rows k of None \<Rightarrow> [] | Some r \<Rightarrow> [r])"
  by (induction rows)
     (auto simp: row_of_Cons filter_empty_conv rev_image_eqI row_of_None_iff split: option.splits
       dest: row_of_SomeD)

lemma filter_key_and:
  "distinct (map key rows) \<Longrightarrow>
    filter (\<lambda>r. key r = k \<and> p r) rows =
      (case row_of key rows k of None \<Rightarrow> [] | Some r \<Rightarrow> if p r then [r] else [])"
proof -
  assume d: "distinct (map key rows)"
  have "filter (\<lambda>r. key r = k \<and> p r) rows = filter p (filter (\<lambda>r. key r = k) rows)"
    by (simp add: conj_commute)
  then show ?thesis using filter_key [OF d, of k] by (auto split: option.splits)
qed

lemma returning_key:
  "distinct (map key rows) \<Longrightarrow>
    returning (\<lambda>r. key r = k \<and> p r) f rows =
      (case row_of key rows k of None \<Rightarrow> [] | Some r \<Rightarrow> if p r then [f r] else [])"
  by (auto simp: returning_def filter_key_and split: option.splits)

text \<open>
  \<open>QueryRow\<close> reads the first row sent back; the scan of an empty result is \<open>ErrNoRows\<close>.
\<close>

lemma case_returning:
  "(case returning p f rows of [] \<Rightarrow> a | r # _ \<Rightarrow> b r) =
    (case find p rows of None \<Rightarrow> a | Some r \<Rightarrow> b (f r))"
  by (induction rows) (auto simp: returning_def)

lemma find_key_guard:
  "find (\<lambda>r. key r = k \<and> c) rows = (if c then row_of key rows k else None)"
  by (induction rows) (auto simp: row_of_Cons)

lemma find_key: "find (\<lambda>r. key r = k) rows = row_of key rows k"
  by (simp add: row_of_def)

lemma find_False: "find (\<lambda>r. False) rows = None"
  by (simp add: find_None_iff)

lemmas find_guards = find_key_guard find_key find_False

lemma row_of_upd_key [table_simps]:
  assumes "\<And>r. key (f r) = key r"
  shows "row_of key (upd_where (\<lambda>r. key r = k) f rows) k' =
    (if k' = k then map_option f (row_of key rows k') else row_of key rows k')"
  by (induction rows) (auto simp: upd_where_def row_of_Cons assms)

section \<open>Ordered reads\<close>

text \<open>\<open>ORDER BY key LIMIT 1\<close>: a row with the least key, the first of them in physical order.\<close>

definition first_by :: "('r \<Rightarrow> 'k::linorder) \<Rightarrow> 'r list \<Rightarrow> 'r option" where
  "first_by key rows = (case sort_key key rows of [] \<Rightarrow> None | r # _ \<Rightarrow> Some r)"

lemma first_by_None: "first_by key rows = None \<longleftrightarrow> rows = []"
  by (auto simp: first_by_def split: list.splits) (metis length_0_conv length_sort)

lemma first_by_Some:
  assumes "first_by key rows = Some r"
  shows "r \<in> set rows" and "\<forall>r'\<in>set rows. key r \<le> key r'"
proof -
  from assms obtain rs where s: "sort_key key rows = r # rs"
    by (auto simp: first_by_def split: list.splits)
  have set_eq: "set rows = set (r # rs)" by (metis s set_sort)
  then show "r \<in> set rows" by simp
  have "sorted (map key (r # rs))" by (metis s sorted_sort_key)
  with set_eq show "\<forall>r'\<in>set rows. key r \<le> key r'" by auto
qed

section \<open>Go's 64-bit arithmetic\<close>

text \<open>
  \<open>time.Duration\<close> and \<open>int\<close> are 64-bit two's complement: products and shifts wrap.
  \<open>wrap64\<close> is the value the machine keeps of a mathematical integer.
\<close>

definition wrap64 :: "int \<Rightarrow> int" where
  "wrap64 n = sint (word_of_int n :: 64 word)"

definition int64_max :: int where "int64_max = 9223372036854775807"
definition int32_max :: int where "int32_max = 2147483647"

text \<open>Go's \<open>1 << uint(n)\<close> at type \<open>time.Duration\<close>: a count of 64 or more gives 0.\<close>

definition shl_one :: "int \<Rightarrow> int" where
  "shl_one n = sint (push_bit (unat (word_of_int n :: 64 word)) (1 :: 64 word))"

lemma wrap64_id:
  assumes "- (2 ^ 63) \<le> n" and "n < 2 ^ 63"
  shows "wrap64 n = n"
  using assms by (simp add: wrap64_def sint_sbintrunc' signed_take_bit_int_eq_self)

lemma shl_one_small:
  assumes "0 \<le> n" and "n < 63"
  shows "shl_one n = 2 ^ nat n"
proof -
  have "nat n < 63" using assms by simp
  have u: "unat (word_of_int n :: 64 word) = nat n"
    using assms by (simp add: unat_eq_nat_uint uint_word_of_int take_bit_int_eq_self)
  have "push_bit (nat n) (1 :: 64 word) = word_of_int (2 ^ nat n)"
    by (simp add: push_bit_eq_mult)
  moreover have "(2 :: int) ^ nat n < 2 ^ 63"
    using \<open>nat n < 63\<close> by (intro power_strict_increasing) auto
  moreover have "- (2 ^ 63) \<le> (2 :: int) ^ nat n"
    by (rule order_trans [of _ 0]) auto
  ultimately show ?thesis
    using wrap64_id [of "2 ^ nat n"] by (simp add: shl_one_def u wrap64_def)
qed

section \<open>Optional values and log prefixes\<close>

lemma prefix_snoc_same [simp, intro]: "prefix xs (xs @ ys)"
  by (simp add: prefix_def)

lemma filter_prefix: "prefix xs ys \<Longrightarrow> prefix (filter p xs) (filter p ys)"
  by (auto simp: prefix_def)

end
