(* ===== verification/Schema.thy ===== *)
theory Schema
  imports Durable_Prelude
begin

text \<open>
  The persistent state of DurableMCP: the tables of \<open>migrations/001_init.sql\<close>, whose rows
  the structs of \<open>internal/store/store.go\<close> mirror, and the look-ups the proofs use.
  Times are microseconds since the epoch (the resolution of \<open>TIMESTAMPTZ\<close>); an execution
  identifier is the canonical text of its UUID; a JSONB column holds the text PostgreSQL
  returns for it. \<open>db_event_seq\<close> is the BIGSERIAL sequence of \<open>execution_events\<close>.
\<close>

section \<open>Rows\<close>

datatype status = Pending | Ready | Running | Completed | Failed | Cancelled

text \<open>The \<open>execution_status\<close> labels, which \<open>status::text\<close> sends to the client.\<close>

fun status_text :: "status \<Rightarrow> string" where
  "status_text Pending = ''pending''"
| "status_text Ready = ''ready''"
| "status_text Running = ''running''"
| "status_text Completed = ''completed''"
| "status_text Failed = ''failed''"
| "status_text Cancelled = ''cancelled''"

datatype event_type =
    Ev_submitted | Ev_ready | Ev_claimed | Ev_heartbeat | Ev_completed | Ev_failed
  | Ev_lease_expired | Ev_stale_rejected | Ev_retry_scheduled | Ev_cancelled
  | Ev_duplicate_detected

text \<open>An event payload is a JSON object with string and integer members.\<close>

datatype payload_value = PStr string | PInt int
type_synonym payload = "(string \<times> payload_value) list"

text \<open>\<open>json.RawMessage\<close>: \<open>None\<close> is the nil slice.\<close>

type_synonym raw_message = "string option"

record tool =
  t_id :: string
  t_name :: string
  t_description :: string
  t_input_schema :: string
  t_max_attempts :: int
  t_lease_seconds :: int
  t_created_at :: time

record lease =
  l_execution_id :: exec_id
  l_worker_id :: string
  l_fencing_token :: int
  l_lease_expires :: time
  l_claimed_at :: time

record execution =
  e_id :: exec_id
  e_namespace :: string
  e_tool_name :: string
  e_idempotency_key :: string
  e_input_args :: string
  e_status :: status
  e_attempts :: int
  e_max_attempts :: int
  e_result :: "string option"
  e_error_message :: "string option"
  e_created_at :: time
  e_updated_at :: time

record event =
  v_id :: int
  v_execution_id :: exec_id
  v_event_type :: event_type
  v_worker_id :: "string option"
  v_fencing_token :: "int option"
  v_payload :: "payload option"
  v_occurred_at :: time

record retry =
  r_execution_id :: exec_id
  r_retry_at :: time
  r_attempt :: int

record db =
  db_tools :: "tool list"
  db_executions :: "execution list"
  db_leases :: "lease list"
  db_events :: "event list"
  db_retries :: "retry list"
  db_event_seq :: int

definition empty_db :: db where
  "empty_db = \<lparr>db_tools = [], db_executions = [], db_leases = [], db_events = [],
     db_retries = [], db_event_seq = 1\<rparr>"

section \<open>Look-ups\<close>

text \<open>The unique key of \<open>executions\<close>: \<open>UNIQUE (namespace, tool_name, idempotency_key)\<close>.\<close>

definition e_key :: "execution \<Rightarrow> string \<times> string \<times> string" where
  "e_key e = (e_namespace e, e_tool_name e, e_idempotency_key e)"

definition exec_of :: "db \<Rightarrow> exec_id \<Rightarrow> execution option" where
  "exec_of d = row_of e_id (db_executions d)"

definition lease_of :: "db \<Rightarrow> exec_id \<Rightarrow> lease option" where
  "lease_of d = row_of l_execution_id (db_leases d)"

definition retry_of :: "db \<Rightarrow> exec_id \<Rightarrow> retry option" where
  "retry_of d = row_of r_execution_id (db_retries d)"

definition log_of :: "db \<Rightarrow> exec_id \<Rightarrow> event list" where
  "log_of d eid = filter (\<lambda>v. v_execution_id v = eid) (db_events d)"

text \<open>The fencing tokens an execution's events carry, whoever supplied them.\<close>

definition tokens :: "event list \<Rightarrow> int list" where
  "tokens vs = List.map_filter v_fencing_token vs"

text \<open>\<open>SELECT COALESCE(MAX(fencing_token), 0)\<close> over those events.\<close>

definition max_token :: "int list \<Rightarrow> int" where
  "max_token ts = (if ts = [] then 0 else Max (set ts))"

lemma max_token_ge: "t \<in> set ts \<Longrightarrow> t \<le> max_token ts"
  by (auto simp: max_token_def)

lemma max_token_in: "ts \<noteq> [] \<Longrightarrow> max_token ts \<in> set ts"
  by (simp add: max_token_def)

lemma max_token_Nil [simp]: "max_token [] = 0"
  by (simp add: max_token_def)

lemma max_token_append:
  "max_token (xs @ [t]) = (if xs = [] then t else max (max_token xs) t)"
  by (simp add: max_token_def max.commute)

lemma tokens_append: "tokens (vs @ ws) = tokens vs @ tokens ws"
  by (simp add: tokens_def List.map_filter_def)

lemma tokens_single: "tokens [v] = (case v_fencing_token v of None \<Rightarrow> [] | Some t \<Rightarrow> [t])"
  by (simp add: tokens_def List.map_filter_def split: option.splits)

lemma tokens_Nil [simp]: "tokens [] = []"
  by (simp add: tokens_def List.map_filter_def)

lemma in_tokens_iff: "t \<in> set (tokens vs) \<longleftrightarrow> (\<exists>v\<in>set vs. v_fencing_token v = Some t)"
  by (auto simp: tokens_def List.map_filter_def) force

lemma log_of_append: "db_events d' = db_events d @ vs \<Longrightarrow>
  log_of d' eid = log_of d eid @ filter (\<lambda>v. v_execution_id v = eid) vs"
  by (simp add: log_of_def)

text \<open>
  Two states hold the same data when they differ at most in the sequence, which
  PostgreSQL never rolls back.
\<close>

definition same_data :: "db \<Rightarrow> db \<Rightarrow> bool" where
  "same_data d d' \<longleftrightarrow> d' = d\<lparr>db_event_seq := db_event_seq d'\<rparr> \<and> db_event_seq d \<le> db_event_seq d'"

lemma same_data_refl [simp, intro]: "same_data d d"
  by (simp add: same_data_def)

lemma same_dataD:
  assumes "same_data d d'"
  shows "db_tools d' = db_tools d" "db_executions d' = db_executions d"
    "db_leases d' = db_leases d" "db_events d' = db_events d" "db_retries d' = db_retries d"
    "db_event_seq d \<le> db_event_seq d'"
    "exec_of d' = exec_of d" "lease_of d' = lease_of d" "retry_of d' = retry_of d"
    "log_of d' = log_of d"
  using assms by (cases d; cases d';
      simp add: same_data_def exec_of_def lease_of_def retry_of_def log_of_def fun_eq_iff)+

end
