(* ===== verification/Txn.thy ===== *)
theory Txn
  imports Schema
begin

text \<open>
  Conversations with the database (\<open>pgx\<close>): a program sends statements over a connection
  that may fail at any round trip, and \<open>pool.Begin\<close> .. \<open>tx.Commit\<close> with the deferred
  \<open>rollback\<close> of \<open>internal/store/store.go\<close> makes a group of statements atomic. The
  network plan \<open>net\<close> says, for each round trip to come, how long it takes and whether
  it fails; an exhausted plan is a network without failures. A statement the server refuses
  for a reason outside the model (a value out of range, an encoding error, a lost
  connection, a cancelled context) is a \<open>Lost\<close> round trip.
\<close>

section \<open>Errors and the connection\<close>

datatype dberr = SqlState string | Transport string

text \<open>The sentinel errors of \<open>store.go\<close>, and every error the driver returns.\<close>

datatype error = ErrNoWork | ErrStale | ErrUnknownTool | DbError dberr

datatype fault =
    Fine
  | Lost string       \<comment> \<open>the request did not take effect\<close>
  | Unacked string    \<comment> \<open>the server acted on it, the reply was lost\<close>
  | Cut nat string    \<comment> \<open>the reply broke off after some rows\<close>

record st =
  tables :: db
  clock :: time
  net :: "(nat \<times> fault) list"

type_synonym 'a prog = "st \<Rightarrow> (error + 'a) \<times> st"
type_synonym 'a stmt = "db \<Rightarrow> (dberr + 'a) \<times> db"

text \<open>One round trip: time passes, and the plan says how it ends.\<close>

definition arrive :: "st \<Rightarrow> fault \<times> st" where
  "arrive s = (case net s of
       [] \<Rightarrow> (Fine, s)
     | (d, f) # rest \<Rightarrow> (f, s\<lparr>clock := clock s + int d, net := rest\<rparr>))"

section \<open>Programs\<close>

definition prog_return :: "'a \<Rightarrow> 'a prog" where
  "prog_return v s = (Inr v, s)"

definition prog_fail :: "error \<Rightarrow> 'a prog" where
  "prog_fail e s = (Inl e, s)"

definition prog_bind :: "'a prog \<Rightarrow> ('a \<Rightarrow> 'b prog) \<Rightarrow> 'b prog" where
  "prog_bind m f s = (case m s of (Inl e, s') \<Rightarrow> (Inl e, s') | (Inr v, s') \<Rightarrow> f v s')"

text \<open>
  A statement executed on the server. The statement sees the time of its transaction;
  outside a transaction (\<open>pool.QueryRow\<close>, \<open>pool.Exec\<close>) that is the time it arrives.
\<close>

definition exec_stmt :: "'a stmt \<Rightarrow> 'a prog" where
  "exec_stmt q s = (case arrive s of (f, s1) \<Rightarrow>
     (case f of
        Fine \<Rightarrow> (case q (tables s1) of
            (Inl e, d) \<Rightarrow> (Inl (DbError e), s1\<lparr>tables := d\<rparr>)
          | (Inr v, d) \<Rightarrow> (Inr v, s1\<lparr>tables := d\<rparr>))
      | Lost m \<Rightarrow> (Inl (DbError (Transport m)), s1)
      | Unacked m \<Rightarrow> (Inl (DbError (Transport m)), s1\<lparr>tables := snd (q (tables s1))\<rparr>)
      | Cut n m \<Rightarrow> (Inl (DbError (Transport m)), s1\<lparr>tables := snd (q (tables s1))\<rparr>)))"

definition auto_stmt :: "(time \<Rightarrow> 'a stmt) \<Rightarrow> 'a prog" where
  "auto_stmt q s = exec_stmt (q (clock (snd (arrive s)))) s"

text \<open>
  \<open>pool.Query\<close> with its \<open>rows.Next\<close> loop: the rows that arrived and \<open>rows.Err()\<close>,
  which tells a loop that ended early from one that saw every row.
\<close>

definition query_rows :: "(time \<Rightarrow> db \<Rightarrow> 'r list) \<Rightarrow> ('r list \<times> dberr option) prog" where
  "query_rows q s = (case arrive s of (f, s1) \<Rightarrow>
     (case f of
        Fine \<Rightarrow> (Inr (q (clock s1) (tables s1), None), s1)
      | Lost m \<Rightarrow> (Inl (DbError (Transport m)), s1)
      | Unacked m \<Rightarrow> (Inl (DbError (Transport m)), s1)
      | Cut n m \<Rightarrow> (Inr (take n (q (clock s1) (tables s1)), Some (Transport m)), s1)))"

section \<open>Transactions\<close>

text \<open>A rollback restores the tables; sequence values stay consumed.\<close>

definition rollback :: "db \<Rightarrow> st \<Rightarrow> st" where
  "rollback d0 s = s\<lparr>tables := d0\<lparr>db_event_seq := db_event_seq (tables s)\<rparr>\<rparr>"

text \<open>
  \<open>pool.Begin\<close>, the body, \<open>tx.Commit\<close>. A body that fails returns its error with the
  deferred rollback undoing its statements. A commit whose reply is lost returns an error
  to the caller although the server made the transaction durable.
\<close>

definition in_tx :: "(time \<Rightarrow> 'a prog) \<Rightarrow> 'a prog" where
  "in_tx body s = (case arrive s of (f, s1) \<Rightarrow>
     (case f of
        Fine \<Rightarrow>
          (case body (clock s1) s1 of
             (Inl e, s2) \<Rightarrow> (Inl e, rollback (tables s1) s2)
           | (Inr v, s2) \<Rightarrow> (case arrive s2 of (g, s3) \<Rightarrow>
               (case g of
                  Fine \<Rightarrow> (Inr v, s3)
                | Lost m \<Rightarrow> (Inl (DbError (Transport m)), rollback (tables s1) s3)
                | Unacked m \<Rightarrow> (Inl (DbError (Transport m)), s3)
                | Cut n m \<Rightarrow> (Inl (DbError (Transport m)), s3))))
      | Lost m \<Rightarrow> (Inl (DbError (Transport m)), s1)
      | Unacked m \<Rightarrow> (Inl (DbError (Transport m)), s1)
      | Cut n m \<Rightarrow> (Inl (DbError (Transport m)), s1)))"

text \<open>A body that commits and then reports an error of its own.\<close>

definition prog_join :: "(error + 'a) prog \<Rightarrow> 'a prog" where
  "prog_join m s = (case m s of
       (Inl e, s') \<Rightarrow> (Inl e, s')
     | (Inr (Inl e), s') \<Rightarrow> (Inl e, s')
     | (Inr (Inr v), s') \<Rightarrow> (Inr v, s'))"

section \<open>Runs without failures, and what failures can do\<close>

text \<open>
  \<open>run_quiet m d\<close> is the result of a program on a connection without failures.
  A program is \<open>robust\<close> when a failing connection can only turn that result into a
  driver error, never into another answer.
\<close>

definition run_quiet :: "'a prog \<Rightarrow> db \<Rightarrow> (error + 'a) \<times> db" where
  "run_quiet m d = (let (r, s) = m \<lparr>tables = d, clock = 0, net = []\<rparr> in (r, tables s))"

definition robust :: "'a prog \<Rightarrow> bool" where
  "robust m \<longleftrightarrow>
    (\<forall>d c. m \<lparr>tables = d, clock = c, net = []\<rparr> =
       (fst (run_quiet m d), \<lparr>tables = snd (run_quiet m d), clock = c, net = []\<rparr>)) \<and>
    (\<forall>s. db_event_seq (tables s) \<le> db_event_seq (tables (snd (m s))) \<and>
       clock s \<le> clock (snd (m s)) \<and>
       ((\<exists>e. fst (m s) = Inl (DbError e)) \<or>
        (fst (m s), tables (snd (m s))) = run_quiet m (tables s)))"

lemma robustI:
  assumes "\<And>d c. m \<lparr>tables = d, clock = c, net = []\<rparr> =
      (fst (run_quiet m d), \<lparr>tables = snd (run_quiet m d), clock = c, net = []\<rparr>)"
    and "\<And>s. db_event_seq (tables s) \<le> db_event_seq (tables (snd (m s)))"
    and "\<And>s. clock s \<le> clock (snd (m s))"
    and "\<And>s. (\<exists>e. fst (m s) = Inl (DbError e)) \<or>
      (fst (m s), tables (snd (m s))) = run_quiet m (tables s)"
  shows "robust m"
  using assms unfolding robust_def by blast

lemma robust_quiet:
  "robust m \<Longrightarrow> m \<lparr>tables = d, clock = c, net = []\<rparr> =
    (fst (run_quiet m d), \<lparr>tables = snd (run_quiet m d), clock = c, net = []\<rparr>)"
  unfolding robust_def by blast

lemma robust_seq: "robust m \<Longrightarrow> db_event_seq (tables s) \<le> db_event_seq (tables (snd (m s)))"
  unfolding robust_def by blast

lemma robust_clock: "robust m \<Longrightarrow> clock s \<le> clock (snd (m s))"
  unfolding robust_def by blast

lemma robust_cases:
  assumes "robust m"
  obtains (failed) e where "fst (m s) = Inl (DbError e)"
  | (answered) "(fst (m s), tables (snd (m s))) = run_quiet m (tables s)"
  using assms unfolding robust_def by blast

lemma arrive_clock: "clock s \<le> clock (snd (arrive s))"
  by (auto simp: arrive_def split: list.split)

lemma arrive_tables [simp]: "tables (snd (arrive s)) = tables s"
  by (auto simp: arrive_def split: list.split)

lemma arrive_quiet [simp]: "net s = [] \<Longrightarrow> arrive s = (Fine, s)"
  by (simp add: arrive_def)

subsection \<open>Results without failures\<close>

named_theorems quiet_simps \<open>results of programs on a connection without failures\<close>

lemma run_quiet_return [quiet_simps]: "run_quiet (prog_return v) d = (Inr v, d)"
  by (simp add: run_quiet_def prog_return_def)

lemma run_quiet_fail [quiet_simps]: "run_quiet (prog_fail e) d = (Inl e, d)"
  by (simp add: run_quiet_def prog_fail_def)

lemma run_quiet_stmt [quiet_simps]:
  "run_quiet (exec_stmt q) d =
    (case q d of (Inl e, d') \<Rightarrow> (Inl (DbError e), d') | (Inr v, d') \<Rightarrow> (Inr v, d'))"
  by (auto simp: run_quiet_def exec_stmt_def split: sum.split prod.split)

lemma run_quiet_bind [quiet_simps]:
  assumes "robust m"
  shows "run_quiet (prog_bind m f) d =
    (case run_quiet m d of (Inl e, d') \<Rightarrow> (Inl e, d') | (Inr v, d') \<Rightarrow> run_quiet (f v) d')"
  using robust_quiet [OF assms, of d 0]
  by (cases "run_quiet m d") (auto simp: run_quiet_def prog_bind_def split: sum.split)

subsection \<open>Robust programs\<close>

lemma robust_return [intro]: "robust (prog_return v)"
  by (rule robustI) (auto simp: prog_return_def quiet_simps)

lemma robust_fail [intro]: "robust (prog_fail e)"
  by (rule robustI) (auto simp: prog_fail_def quiet_simps)

definition seq_mono :: "'a stmt \<Rightarrow> bool" where
  "seq_mono q \<longleftrightarrow> (\<forall>d. db_event_seq d \<le> db_event_seq (snd (q d)))"

lemma exec_stmt_tables:
  "tables (snd (exec_stmt q s)) = tables s \<or> tables (snd (exec_stmt q s)) = snd (q (tables s))"
  using arrive_tables [of s]
  by (cases "arrive s"; cases "fst (arrive s)")
     (auto simp: exec_stmt_def split: prod.splits sum.splits)

lemma exec_stmt_clock: "clock s \<le> clock (snd (exec_stmt q s))"
  using arrive_clock [of s]
  by (cases "arrive s"; cases "fst (arrive s)")
     (auto simp: exec_stmt_def split: prod.splits sum.splits)

lemma exec_stmt_answer:
  "(\<exists>e. fst (exec_stmt q s) = Inl (DbError e)) \<or>
    (fst (exec_stmt q s), tables (snd (exec_stmt q s))) = run_quiet (exec_stmt q) (tables s)"
  using arrive_tables [of s]
  by (cases "arrive s"; cases "fst (arrive s)")
     (auto simp: exec_stmt_def run_quiet_stmt split: prod.splits sum.splits)

lemma robust_stmt [intro]:
  assumes "seq_mono q"
  shows "robust (exec_stmt q)"
proof (rule robustI)
  show "exec_stmt q \<lparr>tables = d, clock = c, net = []\<rparr> =
      (fst (run_quiet (exec_stmt q) d),
       \<lparr>tables = snd (run_quiet (exec_stmt q) d), clock = c, net = []\<rparr>)" for d c
    by (auto simp: exec_stmt_def run_quiet_stmt split: prod.split sum.split)
  show "db_event_seq (tables s) \<le> db_event_seq (tables (snd (exec_stmt q s)))" for s
    using exec_stmt_tables [of q s] assms by (auto simp: seq_mono_def)
qed (rule exec_stmt_clock, rule exec_stmt_answer)

lemma robust_bind [intro]:
  assumes m: "robust m" and f: "\<And>v. robust (f v)"
  shows "robust (prog_bind m f)"
proof (rule robustI)
  show "prog_bind m f \<lparr>tables = d, clock = c, net = []\<rparr> =
      (fst (run_quiet (prog_bind m f) d),
       \<lparr>tables = snd (run_quiet (prog_bind m f) d), clock = c, net = []\<rparr>)" for d c
    using robust_quiet [OF m, of d c] robust_quiet [OF f]
    by (cases "run_quiet m d")
       (auto simp: prog_bind_def run_quiet_bind [OF m] split: sum.split)
  show "db_event_seq (tables s) \<le> db_event_seq (tables (snd (prog_bind m f s)))" for s
    using robust_seq [OF m, of s] robust_seq [OF f]
    by (cases "m s") (fastforce simp: prog_bind_def split: sum.split intro: order_trans)
  show "clock s \<le> clock (snd (prog_bind m f s))" for s
    using robust_clock [OF m, of s] robust_clock [OF f]
    by (cases "m s") (fastforce simp: prog_bind_def split: sum.split intro: order_trans)
  show "(\<exists>e. fst (prog_bind m f s) = Inl (DbError e)) \<or>
      (fst (prog_bind m f s), tables (snd (prog_bind m f s))) =
        run_quiet (prog_bind m f) (tables s)" for s
  proof (rule robust_cases [OF m, of s])
    fix e
    assume "fst (m s) = Inl (DbError e)"
    then show ?thesis by (cases "m s") (simp add: prog_bind_def)
  next
    assume a: "(fst (m s), tables (snd (m s))) = run_quiet m (tables s)"
    show ?thesis
    proof (cases "m s")
      case (Pair r s')
      show ?thesis
      proof (cases r)
        case (Inl e)
        with Pair a show ?thesis
          by (simp add: prog_bind_def run_quiet_bind [OF m] flip: a)
      next
        case (Inr v)
        with Pair a have q: "run_quiet m (tables s) = (Inr v, tables s')" by simp
        show ?thesis
          by (rule robust_cases [OF f, of v s'])
             (auto simp: Pair Inr q prog_bind_def run_quiet_bind [OF m])
      qed
    qed
  qed
qed

text \<open>Control flow keeps robustness; with these rules the simplifier proves it of every body.\<close>

lemma robust_case_list:
  "robust a \<Longrightarrow> (\<And>x xs. robust (b x xs)) \<Longrightarrow> robust (case l of [] \<Rightarrow> a | x # xs \<Rightarrow> b x xs)"
  by (cases l) auto

lemma robust_case_prod: "(\<And>x y. robust (f x y)) \<Longrightarrow> robust (case p of (x, y) \<Rightarrow> f x y)"
  by (cases p) auto

lemma robust_if: "robust a \<Longrightarrow> robust b \<Longrightarrow> robust (if c then a else b)"
  by simp

lemmas robust_rules = robust_return robust_fail robust_stmt robust_bind robust_case_list
  robust_case_prod robust_if

end
