(* ===== verification/Operation.thy ===== *)
theory Operation
  imports Txn
begin

text \<open>
  The contract every store operation meets: whatever the connection does, the operation
  either leaves the data as it was and reports a driver error, or takes the effect its
  specification gives at one time between call and return. \<open>store_operation\<close> states the
  contract once; each operation of \<open>Store_Ops\<close> and \<open>Scheduler\<close> interprets it, and the
  invariants are proved on the specifications.
\<close>

type_synonym 'a effect = "time \<Rightarrow> db \<Rightarrow> (error + 'a) \<times> db"

definition outcome :: "'a effect \<Rightarrow> st \<Rightarrow> (error + 'a) \<times> st \<Rightarrow> bool" where
  "outcome eff s out \<longleftrightarrow> (\<exists>now. clock s \<le> now \<and> now \<le> clock (snd out) \<and>
     ((\<exists>e. fst out = Inl (DbError e)) \<and>
        (same_data (tables s) (tables (snd out)) \<or> tables (snd out) = snd (eff now (tables s)))
      \<or> (fst out, tables (snd out)) = eff now (tables s)))"

lemma outcome_failI:
  "clock s \<le> clock s' \<Longrightarrow> same_data (tables s) (tables s') \<Longrightarrow> outcome eff s (Inl (DbError e), s')"
  unfolding outcome_def by (rule exI [of _ "clock s"]) simp

lemma outcome_unackedI:
  "clock s \<le> now \<Longrightarrow> now \<le> clock s' \<Longrightarrow> tables s' = snd (eff now (tables s)) \<Longrightarrow>
    outcome eff s (Inl (DbError e), s')"
  unfolding outcome_def by (rule exI [of _ now]) simp

lemma outcome_answerI:
  "clock s \<le> now \<Longrightarrow> now \<le> clock s' \<Longrightarrow> (r, tables s') = eff now (tables s) \<Longrightarrow>
    outcome eff s (r, s')"
  unfolding outcome_def by (rule exI [of _ now]) simp

lemma outcome_later:
  assumes "outcome eff' s1 out" and "clock s \<le> clock s1" and "tables s1 = tables s"
    and "\<And>now. eff' now (tables s) = eff now (tables s)"
  shows "outcome eff s out"
  using assms(1) unfolding outcome_def assms(3) assms(4)
  using assms(2) order_trans by blast

section \<open>The interface\<close>

locale store_operation =
  fixes run :: "'a prog" and eff :: "'a effect"
  assumes outcome: "outcome eff s (run s)"
    and quiet: "net s = [] \<Longrightarrow>
      run s = (fst (eff (clock s) (tables s)), s\<lparr>tables := snd (eff (clock s) (tables s))\<rparr>)"
begin

lemma answer:
  assumes "run s = (r, s')" and "\<And>e. r \<noteq> Inl (DbError e)"
  shows "\<exists>now. clock s \<le> now \<and> now \<le> clock s' \<and> eff now (tables s) = (r, tables s')"
  using outcome [of s] assms by (auto simp: outcome_def)

lemma atomic:
  "same_data (tables s) (tables (snd (run s))) \<or>
    (\<exists>now. clock s \<le> now \<and> now \<le> clock (snd (run s)) \<and> tables (snd (run s)) = snd (eff now (tables s)))"
  using outcome [of s] by (auto simp: outcome_def dest: arg_cong [where f = snd])

lemma preserves:
  assumes "I (tables s)" and "\<And>d d'. same_data d d' \<Longrightarrow> I d \<Longrightarrow> I d'"
    and "\<And>now d. clock s \<le> now \<Longrightarrow> I d \<Longrightarrow> I (snd (eff now d))"
  shows "I (tables (snd (run s)))"
  using atomic [of s] assms by metis

lemma clock_mono: "clock s \<le> clock (snd (run s))"
  using outcome [of s] by (auto simp: outcome_def)

end

section \<open>Transactions meet it\<close>

definition tx_effect :: "(time \<Rightarrow> 'a prog) \<Rightarrow> 'a effect" where
  "tx_effect body now d = (case run_quiet (body now) d of
       (Inl e, d') \<Rightarrow> (Inl e, d\<lparr>db_event_seq := db_event_seq d'\<rparr>)
     | (Inr v, d') \<Rightarrow> (Inr v, d'))"

lemma same_data_seq: "db_event_seq d \<le> n \<Longrightarrow> same_data d (d\<lparr>db_event_seq := n\<rparr>)"
  by (simp add: same_data_def)

lemma in_tx_Lost:
  "arrive s = (f, s1) \<Longrightarrow> f \<noteq> Fine \<Longrightarrow> \<exists>m. in_tx body s = (Inl (DbError (Transport m)), s1)"
  by (cases f) (auto simp: in_tx_def)

lemma in_tx_body_fails:
  "arrive s = (Fine, s1) \<Longrightarrow> body (clock s1) s1 = (Inl e, s2) \<Longrightarrow>
    in_tx body s = (Inl e, rollback (tables s1) s2)"
  by (simp add: in_tx_def)

lemma in_tx_commits:
  assumes "arrive s = (Fine, s1)" and "body (clock s1) s1 = (Inr v, s2)" and "arrive s2 = (g, s3)"
  shows "in_tx body s = (Inr v, s3) \<or>
    (\<exists>m. in_tx body s = (Inl (DbError (Transport m)), rollback (tables s1) s3)) \<or>
    (\<exists>m. in_tx body s = (Inl (DbError (Transport m)), s3))"
  using assms by (cases g) (auto simp: in_tx_def)

lemma rollback_same:
  "db_event_seq d \<le> db_event_seq (tables s) \<Longrightarrow> same_data d (tables (rollback d s))"
  by (simp add: rollback_def same_data_seq)

lemma rollback_clock [simp]: "clock (rollback d s) = clock s"
  by (simp add: rollback_def)

lemma in_tx_outcome:
  assumes rob: "\<And>now. robust (body now)"
  shows "outcome (tx_effect body) s (in_tx body s)"
proof -
  obtain f s1 where a1: "arrive s = (f, s1)" by force
  have c1: "clock s \<le> clock s1" and t1: "tables s1 = tables s"
    using arrive_clock [of s] arrive_tables [of s] by (simp_all add: a1)
  obtain r s2 where b: "body (clock s1) s1 = (r, s2)" by force
  have c2: "clock s1 \<le> clock s2" and q2: "db_event_seq (tables s1) \<le> db_event_seq (tables s2)"
    using robust_clock [OF rob, of s1] robust_seq [OF rob, of s1] b by (metis snd_conv)+
  have rc: "(\<exists>e. r = Inl (DbError e)) \<or> run_quiet (body (clock s1)) (tables s) = (r, tables s2)"
    using robust_cases [OF rob, of "clock s1" s1] b t1 by (metis fst_conv snd_conv)
  show ?thesis
  proof (cases "f = Fine")
    case False
    then obtain m where "in_tx body s = (Inl (DbError (Transport m)), s1)"
      using in_tx_Lost [OF a1] by blast
    with c1 t1 show ?thesis by (simp add: outcome_failI)
  next
    case True
    note a1 = a1 [unfolded True]
    show ?thesis
    proof (cases r)
      case (Inl e)
      have run: "in_tx body s = (Inl e, rollback (tables s) s2)"
        using in_tx_body_fails [of s s1 body e s2] a1 b Inl t1 by simp
      from rc show ?thesis
      proof
        assume "\<exists>e. r = Inl (DbError e)"
        with run Inl c1 c2 q2 t1 show ?thesis
          by (auto intro!: outcome_failI rollback_same)
      next
        assume "run_quiet (body (clock s1)) (tables s) = (r, tables s2)"
        with run Inl c1 c2 show ?thesis
          by (auto intro!: outcome_answerI [of _ "clock s1"] simp: tx_effect_def rollback_def)
      qed
    next
      case (Inr v)
      obtain g s3 where a3: "arrive s2 = (g, s3)" by force
      have c3: "clock s2 \<le> clock s3" and t3: "tables s3 = tables s2"
        using arrive_clock [of s2] arrive_tables [of s2] by (simp_all add: a3)
      have eff: "tx_effect body (clock s1) (tables s) = (Inr v, tables s3)"
        using rc Inr t3 by (simp add: tx_effect_def)
      have q3: "db_event_seq (tables s) \<le> db_event_seq (tables s3)" using q2 t1 t3 by simp
      from in_tx_commits [of s s1 body v s2 g s3] a1 b Inr a3 t1 show ?thesis
        using c1 c2 c3 eff q3
        by (auto intro!: outcome_failI [OF _ rollback_same] outcome_answerI [of _ "clock s1"]
            outcome_unackedI [of _ "clock s1"])
    qed
  qed
qed

lemma in_tx_quiet:
  assumes rob: "\<And>now. robust (body now)" and n: "net s = []"
  shows "in_tx body s =
    (fst (tx_effect body (clock s) (tables s)),
     s\<lparr>tables := snd (tx_effect body (clock s) (tables s))\<rparr>)"
proof -
  have "s = \<lparr>tables = tables s, clock = clock s, net = []\<rparr>" using n by simp
  then have "body (clock s) s = (fst (run_quiet (body (clock s)) (tables s)),
      \<lparr>tables = snd (run_quiet (body (clock s)) (tables s)), clock = clock s, net = []\<rparr>)"
    using robust_quiet [OF rob] by metis
  then show ?thesis using n
    by (cases "run_quiet (body (clock s)) (tables s)"; cases "fst (run_quiet (body (clock s)) (tables s))")
       (auto simp: in_tx_def tx_effect_def rollback_def)
qed

lemma store_operation_in_tx:
  "(\<And>now. robust (body now)) \<Longrightarrow> eff = tx_effect body \<Longrightarrow> store_operation (in_tx body) eff"
  by unfold_locales (simp_all add: in_tx_outcome in_tx_quiet)

text \<open>Bodies that commit an error of their own.\<close>

definition join_effect :: "(error + 'a) effect \<Rightarrow> 'a effect" where
  "join_effect eff now d = (case eff now d of
       (Inl e, d') \<Rightarrow> (Inl e, d') | (Inr r, d') \<Rightarrow> (r, d'))"

lemma prog_join_fst: "fst (prog_join m s) = (case fst (m s) of Inl e \<Rightarrow> Inl e | Inr r \<Rightarrow> r)"
  and prog_join_snd: "snd (prog_join m s) = snd (m s)"
  by (cases "m s"; auto simp: prog_join_def split: sum.splits)+

lemma join_effect_fst: "fst (join_effect eff now d) = (case fst (eff now d) of Inl e \<Rightarrow> Inl e | Inr r \<Rightarrow> r)"
  and join_effect_snd: "snd (join_effect eff now d) = snd (eff now d)"
  by (cases "eff now d"; auto simp: join_effect_def split: sum.splits)+

lemma outcome_join:
  assumes "outcome eff s (m s)"
  shows "outcome (join_effect eff) s (prog_join m s)"
  using assms unfolding outcome_def prog_join_snd prog_join_fst join_effect_snd
  by (auto simp: prog_join_fst join_effect_fst join_effect_snd prod_eq_iff)

lemma store_operation_join_tx:
  assumes rob: "\<And>now. robust (body now)" and eff: "eff = join_effect (tx_effect body)"
  shows "store_operation (prog_join (in_tx body)) eff"
proof
  fix s
  show "outcome eff s (prog_join (in_tx body) s)"
    unfolding eff by (rule outcome_join) (rule in_tx_outcome [OF rob])
  assume "net s = []"
  from in_tx_quiet [OF rob this]
  show "prog_join (in_tx body) s =
      (fst (eff (clock s) (tables s)), s\<lparr>tables := snd (eff (clock s) (tables s))\<rparr>)"
    by (simp add: eff prod_eq_iff prog_join_fst prog_join_snd join_effect_fst join_effect_snd)
qed

end
