(* ===== verification/Store_Ops.thy ===== *)
theory Store_Ops
  imports Operation
begin

text \<open>
  \<open>internal/store/ops.go\<close>, the operations of clients and workers: \<open>Submit\<close>, \<open>Claim\<close>,
  \<open>Heartbeat\<close>, \<open>Complete\<close> and \<open>Fail\<close>. Each SQL statement is a function on the
  tables; each operation is the program that sends them, with the early returns of the Go
  code. The transactions of one operation read \<open>now()\<close> once, when they begin.
\<close>

section \<open>Results\<close>

record claim_result =
  c_execution_id :: exec_id
  c_tool_name :: string
  c_input_args :: string
  c_attempts :: int
  c_max_attempts :: int
  c_fencing_token :: int
  c_lease_expires :: time

record submit_result =
  s_execution_id :: exec_id
  s_status :: string
  s_result :: "string option"
  s_duplicate :: bool

section \<open>Statements\<close>

text \<open>\<open>appendEvent\<close>: an empty worker is stored as NULL; the execution must exist.\<close>

definition new_event ::
  "time \<Rightarrow> exec_id \<Rightarrow> event_type \<Rightarrow> string \<Rightarrow> int option \<Rightarrow> payload option \<Rightarrow> int \<Rightarrow> event" where
  "new_event now eid ty worker tok pl n =
     \<lparr>v_id = n, v_execution_id = eid, v_event_type = ty,
      v_worker_id = (if worker = [] then None else Some worker),
      v_fencing_token = tok, v_payload = pl, v_occurred_at = now\<rparr>"

definition log_event ::
  "time \<Rightarrow> exec_id \<Rightarrow> event_type \<Rightarrow> string \<Rightarrow> int option \<Rightarrow> payload option \<Rightarrow> db \<Rightarrow> db" where
  "log_event now eid ty worker tok pl d =
     d\<lparr>db_events := db_events d @ [new_event now eid ty worker tok pl (db_event_seq d)],
       db_event_seq := db_event_seq d + 1\<rparr>"

definition insert_event ::
  "time \<Rightarrow> exec_id \<Rightarrow> event_type \<Rightarrow> string \<Rightarrow> int option \<Rightarrow> payload option \<Rightarrow> unit stmt" where
  "insert_event now eid ty worker tok pl d =
     (if exec_of d eid = None
      then (Inl (SqlState ''23503''), d\<lparr>db_event_seq := db_event_seq d + 1\<rparr>)
      else (Inr (), log_event now eid ty worker tok pl d))"

definition append_event ::
  "time \<Rightarrow> exec_id \<Rightarrow> event_type \<Rightarrow> string \<Rightarrow> int option \<Rightarrow> payload option \<Rightarrow> unit prog" where
  "append_event now eid ty worker tok pl = exec_stmt (insert_event now eid ty worker tok pl)"

text \<open>\<open>UPDATE executions SET status = .., updated_at = now() WHERE id = ..\<close>\<close>

definition set_status :: "time \<Rightarrow> exec_id \<Rightarrow> status \<Rightarrow> db \<Rightarrow> db" where
  "set_status now eid v d = d\<lparr>db_executions :=
     upd_where (\<lambda>e. e_id e = eid) (\<lambda>e. e\<lparr>e_status := v, e_updated_at := now\<rparr>) (db_executions d)\<rparr>"

definition delete_lease :: "exec_id \<Rightarrow> db \<Rightarrow> db" where
  "delete_lease eid d = d\<lparr>db_leases := del_where (\<lambda>l. l_execution_id l = eid) (db_leases d)\<rparr>"

text \<open>A statement that cannot fail by itself.\<close>

definition always :: "(db \<Rightarrow> db) \<Rightarrow> unit stmt" where
  "always f d = (Inr (), f d)"

text \<open>
  The fencing guard: a lease with this token whose expiry lies after the transaction's
  \<open>now()\<close>.
\<close>

definition live_lease :: "time \<Rightarrow> db \<Rightarrow> exec_id \<Rightarrow> int \<Rightarrow> bool" where
  "live_lease now d eid tok \<longleftrightarrow>
     (\<exists>l\<in>set (db_leases d). l_execution_id l = eid \<and> l_fencing_token l = tok \<and> now < l_lease_expires l)"

text \<open>
  A JSONB parameter. \<open>jsonb\<close> is PostgreSQL's input and output of the type: the text it
  gives back for a document, or \<open>None\<close> for a text that is not JSON. A nil
  \<open>RawMessage\<close> is NULL.
\<close>

definition json_param :: "(string \<Rightarrow> string option) \<Rightarrow> raw_message \<Rightarrow> (string option) option" where
  "json_param jsonb raw = (case raw of None \<Rightarrow> Some None | Some t \<Rightarrow> map_option Some (jsonb t))"

section \<open>getTool and Submit\<close>

definition get_tool :: "string \<Rightarrow> tool prog" where
  "get_tool name = prog_bind (auto_stmt (\<lambda>now d. (Inr (row_of t_name (db_tools d) name), d)))
     (\<lambda>row. case row of None \<Rightarrow> prog_fail ErrUnknownTool | Some t \<Rightarrow> prog_return t)"

text \<open>
  \<open>INSERT INTO executions .. ON CONFLICT (..) DO UPDATE SET updated_at = now() RETURNING\<close>.
  \<open>uid\<close> is the identifier \<open>gen_random_uuid()\<close> drew for the row; the primary key refuses
  one already in use. The last component is \<open>xmax = 0\<close>: the row was inserted.
\<close>

definition touch_execution :: "time \<Rightarrow> exec_id \<Rightarrow> db \<Rightarrow> db" where
  "touch_execution now eid d = d\<lparr>db_executions :=
     upd_where (\<lambda>e. e_id e = eid) (\<lambda>e. e\<lparr>e_updated_at := now\<rparr>) (db_executions d)\<rparr>"

definition new_execution ::
  "time \<Rightarrow> exec_id \<Rightarrow> string \<Rightarrow> string \<Rightarrow> string \<Rightarrow> string \<Rightarrow> int \<Rightarrow> execution" where
  "new_execution now uid ns name key args maxa =
     \<lparr>e_id = uid, e_namespace = ns, e_tool_name = name, e_idempotency_key = key,
      e_input_args = args, e_status = Pending, e_attempts = 0, e_max_attempts = maxa,
      e_result = None, e_error_message = None, e_created_at = now, e_updated_at = now\<rparr>"

definition insert_execution ::
  "(string \<Rightarrow> string option) \<Rightarrow> time \<Rightarrow> exec_id \<Rightarrow> string \<Rightarrow> string \<Rightarrow> string \<Rightarrow> string \<Rightarrow> int \<Rightarrow>
    (exec_id \<times> status \<times> string option \<times> bool) stmt" where
  "insert_execution jsonb now uid ns name key args maxa d =
     (case jsonb args of
        None \<Rightarrow> (Inl (SqlState ''22P02''), d)
      | Some doc \<Rightarrow>
          (case row_of e_key (db_executions d) (ns, name, key) of
             Some e \<Rightarrow> (Inr (e_id e, e_status e, e_result e, False), touch_execution now (e_id e) d)
           | None \<Rightarrow>
               if exec_of d uid \<noteq> None then (Inl (SqlState ''23505''), d)
               else if row_of t_name (db_tools d) name = None then (Inl (SqlState ''23503''), d)
               else (Inr (uid, Pending, None, True),
                     d\<lparr>db_executions := db_executions d @ [new_execution now uid ns name key doc maxa]\<rparr>)))"

text \<open>\<open>if len(args) == 0 { args = json.RawMessage(`{}`) }\<close>\<close>

definition args_or_empty :: "raw_message \<Rightarrow> string" where
  "args_or_empty args = (case args of None \<Rightarrow> ''{}'' | Some t \<Rightarrow> if t = [] then ''{}'' else t)"

definition submit_tx ::
  "(string \<Rightarrow> string option) \<Rightarrow> exec_id \<Rightarrow> string \<Rightarrow> string \<Rightarrow> string \<Rightarrow> raw_message \<Rightarrow> int \<Rightarrow>
    time \<Rightarrow> submit_result prog" where
  "submit_tx jsonb uid ns name key args maxa now =
     prog_bind (exec_stmt (insert_execution jsonb now uid ns name key (args_or_empty args) maxa))
       (\<lambda>(eid, status, result, inserted).
          if \<not> inserted then
            prog_bind (append_event now eid Ev_duplicate_detected [] None
                         (Some [(''idempotency_key'', PStr key)]))
              (\<lambda>_. prog_return \<lparr>s_execution_id = eid, s_status = status_text status,
                 s_result = (if status = Completed then result else None), s_duplicate = True\<rparr>)
          else
            prog_bind (append_event now eid Ev_submitted [] None
                         (Some [(''tool'', PStr name), (''namespace'', PStr ns)]))
              (\<lambda>_. prog_bind (exec_stmt (always (set_status now eid Ready)))
                (\<lambda>_. prog_bind (append_event now eid Ev_ready [] None None)
                  (\<lambda>_. prog_return \<lparr>s_execution_id = eid, s_status = ''accepted'',
                     s_result = None, s_duplicate = False\<rparr>))))"

definition submit ::
  "(string \<Rightarrow> string option) \<Rightarrow> exec_id \<Rightarrow> string \<Rightarrow> string \<Rightarrow> string \<Rightarrow> raw_message \<Rightarrow>
    submit_result prog" where
  "submit jsonb uid ns name key args =
     prog_bind (get_tool name)
       (\<lambda>t. in_tx (submit_tx jsonb uid ns name key args (t_max_attempts t)))"

section \<open>Claim\<close>

text \<open>
  The ready row with the least \<open>created_at\<close> that no other transaction has locked
  (\<open>FOR UPDATE SKIP LOCKED LIMIT 1\<close>); \<open>locked\<close> lists the rows locked elsewhere.
\<close>

definition select_ready :: "exec_id list \<Rightarrow> db \<Rightarrow> execution option" where
  "select_ready locked d =
     first_by e_created_at
       (filter (\<lambda>e. e_status e = Ready \<and> e_id e \<notin> set locked) (db_executions d))"

definition claimed_row :: "time \<Rightarrow> execution \<Rightarrow> execution" where
  "claimed_row now e =
     e\<lparr>e_status := Running, e_attempts := e_attempts e + 1, e_updated_at := now\<rparr>"

definition claim_ready :: "time \<Rightarrow> exec_id list \<Rightarrow> (execution list) stmt" where
  "claim_ready now locked d =
     (case select_ready locked d of
        None \<Rightarrow> (Inr [], d)
      | Some e \<Rightarrow>
          if int32_max < e_attempts e + 1 then (Inl (SqlState ''22003''), d)
          else (Inr (returning (\<lambda>r. e_id r = e_id e) (claimed_row now) (db_executions d)),
                d\<lparr>db_executions := upd_where (\<lambda>r. e_id r = e_id e) (claimed_row now) (db_executions d)\<rparr>))"

definition select_next_token :: "exec_id \<Rightarrow> int stmt" where
  "select_next_token eid d =
     (let t = max_token (tokens (log_of d eid)) + 1
      in if int64_max < t then (Inl (SqlState ''22003''), d) else (Inr t, d))"

definition lease_until :: "time \<Rightarrow> int \<Rightarrow> time" where
  "lease_until now secs = now + secs * 1000000"

definition put_lease :: "time \<Rightarrow> exec_id \<Rightarrow> string \<Rightarrow> int \<Rightarrow> int \<Rightarrow> db \<Rightarrow> db" where
  "put_lease now eid worker tok secs d =
     (if lease_of d eid = None
      then d\<lparr>db_leases := db_leases d @ [\<lparr>l_execution_id = eid, l_worker_id = worker,
             l_fencing_token = tok, l_lease_expires = lease_until now secs, l_claimed_at = now\<rparr>]\<rparr>
      else d\<lparr>db_leases := upd_where (\<lambda>l. l_execution_id l = eid)
             (\<lambda>l. l\<lparr>l_worker_id := worker, l_fencing_token := tok,
                l_lease_expires := lease_until now secs, l_claimed_at := now\<rparr>) (db_leases d)\<rparr>)"

definition upsert_lease :: "time \<Rightarrow> exec_id \<Rightarrow> string \<Rightarrow> int \<Rightarrow> int \<Rightarrow> time stmt" where
  "upsert_lease now eid worker tok secs d =
     (if lease_of d eid = None \<and> exec_of d eid = None then (Inl (SqlState ''23503''), d)
      else (Inr (lease_until now secs), put_lease now eid worker tok secs d))"

definition claim_tx :: "exec_id list \<Rightarrow> string \<Rightarrow> int \<Rightarrow> time \<Rightarrow> claim_result prog" where
  "claim_tx locked worker secs now =
     prog_bind (exec_stmt (claim_ready now locked))
       (\<lambda>rows. case rows of
          [] \<Rightarrow> prog_fail ErrNoWork
        | e # _ \<Rightarrow>
            prog_bind (exec_stmt (select_next_token (e_id e)))
              (\<lambda>tok. prog_bind (exec_stmt (upsert_lease now (e_id e) worker tok secs))
                (\<lambda>expires. prog_bind (append_event now (e_id e) Ev_claimed worker (Some tok)
                                       (Some [(''attempt'', PInt (e_attempts e))]))
                  (\<lambda>_. prog_return
                     \<lparr>c_execution_id = e_id e, c_tool_name = e_tool_name e,
                      c_input_args = e_input_args e, c_attempts = e_attempts e,
                      c_max_attempts = e_max_attempts e, c_fencing_token = tok,
                      c_lease_expires = expires\<rparr>))))"

definition claim :: "exec_id list \<Rightarrow> string \<Rightarrow> int \<Rightarrow> claim_result prog" where
  "claim locked worker secs = in_tx (claim_tx locked worker secs)"

section \<open>Heartbeat\<close>

definition extend_lease :: "time \<Rightarrow> exec_id \<Rightarrow> int \<Rightarrow> int \<Rightarrow> (lease list) stmt" where
  "extend_lease now eid tok secs d =
     (let p = (\<lambda>l. l_execution_id l = eid \<and> (l_fencing_token l = tok \<and> now < l_lease_expires l));
          f = (\<lambda>l. l\<lparr>l_lease_expires := lease_until now secs\<rparr>)
      in (Inr (returning p f (db_leases d)), d\<lparr>db_leases := upd_where p f (db_leases d)\<rparr>))"

definition heartbeat_tx :: "exec_id \<Rightarrow> int \<Rightarrow> int \<Rightarrow> time \<Rightarrow> unit prog" where
  "heartbeat_tx eid tok secs now =
     prog_bind (exec_stmt (extend_lease now eid tok secs))
       (\<lambda>rows. case rows of
          [] \<Rightarrow> prog_fail ErrStale
        | _ # _ \<Rightarrow> append_event now eid Ev_heartbeat [] (Some tok) None)"

definition heartbeat :: "exec_id \<Rightarrow> int \<Rightarrow> int \<Rightarrow> unit prog" where
  "heartbeat eid tok secs = in_tx (heartbeat_tx eid tok secs)"

section \<open>Complete\<close>

definition completed_row :: "time \<Rightarrow> string option \<Rightarrow> execution \<Rightarrow> execution" where
  "completed_row now res e =
     e\<lparr>e_status := Completed, e_result := res, e_error_message := None, e_updated_at := now\<rparr>"

definition update_completed ::
  "(string \<Rightarrow> string option) \<Rightarrow> time \<Rightarrow> exec_id \<Rightarrow> int \<Rightarrow> raw_message \<Rightarrow> (execution list) stmt" where
  "update_completed jsonb now eid tok result d =
     (case json_param jsonb result of
        None \<Rightarrow> (Inl (SqlState ''22P02''), d)
      | Some doc \<Rightarrow>
          (let p = (\<lambda>e. e_id e = eid \<and> live_lease now d eid tok); f = completed_row now doc
           in (Inr (returning p f (db_executions d)),
               d\<lparr>db_executions := upd_where p f (db_executions d)\<rparr>)))"

definition complete_tx ::
  "(string \<Rightarrow> string option) \<Rightarrow> exec_id \<Rightarrow> int \<Rightarrow> string \<Rightarrow> raw_message \<Rightarrow> time \<Rightarrow> (error + unit) prog" where
  "complete_tx jsonb eid tok worker result now =
     prog_bind (exec_stmt (update_completed jsonb now eid tok result))
       (\<lambda>rows. case rows of
          [] \<Rightarrow> prog_bind (append_event now eid Ev_stale_rejected worker (Some tok)
                  (Some [(''reason'', PStr ''completion rejected: fencing token superseded or lease expired'')]))
                (\<lambda>_. prog_return (Inl ErrStale))
        | _ # _ \<Rightarrow> prog_bind (append_event now eid Ev_completed worker (Some tok) None)
                (\<lambda>_. prog_bind (exec_stmt (always (delete_lease eid)))
                  (\<lambda>_. prog_return (Inr ()))))"

definition complete ::
  "(string \<Rightarrow> string option) \<Rightarrow> exec_id \<Rightarrow> int \<Rightarrow> string \<Rightarrow> raw_message \<Rightarrow> unit prog" where
  "complete jsonb eid tok worker result = prog_join (in_tx (complete_tx jsonb eid tok worker result))"

section \<open>Fail\<close>

definition failed_row :: "time \<Rightarrow> string \<Rightarrow> execution \<Rightarrow> execution" where
  "failed_row now msg e =
     e\<lparr>e_status := (if e_attempts e \<ge> e_max_attempts e then Failed else Pending),
       e_error_message := Some msg, e_updated_at := now\<rparr>"

definition update_failed :: "time \<Rightarrow> exec_id \<Rightarrow> int \<Rightarrow> string \<Rightarrow> (execution list) stmt" where
  "update_failed now eid tok msg d =
     (let p = (\<lambda>e. e_id e = eid \<and> live_lease now d eid tok); f = failed_row now msg
      in (Inr (returning p f (db_executions d)),
          d\<lparr>db_executions := upd_where p f (db_executions d)\<rparr>))"

text \<open>
  \<open>time.Duration(1<<uint(attempts)) * time.Second\<close>, then \<open>int(backoff.Seconds())\<close>:
  the nanosecond product wraps at 64 bits and the seconds are truncated towards zero.
\<close>

definition backoff_seconds :: "int \<Rightarrow> int" where
  "backoff_seconds attempts = wrap64 (shl_one attempts * 1000000000) sdiv 1000000000"

definition put_retry :: "time \<Rightarrow> exec_id \<Rightarrow> int \<Rightarrow> int \<Rightarrow> db \<Rightarrow> db" where
  "put_retry now eid secs attempt d =
     (if retry_of d eid = None
      then d\<lparr>db_retries := db_retries d @ [\<lparr>r_execution_id = eid,
             r_retry_at = lease_until now secs, r_attempt = attempt\<rparr>]\<rparr>
      else d\<lparr>db_retries := upd_where (\<lambda>r. r_execution_id r = eid)
             (\<lambda>r. r\<lparr>r_retry_at := lease_until now secs, r_attempt := attempt\<rparr>) (db_retries d)\<rparr>)"

definition fail_tx :: "exec_id \<Rightarrow> int \<Rightarrow> string \<Rightarrow> string \<Rightarrow> time \<Rightarrow> (error + unit) prog" where
  "fail_tx eid tok worker msg now =
     prog_bind (exec_stmt (update_failed now eid tok msg))
       (\<lambda>rows. case rows of
          [] \<Rightarrow> prog_bind (append_event now eid Ev_stale_rejected worker (Some tok)
                  (Some [(''reason'', PStr ''failure rejected: fencing token superseded or lease expired'')]))
                (\<lambda>_. prog_return (Inl ErrStale))
        | e # _ \<Rightarrow>
            prog_bind (exec_stmt (always (delete_lease eid)))
              (\<lambda>_. if e_status e = Failed then
                   prog_bind (append_event now eid Ev_failed worker (Some tok)
                       (Some [(''error'', PStr msg), (''attempt'', PInt (e_attempts e))]))
                     (\<lambda>_. prog_return (Inr ()))
                 else
                   prog_bind (exec_stmt (always
                       (put_retry now eid (backoff_seconds (e_attempts e)) (e_attempts e))))
                     (\<lambda>_. prog_bind (append_event now eid Ev_retry_scheduled worker (Some tok)
                         (Some [(''error'', PStr msg), (''attempt'', PInt (e_attempts e)),
                                (''backoff_seconds'', PInt (backoff_seconds (e_attempts e)))]))
                       (\<lambda>_. prog_return (Inr ())))))"

definition fail :: "exec_id \<Rightarrow> int \<Rightarrow> string \<Rightarrow> string \<Rightarrow> unit prog" where
  "fail eid tok worker msg = prog_join (in_tx (fail_tx eid tok worker msg))"

end
