(* ===== verification/Store_Spec.thy ===== *)
theory Store_Spec
  imports Store_Ops
begin

text \<open>
  What each operation of \<open>Store_Ops\<close> promises: its effect on the tables as one atomic
  step, with every refusal, and the proof that the program with its statements, early
  returns and failing connection implements it (the interpretations of
  \<open>store_operation\<close>).
\<close>

section \<open>Statements never lower the sequence\<close>

lemma seq_mono_insert_event [simp]: "seq_mono (insert_event now eid ty worker tok pl)"
  by (simp add: seq_mono_def insert_event_def log_event_def)

lemma seq_mono_always [simp]:
  "(\<And>d. db_event_seq (f d) = db_event_seq d) \<Longrightarrow> seq_mono (always f)"
  by (simp add: seq_mono_def always_def)

lemma seq_mono_insert_execution [simp]:
  "seq_mono (insert_execution jsonb now uid ns name key args maxa)"
  by (simp add: seq_mono_def insert_execution_def touch_execution_def split: option.split)

lemma seq_mono_claim_ready [simp]: "seq_mono (claim_ready now locked)"
  by (simp add: seq_mono_def claim_ready_def split: option.split)

lemma seq_mono_select_next_token [simp]: "seq_mono (select_next_token eid)"
  by (simp add: seq_mono_def select_next_token_def Let_def)

lemma seq_mono_upsert_lease [simp]: "seq_mono (upsert_lease now eid worker tok secs)"
  by (simp add: seq_mono_def upsert_lease_def put_lease_def)

lemma seq_mono_extend_lease [simp]: "seq_mono (extend_lease now eid tok secs)"
  by (simp add: seq_mono_def extend_lease_def Let_def)

lemma seq_mono_update_completed [simp]: "seq_mono (update_completed jsonb now eid tok result)"
  by (simp add: seq_mono_def update_completed_def Let_def split: option.split)

lemma seq_mono_update_failed [simp]: "seq_mono (update_failed now eid tok msg)"
  by (simp add: seq_mono_def update_failed_def Let_def)

lemma seq_of_updates [simp]:
  "db_event_seq (set_status now eid v d) = db_event_seq d"
  "db_event_seq (delete_lease eid d) = db_event_seq d"
  "db_event_seq (put_retry now eid secs n d) = db_event_seq d"
  by (simp_all add: set_status_def delete_lease_def put_retry_def)

lemma robust_append_event [simp]: "robust (append_event now eid ty worker tok pl)"
  by (simp add: append_event_def robust_stmt)

lemmas [simp] = robust_rules

section \<open>Effects\<close>

definition submit_effect ::
  "(string \<Rightarrow> string option) \<Rightarrow> exec_id \<Rightarrow> string \<Rightarrow> string \<Rightarrow> string \<Rightarrow> raw_message \<Rightarrow>
    submit_result effect" where
  "submit_effect jsonb uid ns name key args now d =
     (case row_of t_name (db_tools d) name of
        None \<Rightarrow> (Inl ErrUnknownTool, d)
      | Some t \<Rightarrow>
          (case jsonb (args_or_empty args) of
             None \<Rightarrow> (Inl (DbError (SqlState ''22P02'')), d)
           | Some doc \<Rightarrow>
               (case row_of e_key (db_executions d) (ns, name, key) of
                  Some e \<Rightarrow>
                    (Inr \<lparr>s_execution_id = e_id e, s_status = status_text (e_status e),
                        s_result = (if e_status e = Completed then e_result e else None),
                        s_duplicate = True\<rparr>,
                     log_event now (e_id e) Ev_duplicate_detected [] None
                       (Some [(''idempotency_key'', PStr key)]) (touch_execution now (e_id e) d))
                | None \<Rightarrow>
                    if exec_of d uid \<noteq> None then (Inl (DbError (SqlState ''23505'')), d)
                    else
                      (Inr \<lparr>s_execution_id = uid, s_status = ''accepted'', s_result = None,
                          s_duplicate = False\<rparr>,
                       log_event now uid Ev_ready [] None None
                         (set_status now uid Ready
                           (log_event now uid Ev_submitted [] None
                             (Some [(''tool'', PStr name), (''namespace'', PStr ns)])
                             (d\<lparr>db_executions := db_executions d @
                                  [new_execution now uid ns name key doc (t_max_attempts t)]\<rparr>)))))))"

definition next_token :: "db \<Rightarrow> exec_id \<Rightarrow> int" where
  "next_token d eid = max_token (tokens (log_of d eid)) + 1"

definition claim_of :: "time \<Rightarrow> execution \<Rightarrow> int \<Rightarrow> int \<Rightarrow> claim_result" where
  "claim_of now e tok secs =
     \<lparr>c_execution_id = e_id e, c_tool_name = e_tool_name e, c_input_args = e_input_args e,
      c_attempts = e_attempts e + 1, c_max_attempts = e_max_attempts e,
      c_fencing_token = tok, c_lease_expires = lease_until now secs\<rparr>"

definition claimed_db :: "time \<Rightarrow> execution \<Rightarrow> string \<Rightarrow> int \<Rightarrow> int \<Rightarrow> db \<Rightarrow> db" where
  "claimed_db now e worker tok secs d =
     log_event now (e_id e) Ev_claimed worker (Some tok)
       (Some [(''attempt'', PInt (e_attempts e + 1))])
       (put_lease now (e_id e) worker tok secs
         (d\<lparr>db_executions := upd_where (\<lambda>r. e_id r = e_id e) (claimed_row now) (db_executions d)\<rparr>))"

definition claim_effect :: "exec_id list \<Rightarrow> string \<Rightarrow> int \<Rightarrow> claim_result effect" where
  "claim_effect locked worker secs now d =
     (case select_ready locked d of
        None \<Rightarrow> (Inl ErrNoWork, d)
      | Some e0 \<Rightarrow>
          (case exec_of d (e_id e0) of
             None \<Rightarrow> (Inl ErrNoWork, d)
           | Some e \<Rightarrow>
               if int32_max < e_attempts e0 + 1 \<or> int64_max < next_token d (e_id e)
               then (Inl (DbError (SqlState ''22003'')), d)
               else (Inr (claim_of now e (next_token d (e_id e)) secs),
                     claimed_db now e worker (next_token d (e_id e)) secs d)))"

definition extended_db :: "time \<Rightarrow> exec_id \<Rightarrow> int \<Rightarrow> int \<Rightarrow> db \<Rightarrow> db" where
  "extended_db now eid tok secs d =
     log_event now eid Ev_heartbeat [] (Some tok) None
       (d\<lparr>db_leases := upd_where
            (\<lambda>l. l_execution_id l = eid \<and> (l_fencing_token l = tok \<and> now < l_lease_expires l))
            (\<lambda>l. l\<lparr>l_lease_expires := lease_until now secs\<rparr>) (db_leases d)\<rparr>)"

definition heartbeat_effect :: "exec_id \<Rightarrow> int \<Rightarrow> int \<Rightarrow> unit effect" where
  "heartbeat_effect eid tok secs now d =
     (if \<not> live_lease now d eid tok then (Inl ErrStale, d)
      else if exec_of d eid = None
      then (Inl (DbError (SqlState ''23503'')), d\<lparr>db_event_seq := db_event_seq d + 1\<rparr>)
      else (Inr (), extended_db now eid tok secs d))"

definition rejected_db :: "time \<Rightarrow> exec_id \<Rightarrow> string \<Rightarrow> int \<Rightarrow> string \<Rightarrow> db \<Rightarrow> db" where
  "rejected_db now eid worker tok reason =
     log_event now eid Ev_stale_rejected worker (Some tok) (Some [(''reason'', PStr reason)])"

definition completed_db :: "time \<Rightarrow> exec_id \<Rightarrow> string \<Rightarrow> int \<Rightarrow> string option \<Rightarrow> db \<Rightarrow> db" where
  "completed_db now eid worker tok res d =
     delete_lease eid (log_event now eid Ev_completed worker (Some tok) None
       (d\<lparr>db_executions := upd_where (\<lambda>e. e_id e = eid) (completed_row now res) (db_executions d)\<rparr>))"

definition complete_effect ::
  "(string \<Rightarrow> string option) \<Rightarrow> exec_id \<Rightarrow> int \<Rightarrow> string \<Rightarrow> raw_message \<Rightarrow> unit effect" where
  "complete_effect jsonb eid tok worker result now d =
     (case json_param jsonb result of
        None \<Rightarrow> (Inl (DbError (SqlState ''22P02'')), d)
      | Some res \<Rightarrow>
          if exec_of d eid = None
          then (Inl (DbError (SqlState ''23503'')), d\<lparr>db_event_seq := db_event_seq d + 1\<rparr>)
          else if live_lease now d eid tok then (Inr (), completed_db now eid worker tok res d)
          else (Inl ErrStale, rejected_db now eid worker tok
                 ''completion rejected: fencing token superseded or lease expired'' d))"

definition failed_db :: "time \<Rightarrow> execution \<Rightarrow> string \<Rightarrow> int \<Rightarrow> string \<Rightarrow> db \<Rightarrow> db" where
  "failed_db now e worker tok msg d =
     (let d1 = delete_lease (e_id e)
            (d\<lparr>db_executions := upd_where (\<lambda>r. e_id r = e_id e) (failed_row now msg) (db_executions d)\<rparr>);
          att = (''attempt'', PInt (e_attempts e))
      in if e_attempts e \<ge> e_max_attempts e
         then log_event now (e_id e) Ev_failed worker (Some tok) (Some [(''error'', PStr msg), att]) d1
         else log_event now (e_id e) Ev_retry_scheduled worker (Some tok)
                (Some [(''error'', PStr msg), att,
                   (''backoff_seconds'', PInt (backoff_seconds (e_attempts e)))])
                (put_retry now (e_id e) (backoff_seconds (e_attempts e)) (e_attempts e) d1))"

definition fail_effect :: "exec_id \<Rightarrow> int \<Rightarrow> string \<Rightarrow> string \<Rightarrow> unit effect" where
  "fail_effect eid tok worker msg now d =
     (case exec_of d eid of
        None \<Rightarrow> (Inl (DbError (SqlState ''23503'')), d\<lparr>db_event_seq := db_event_seq d + 1\<rparr>)
      | Some e \<Rightarrow>
          if live_lease now d eid tok then (Inr (), failed_db now e worker tok msg d)
          else (Inl ErrStale, rejected_db now eid worker tok
                 ''failure rejected: fencing token superseded or lease expired'' d))"

section \<open>What the statements leave alone\<close>

lemma log_event_frame [simp]:
  "db_tools (log_event now eid ty w tok pl d) = db_tools d"
  "db_executions (log_event now eid ty w tok pl d) = db_executions d"
  "db_leases (log_event now eid ty w tok pl d) = db_leases d"
  "db_retries (log_event now eid ty w tok pl d) = db_retries d"
  "db_event_seq (log_event now eid ty w tok pl d) = db_event_seq d + 1"
  "db_events (log_event now eid ty w tok pl d) =
     db_events d @ [new_event now eid ty w tok pl (db_event_seq d)]"
  "exec_of (log_event now eid ty w tok pl d) = exec_of d"
  "lease_of (log_event now eid ty w tok pl d) = lease_of d"
  "retry_of (log_event now eid ty w tok pl d) = retry_of d"
  by (simp_all add: log_event_def exec_of_def lease_of_def retry_of_def)

lemma set_status_frame [simp]:
  "db_tools (set_status now eid v d) = db_tools d"
  "db_leases (set_status now eid v d) = db_leases d"
  "db_events (set_status now eid v d) = db_events d"
  "db_retries (set_status now eid v d) = db_retries d"
  "lease_of (set_status now eid v d) = lease_of d"
  "retry_of (set_status now eid v d) = retry_of d"
  by (simp_all add: set_status_def lease_of_def retry_of_def fun_eq_iff)

lemma delete_lease_frame [simp]:
  "db_tools (delete_lease eid d) = db_tools d"
  "db_executions (delete_lease eid d) = db_executions d"
  "db_events (delete_lease eid d) = db_events d"
  "db_retries (delete_lease eid d) = db_retries d"
  "exec_of (delete_lease eid d) = exec_of d"
  "retry_of (delete_lease eid d) = retry_of d"
  by (simp_all add: delete_lease_def exec_of_def retry_of_def)

lemma put_lease_frame [simp]:
  "db_tools (put_lease now eid w tok secs d) = db_tools d"
  "db_executions (put_lease now eid w tok secs d) = db_executions d"
  "db_events (put_lease now eid w tok secs d) = db_events d"
  "db_retries (put_lease now eid w tok secs d) = db_retries d"
  "db_event_seq (put_lease now eid w tok secs d) = db_event_seq d"
  "exec_of (put_lease now eid w tok secs d) = exec_of d"
  "retry_of (put_lease now eid w tok secs d) = retry_of d"
  by (simp_all add: put_lease_def exec_of_def retry_of_def)

lemma put_retry_frame [simp]:
  "db_tools (put_retry now eid secs n d) = db_tools d"
  "db_executions (put_retry now eid secs n d) = db_executions d"
  "db_events (put_retry now eid secs n d) = db_events d"
  "db_leases (put_retry now eid secs n d) = db_leases d"
  "exec_of (put_retry now eid secs n d) = exec_of d"
  "lease_of (put_retry now eid secs n d) = lease_of d"
  by (simp_all add: put_retry_def exec_of_def lease_of_def)

lemma touch_frame [simp]:
  "db_tools (touch_execution now eid d) = db_tools d"
  "db_leases (touch_execution now eid d) = db_leases d"
  "db_events (touch_execution now eid d) = db_events d"
  "db_retries (touch_execution now eid d) = db_retries d"
  "db_event_seq (touch_execution now eid d) = db_event_seq d"
  by (simp_all add: touch_execution_def)

lemma exec_of_upd:
  assumes "\<And>r. e_id (f r) = e_id r"
  shows "exec_of (d\<lparr>db_executions := upd_where (\<lambda>r. e_id r = k) f (db_executions d)\<rparr>) k' =
    (if k' = k then map_option f (exec_of d k') else exec_of d k')"
  by (simp add: exec_of_def row_of_upd_key assms)

lemma exec_of_set_status [simp]:
  "exec_of (set_status now eid v d) k =
    (if k = eid then map_option (\<lambda>e. e\<lparr>e_status := v, e_updated_at := now\<rparr>) (exec_of d k)
     else exec_of d k)"
  by (simp add: set_status_def exec_of_upd)

lemma exec_of_touch [simp]:
  "exec_of (touch_execution now eid d) k =
    (if k = eid then map_option (\<lambda>e. e\<lparr>e_updated_at := now\<rparr>) (exec_of d k) else exec_of d k)"
  by (simp add: touch_execution_def exec_of_upd)

lemma lease_of_delete [simp]:
  "lease_of (delete_lease eid d) k = (if k = eid then None else lease_of d k)"
  by (simp add: delete_lease_def lease_of_def row_of_del_where)

lemma exec_of_insert:
  "exec_of (d\<lparr>db_executions := db_executions d @ [e]\<rparr>) k =
    (case exec_of d k of None \<Rightarrow> if e_id e = k then Some e else None | Some r \<Rightarrow> Some r)"
  by (simp add: exec_of_def row_of_append row_of_Cons split: option.split)

lemma exec_of_member: "e \<in> set (db_executions d) \<Longrightarrow> exec_of d (e_id e) \<noteq> None"
  by (simp add: exec_of_def row_of_None_iff)

lemma exec_of_id: "exec_of d k = Some e \<Longrightarrow> e_id e = k"
  by (auto simp: exec_of_def dest: row_of_SomeD)

lemma exec_of_frame_leases [simp]: "exec_of (d\<lparr>db_leases := ls\<rparr>) = exec_of d"
  by (simp add: exec_of_def)

lemma row_ids [simp]:
  "e_id (claimed_row now e) = e_id e" "e_id (completed_row now res e) = e_id e"
  "e_id (failed_row now msg e) = e_id e" "e_id (new_execution now uid ns name key args n) = uid"
  by (simp_all add: claimed_row_def completed_row_def failed_row_def new_execution_def)

section \<open>The operations implement their effects\<close>

lemma heartbeat_tx_effect: "tx_effect (heartbeat_tx eid tok secs) = heartbeat_effect eid tok secs"
proof (intro ext)
  fix now d
  let ?p = "\<lambda>l. l_execution_id l = eid \<and> (l_fencing_token l = tok \<and> now < l_lease_expires l)"
  have live: "live_lease now d eid tok \<longleftrightarrow> find ?p (db_leases d) \<noteq> None"
    by (auto simp: live_lease_def find_None_iff)
  show "tx_effect (heartbeat_tx eid tok secs) now d = heartbeat_effect eid tok secs now d"
  proof (cases "live_lease now d eid tok")
    case True
    then obtain l where "find ?p (db_leases d) = Some l" using live by auto
    with True show ?thesis
      by (simp add: tx_effect_def heartbeat_tx_def heartbeat_effect_def quiet_simps
          extend_lease_def Let_def case_returning append_event_def insert_event_def extended_db_def)
  next
    case False
    then have "find ?p (db_leases d) = None" using live by auto
    with False show ?thesis
      by (simp add: tx_effect_def heartbeat_tx_def heartbeat_effect_def quiet_simps
          extend_lease_def Let_def case_returning)
  qed
qed

lemma heartbeat_robust: "robust (heartbeat_tx eid tok secs now)"
  by (simp add: heartbeat_tx_def)

interpretation heartbeating: store_operation "heartbeat eid tok secs" "heartbeat_effect eid tok secs"
  for eid tok secs
  unfolding heartbeat_def
  by (rule store_operation_in_tx) (simp_all add: heartbeat_robust heartbeat_tx_effect)

lemma complete_tx_effect:
  "join_effect (tx_effect (complete_tx jsonb eid tok worker result)) =
    complete_effect jsonb eid tok worker result"
proof (intro ext)
  fix now d
  show "join_effect (tx_effect (complete_tx jsonb eid tok worker result)) now d =
      complete_effect jsonb eid tok worker result now d"
  proof (cases "json_param jsonb result")
    case None
    then show ?thesis
      by (simp add: join_effect_def tx_effect_def complete_tx_def complete_effect_def quiet_simps
          update_completed_def)
  next
    case (Some res)
    then show ?thesis
      by (cases "exec_of d eid"; cases "live_lease now d eid tok")
         (simp_all add: join_effect_def tx_effect_def complete_tx_def complete_effect_def quiet_simps
          update_completed_def Let_def case_returning find_guards append_event_def
          insert_event_def exec_of_upd rejected_db_def completed_db_def always_def
          upd_where_none del_where_def flip: exec_of_def)
  qed
qed

lemma complete_robust: "robust (complete_tx jsonb eid tok worker result now)"
  by (simp add: complete_tx_def)

interpretation completing: store_operation
  "complete jsonb eid tok worker result" "complete_effect jsonb eid tok worker result"
  for jsonb eid tok worker result
  unfolding complete_def
  by (rule store_operation_join_tx) (simp_all add: complete_robust complete_tx_effect)

lemma fail_tx_effect:
  "join_effect (tx_effect (fail_tx eid tok worker msg)) = fail_effect eid tok worker msg"
proof (intro ext)
  fix now d
  show "join_effect (tx_effect (fail_tx eid tok worker msg)) now d = fail_effect eid tok worker msg now d"
  proof (cases "exec_of d eid")
    case None
    then show ?thesis
      by (cases "live_lease now d eid tok")
         (simp_all add: join_effect_def tx_effect_def fail_tx_def fail_effect_def quiet_simps
          update_failed_def Let_def case_returning find_guards append_event_def
          insert_event_def exec_of_upd upd_where_none flip: exec_of_def)
  next
    case (Some e)
    then show ?thesis
      by (cases "live_lease now d eid tok")
         (simp_all add: join_effect_def tx_effect_def fail_tx_def fail_effect_def quiet_simps
          update_failed_def Let_def case_returning find_guards append_event_def
          insert_event_def exec_of_upd rejected_db_def failed_db_def always_def failed_row_def
          exec_of_id [OF Some] upd_where_none flip: exec_of_def)
  qed
qed

lemma fail_robust: "robust (fail_tx eid tok worker msg now)"
  by (simp add: fail_tx_def)

interpretation failing: store_operation "fail eid tok worker msg" "fail_effect eid tok worker msg"
  for eid tok worker msg
  unfolding fail_def
  by (rule store_operation_join_tx) (simp_all add: fail_robust fail_tx_effect)

lemma select_readyD:
  assumes "select_ready locked d = Some e"
  shows "e \<in> set (db_executions d)" "e_status e = Ready" "e_id e \<notin> set locked"
    "\<forall>r\<in>set (db_executions d). e_status r = Ready \<and> e_id r \<notin> set locked \<longrightarrow>
       e_created_at e \<le> e_created_at r"
  using first_by_Some [OF assms [unfolded select_ready_def]] by auto

lemma select_ready_exec:
  "select_ready locked d = Some e0 \<Longrightarrow> \<exists>e. exec_of d (e_id e0) = Some e"
  using exec_of_member select_readyD(1) by blast

lemma claim_tx_effect: "tx_effect (claim_tx locked worker secs) = claim_effect locked worker secs"
proof (intro ext)
  fix now d
  show "tx_effect (claim_tx locked worker secs) now d = claim_effect locked worker secs now d"
  proof (cases "select_ready locked d")
    case None
    then show ?thesis
      by (simp add: tx_effect_def claim_tx_def claim_effect_def quiet_simps claim_ready_def)
  next
    case (Some e0)
    then obtain e where e: "exec_of d (e_id e0) = Some e"
      using select_ready_exec by blast
    with Some show ?thesis
      by (simp add: tx_effect_def claim_tx_def claim_effect_def quiet_simps claim_ready_def
          case_returning find_guards select_next_token_def
          upsert_lease_def append_event_def insert_event_def exec_of_upd Let_def
          next_token_def claim_of_def claimed_db_def exec_of_id [OF e] log_of_def
          claimed_row_def flip: exec_of_def)
  qed
qed

lemma claim_robust: "robust (claim_tx locked worker secs now)"
  by (simp add: claim_tx_def)

interpretation claiming: store_operation "claim locked worker secs" "claim_effect locked worker secs"
  for locked worker secs
  unfolding claim_def
  by (rule store_operation_in_tx) (simp_all add: claim_robust claim_tx_effect)

lemma submit_tx_effect:
  assumes "row_of t_name (db_tools d) name = Some t"
  shows "tx_effect (submit_tx jsonb uid ns name key args (t_max_attempts t)) now d =
    submit_effect jsonb uid ns name key args now d"
proof (cases "jsonb (args_or_empty args)")
  case None
  with assms show ?thesis
    by (simp add: tx_effect_def submit_tx_def submit_effect_def quiet_simps insert_execution_def)
next
  case doc: (Some doc)
  show ?thesis
  proof (cases "row_of e_key (db_executions d) (ns, name, key)")
    case None
    with assms doc show ?thesis
      by (cases "exec_of d uid")
         (simp_all add: tx_effect_def submit_tx_def submit_effect_def quiet_simps
          insert_execution_def append_event_def insert_event_def always_def exec_of_insert)
  next
    case (Some e)
    then have "exec_of d (e_id e) \<noteq> None"
      using exec_of_member by (blast dest: row_of_SomeD)
    with assms doc Some show ?thesis
      by (auto simp: tx_effect_def submit_tx_def submit_effect_def quiet_simps
          insert_execution_def append_event_def insert_event_def)
  qed
qed

lemma submit_robust: "robust (submit_tx jsonb uid ns name key args n now)"
  by (simp add: submit_tx_def)

text \<open>\<open>getTool\<close> only reads; the transaction then runs on the tables it read.\<close>

lemma get_tool_tables [simp]: "tables (snd (get_tool name s)) = tables s"
  using exec_stmt_tables [of "\<lambda>d. (Inr (row_of t_name (db_tools d) name), d)" s]
  by (auto simp: get_tool_def auto_stmt_def prog_bind_def prog_fail_def prog_return_def
      split: prod.split sum.split option.split)

lemma get_tool_clock: "clock s \<le> clock (snd (get_tool name s))"
  using exec_stmt_clock [of s "\<lambda>d. (Inr (row_of t_name (db_tools d) name), d)"]
  by (auto simp: get_tool_def auto_stmt_def prog_bind_def prog_fail_def prog_return_def
      split: prod.split sum.split option.split)

lemma get_tool_result:
  "(\<exists>e. fst (get_tool name s) = Inl (DbError e)) \<or>
    fst (get_tool name s) = (case row_of t_name (db_tools (tables s)) name of
      None \<Rightarrow> Inl ErrUnknownTool | Some t \<Rightarrow> Inr t)"
  using exec_stmt_answer [of "\<lambda>d. (Inr (row_of t_name (db_tools d) name), d)" s]
  by (auto simp: get_tool_def auto_stmt_def prog_bind_def prog_fail_def prog_return_def
      run_quiet_stmt split: prod.split sum.split option.split)

lemma get_tool_quiet:
  "net s = [] \<Longrightarrow> get_tool name s = ((case row_of t_name (db_tools (tables s)) name of
      None \<Rightarrow> Inl ErrUnknownTool | Some t \<Rightarrow> Inr t), s)"
  by (auto simp: get_tool_def auto_stmt_def exec_stmt_def prog_bind_def prog_fail_def
      prog_return_def split: option.split)

lemma submit_outcome:
  "outcome (submit_effect jsonb uid ns name key args) s (submit jsonb uid ns name key args s)"
proof -
  obtain r s1 where g: "get_tool name s = (r, s1)" by force
  have t1: "tables s1 = tables s" and c1: "clock s \<le> clock s1"
    using get_tool_tables [of name s] get_tool_clock [of s name] by (simp_all add: g)
  show ?thesis
  proof (cases r)
    case (Inl e)
    have run: "submit jsonb uid ns name key args s = (Inl e, s1)"
      by (simp add: submit_def prog_bind_def g Inl)
    show ?thesis
    proof (cases "\<exists>x. e = DbError x")
      case True
      with run t1 c1 show ?thesis by (auto intro!: outcome_failI)
    next
      case False
      with get_tool_result [of name s] g Inl
      have "row_of t_name (db_tools (tables s)) name = None" and "e = ErrUnknownTool"
        by (auto split: option.splits)
      with run t1 c1 show ?thesis
        by (auto intro!: outcome_answerI [of _ "clock s1"] simp: submit_effect_def)
    qed
  next
    case (Inr t)
    with get_tool_result [of name s] g
    have row: "row_of t_name (db_tools (tables s)) name = Some t" by (auto split: option.splits)
    let ?b = "submit_tx jsonb uid ns name key args (t_max_attempts t)"
    have run: "submit jsonb uid ns name key args s = in_tx ?b s1"
      by (simp add: submit_def prog_bind_def g Inr)
    have "outcome (tx_effect ?b) s1 (in_tx ?b s1)"
      by (rule in_tx_outcome) (rule submit_robust)
    then show ?thesis
      unfolding run using c1 t1 submit_tx_effect [OF row] by (rule outcome_later)
  qed
qed

lemma submit_quiet:
  assumes "net s = []"
  shows "submit jsonb uid ns name key args s =
    (fst (submit_effect jsonb uid ns name key args (clock s) (tables s)),
     s\<lparr>tables := snd (submit_effect jsonb uid ns name key args (clock s) (tables s))\<rparr>)"
proof (cases "row_of t_name (db_tools (tables s)) name")
  case None
  then show ?thesis
    by (simp add: submit_def prog_bind_def get_tool_quiet [OF assms] submit_effect_def)
next
  case (Some t)
  then show ?thesis
    using in_tx_quiet [OF submit_robust assms] submit_tx_effect [OF Some]
    by (simp add: submit_def prog_bind_def get_tool_quiet [OF assms])
qed

interpretation submitting: store_operation
  "submit jsonb uid ns name key args" "submit_effect jsonb uid ns name key args"
  for jsonb uid ns name key args
  by unfold_locales (simp_all add: submit_outcome submit_quiet)

end
