(* ===== verification/Scheduler.thy ===== *)
theory Scheduler
  imports Store_Spec
begin

text \<open>
  The lease reaper and retry promoter: \<open>RunSchedulerPass\<close>, \<open>expireLease\<close> and
  \<open>promoteRetry\<close> of \<open>internal/store/ops.go\<close>. A pass reads the expired leases, handles
  each in a transaction of its own, then reads the due retries and promotes each.
  \<open>expireLease\<close> and \<open>promoteRetry\<close> act on the rows the pass read earlier and do not
  look at them again.
\<close>

section \<open>Reads of a pass\<close>

text \<open>The join of running executions with their lapsed leases: identifier, attempts, limit.\<close>

definition select_expired :: "time \<Rightarrow> db \<Rightarrow> (exec_id \<times> int \<times> int) list" where
  "select_expired now d =
     [(e_id e, e_attempts e, e_max_attempts e).
        e \<leftarrow> db_executions d, l \<leftarrow> db_leases d,
        l_execution_id l = e_id e \<and> e_status e = Running \<and> l_lease_expires l < now]"

definition select_due :: "time \<Rightarrow> db \<Rightarrow> exec_id list" where
  "select_due now d = map r_execution_id (filter (\<lambda>r. r_retry_at r \<le> now) (db_retries d))"

section \<open>expireLease\<close>

definition fail_execution :: "time \<Rightarrow> exec_id \<Rightarrow> string \<Rightarrow> db \<Rightarrow> db" where
  "fail_execution now eid msg d = d\<lparr>db_executions :=
     upd_where (\<lambda>e. e_id e = eid)
       (\<lambda>e. e\<lparr>e_status := Failed, e_error_message := Some msg, e_updated_at := now\<rparr>) (db_executions d)\<rparr>"

definition expire_lease_tx :: "exec_id \<Rightarrow> int \<Rightarrow> int \<Rightarrow> time \<Rightarrow> unit prog" where
  "expire_lease_tx eid attempts max_attempts now =
     prog_bind (append_event now eid Ev_lease_expired [] None (Some [(''attempt'', PInt attempts)]))
       (\<lambda>_. prog_bind (exec_stmt (always (delete_lease eid)))
         (\<lambda>_. if attempts \<ge> max_attempts then
              prog_bind (exec_stmt (always (fail_execution now eid ''lease expired after max attempts'')))
                (\<lambda>_. append_event now eid Ev_failed [] None
                   (Some [(''reason'', PStr ''lease expired after max attempts'')]))
            else exec_stmt (always (set_status now eid Ready))))"

definition expire_lease :: "exec_id \<Rightarrow> int \<Rightarrow> int \<Rightarrow> unit prog" where
  "expire_lease eid attempts max_attempts = in_tx (expire_lease_tx eid attempts max_attempts)"

section \<open>promoteRetry\<close>

definition delete_retry :: "exec_id \<Rightarrow> db \<Rightarrow> db" where
  "delete_retry eid d = d\<lparr>db_retries := del_where (\<lambda>r. r_execution_id r = eid) (db_retries d)\<rparr>"

definition promote_retry_tx :: "exec_id \<Rightarrow> time \<Rightarrow> unit prog" where
  "promote_retry_tx eid now =
     prog_bind (exec_stmt (always (set_status now eid Ready)))
       (\<lambda>_. prog_bind (exec_stmt (always (delete_retry eid)))
         (\<lambda>_. append_event now eid Ev_ready [] None (Some [(''reason'', PStr ''retry promoted'')])))"

definition promote_retry :: "exec_id \<Rightarrow> unit prog" where
  "promote_retry eid = in_tx (promote_retry_tx eid)"

section \<open>RunSchedulerPass\<close>

text \<open>
  The loops count the rows they changed and stop at the first error, which the pass
  returns with the count so far.
\<close>

fun expire_all :: "(exec_id \<times> int \<times> int) list \<Rightarrow> nat \<Rightarrow> st \<Rightarrow> (nat \<times> error option) \<times> st" where
  "expire_all [] changed s = ((changed, None), s)"
| "expire_all ((eid, attempts, max_attempts) # rest) changed s =
     (case expire_lease eid attempts max_attempts s of
        (Inl e, s') \<Rightarrow> ((changed, Some e), s')
      | (Inr _, s') \<Rightarrow> expire_all rest (changed + 1) s')"

fun promote_all :: "exec_id list \<Rightarrow> nat \<Rightarrow> st \<Rightarrow> (nat \<times> error option) \<times> st" where
  "promote_all [] changed s = ((changed, None), s)"
| "promote_all (eid # rest) changed s =
     (case promote_retry eid s of
        (Inl e, s') \<Rightarrow> ((changed, Some e), s')
      | (Inr _, s') \<Rightarrow> promote_all rest (changed + 1) s')"

text \<open>
  The two \<open>rows.Next\<close> loops end alike when the rows are exhausted and when the reply
  breaks off: the code does not ask \<open>rows.Err()\<close> here, so the second component of the
  query's answer is unused.
\<close>

definition run_scheduler_pass :: "st \<Rightarrow> (nat \<times> error option) \<times> st" where
  "run_scheduler_pass s =
     (case query_rows select_expired s of
        (Inl e, s1) \<Rightarrow> ((0, Some e), s1)
      | (Inr (stale, _), s1) \<Rightarrow>
          (case expire_all stale 0 s1 of
             ((changed, Some e), s2) \<Rightarrow> ((changed, Some e), s2)
           | ((changed, None), s2) \<Rightarrow>
               (case query_rows select_due s2 of
                  (Inl e, s3) \<Rightarrow> ((changed, Some e), s3)
                | (Inr (due, _), s3) \<Rightarrow> promote_all due changed s3)))"

section \<open>Effects\<close>

definition expired_db :: "time \<Rightarrow> exec_id \<Rightarrow> int \<Rightarrow> int \<Rightarrow> db \<Rightarrow> db" where
  "expired_db now eid attempts max_attempts d =
     (let d1 = delete_lease eid
            (log_event now eid Ev_lease_expired [] None (Some [(''attempt'', PInt attempts)]) d)
      in if attempts \<ge> max_attempts
         then log_event now eid Ev_failed [] None
                (Some [(''reason'', PStr ''lease expired after max attempts'')])
                (fail_execution now eid ''lease expired after max attempts'' d1)
         else set_status now eid Ready d1)"

definition expire_effect :: "exec_id \<Rightarrow> int \<Rightarrow> int \<Rightarrow> unit effect" where
  "expire_effect eid attempts max_attempts now d =
     (if exec_of d eid = None
      then (Inl (DbError (SqlState ''23503'')), d\<lparr>db_event_seq := db_event_seq d + 1\<rparr>)
      else (Inr (), expired_db now eid attempts max_attempts d))"

definition promoted_db :: "time \<Rightarrow> exec_id \<Rightarrow> db \<Rightarrow> db" where
  "promoted_db now eid d =
     log_event now eid Ev_ready [] None (Some [(''reason'', PStr ''retry promoted'')])
       (delete_retry eid (set_status now eid Ready d))"

definition promote_effect :: "exec_id \<Rightarrow> unit effect" where
  "promote_effect eid now d =
     (if exec_of d eid = None
      then (Inl (DbError (SqlState ''23503'')), d\<lparr>db_event_seq := db_event_seq d + 1\<rparr>)
      else (Inr (), promoted_db now eid d))"

lemma fail_execution_frame [simp]:
  "db_tools (fail_execution now eid msg d) = db_tools d"
  "db_leases (fail_execution now eid msg d) = db_leases d"
  "db_events (fail_execution now eid msg d) = db_events d"
  "db_retries (fail_execution now eid msg d) = db_retries d"
  "db_event_seq (fail_execution now eid msg d) = db_event_seq d"
  "lease_of (fail_execution now eid msg d) = lease_of d"
  "retry_of (fail_execution now eid msg d) = retry_of d"
  by (simp_all add: fail_execution_def lease_of_def retry_of_def)

lemma delete_retry_frame [simp]:
  "db_tools (delete_retry eid d) = db_tools d"
  "db_executions (delete_retry eid d) = db_executions d"
  "db_leases (delete_retry eid d) = db_leases d"
  "db_events (delete_retry eid d) = db_events d"
  "db_event_seq (delete_retry eid d) = db_event_seq d"
  "exec_of (delete_retry eid d) = exec_of d"
  "lease_of (delete_retry eid d) = lease_of d"
  by (simp_all add: delete_retry_def exec_of_def lease_of_def)

lemma retry_of_delete [simp]:
  "retry_of (delete_retry eid d) k = (if k = eid then None else retry_of d k)"
  by (simp add: delete_retry_def retry_of_def row_of_del_where)

lemma exec_of_fail_execution [simp]:
  "exec_of (fail_execution now eid msg d) k =
    (if k = eid
     then map_option (\<lambda>e. e\<lparr>e_status := Failed, e_error_message := Some msg, e_updated_at := now\<rparr>)
            (exec_of d k)
     else exec_of d k)"
  by (simp add: fail_execution_def exec_of_upd)

lemma expire_lease_tx_effect: "tx_effect (expire_lease_tx eid n m) = expire_effect eid n m"
  by (intro ext)
     (auto simp: tx_effect_def expire_lease_tx_def expire_effect_def quiet_simps append_event_def
       insert_event_def always_def expired_db_def)

lemma expire_lease_robust: "robust (expire_lease_tx eid n m now)"
  by (simp add: expire_lease_tx_def)

interpretation expiring: store_operation "expire_lease eid n m" "expire_effect eid n m" for eid n m
  unfolding expire_lease_def
  by (rule store_operation_in_tx) (simp_all add: expire_lease_robust expire_lease_tx_effect)

lemma promote_retry_tx_effect: "tx_effect (promote_retry_tx eid) = promote_effect eid"
  by (intro ext)
     (auto simp: tx_effect_def promote_retry_tx_def promote_effect_def quiet_simps append_event_def
       insert_event_def always_def promoted_db_def)

lemma promote_retry_robust: "robust (promote_retry_tx eid now)"
  by (simp add: promote_retry_tx_def)

interpretation promoting: store_operation "promote_retry eid" "promote_effect eid" for eid
  unfolding promote_retry_def
  by (rule store_operation_in_tx) (simp_all add: promote_retry_robust promote_retry_tx_effect)

end
