(* ===== verification/Store_Inv.thy ===== *)
theory Store_Inv
  imports Scheduler
begin

text \<open>
  The invariant of the store. Everything the tables say about one execution is its
  \<open>view\<close>: its row, its lease, its retry entry and its part of the event log.
  \<open>coherent\<close> relates the four; \<open>wf_db\<close> adds the uniqueness constraints and the order
  of the log. Each effect changes the view of one execution only, so that each
  preservation proof is about one view.
\<close>

section \<open>The log of one execution\<close>

definition count_ev :: "event_type \<Rightarrow> event list \<Rightarrow> nat" where
  "count_ev ty vs = length (filter (\<lambda>v. v_event_type v = ty) vs)"

text \<open>The token of the last claim.\<close>

definition held_token :: "event list \<Rightarrow> int option" where
  "held_token vs = (case filter (\<lambda>v. v_event_type v = Ev_claimed) (rev vs) of
     [] \<Rightarrow> None | v # _ \<Rightarrow> v_fencing_token v)"

text \<open>Every claim carries a token above all tokens logged before it.\<close>

fun fresh_from :: "int list \<Rightarrow> event list \<Rightarrow> bool" where
  "fresh_from seen [] = True"
| "fresh_from seen (v # vs) =
     ((v_event_type v = Ev_claimed \<longrightarrow>
        (case v_fencing_token v of None \<Rightarrow> False | Some t \<Rightarrow> (\<forall>t'\<in>set seen. t' < t)))
      \<and> fresh_from (seen @ tokens [v]) vs)"

lemma count_ev_Nil [simp]: "count_ev ty [] = 0"
  by (simp add: count_ev_def)

lemma count_ev_append [simp]: "count_ev ty (vs @ ws) = count_ev ty vs + count_ev ty ws"
  by (simp add: count_ev_def)

lemma count_ev_single [simp]: "count_ev ty [v] = (if v_event_type v = ty then 1 else 0)"
  by (simp add: count_ev_def)

lemma held_token_Nil [simp]: "held_token [] = None"
  by (simp add: held_token_def)

lemma held_token_snoc [simp]:
  "held_token (vs @ [v]) = (if v_event_type v = Ev_claimed then v_fencing_token v else held_token vs)"
  by (simp add: held_token_def)

lemma fresh_from_append:
  "fresh_from seen (vs @ ws) \<longleftrightarrow> fresh_from seen vs \<and> fresh_from (seen @ tokens vs) ws"
proof (induction vs arbitrary: seen)
  case (Cons v vs)
  have "tokens (v # vs) = tokens [v] @ tokens vs" using tokens_append [of "[v]" vs] by simp
  with Cons show ?case by simp
qed simp

lemma fresh_from_snoc [simp]:
  "fresh_from [] (vs @ [v]) \<longleftrightarrow> fresh_from [] vs \<and>
     (v_event_type v = Ev_claimed \<longrightarrow>
        (case v_fencing_token v of None \<Rightarrow> False | Some t \<Rightarrow> (\<forall>t'\<in>set (tokens vs). t' < t)))"
  by (simp add: fresh_from_append)

lemma new_event_fields [simp]:
  "v_execution_id (new_event now eid ty w tok pl n) = eid"
  "v_event_type (new_event now eid ty w tok pl n) = ty"
  "v_fencing_token (new_event now eid ty w tok pl n) = tok"
  "v_id (new_event now eid ty w tok pl n) = n"
  "v_occurred_at (new_event now eid ty w tok pl n) = now"
  by (simp_all add: new_event_def)

section \<open>One execution\<close>

text \<open>
  The attempt counter against the limit of the row: an execution waiting for a claim has
  attempts left (the first one is always granted), a running one is within the limit, a
  failed one has used them all.
\<close>

definition attempts_ok :: "execution \<Rightarrow> bool" where
  "attempts_ok e \<longleftrightarrow>
     (e_status e \<in> {Pending, Ready} \<longrightarrow> e_attempts e = 0 \<or> e_attempts e < e_max_attempts e) \<and>
     (e_status e = Running \<longrightarrow> e_attempts e = 1 \<or> e_attempts e \<le> e_max_attempts e) \<and>
     (e_status e \<in> {Running, Pending, Completed, Failed} \<longrightarrow> 1 \<le> e_attempts e) \<and>
     (e_status e = Failed \<longrightarrow> e_max_attempts e \<le> e_attempts e) \<and>
     0 \<le> e_attempts e \<and> e_attempts e \<le> max 1 (e_max_attempts e)"

definition coherent_row :: "execution \<Rightarrow> lease option \<Rightarrow> retry option \<Rightarrow> event list \<Rightarrow> bool" where
  "coherent_row e l r vs \<longleftrightarrow>
     (e_status e = Running \<longleftrightarrow> l \<noteq> None) \<and>
     (e_status e = Pending \<longleftrightarrow> r \<noteq> None) \<and>
     e_status e \<noteq> Cancelled \<and>
     (\<forall>x. l = Some x \<longrightarrow> held_token vs = Some (l_fencing_token x)) \<and>
     fresh_from [] vs \<and>
     e_attempts e = int (count_ev Ev_claimed vs) \<and>
     attempts_ok e \<and>
     count_ev Ev_completed vs = (if e_status e = Completed then 1 else 0) \<and>
     count_ev Ev_failed vs = (if e_status e = Failed then 1 else 0) \<and>
     (e_status e \<noteq> Completed \<longrightarrow> e_result e = None)"

definition coherent ::
  "execution option \<Rightarrow> lease option \<Rightarrow> retry option \<Rightarrow> event list \<Rightarrow> bool" where
  "coherent eo l r vs = (case eo of
       None \<Rightarrow> l = None \<and> r = None \<and> vs = []
     | Some e \<Rightarrow> coherent_row e l r vs)"

lemma coherent_Some [simp]: "coherent (Some e) l r vs = coherent_row e l r vs"
  by (simp add: coherent_def)

lemma coherent_None [simp]: "coherent None l r vs \<longleftrightarrow> l = None \<and> r = None \<and> vs = []"
  by (simp add: coherent_def)

section \<open>The whole store\<close>

definition wf_keys :: "db \<Rightarrow> bool" where
  "wf_keys d \<longleftrightarrow>
     distinct (map e_id (db_executions d)) \<and> distinct (map e_key (db_executions d)) \<and>
     distinct (map l_execution_id (db_leases d)) \<and> distinct (map r_execution_id (db_retries d)) \<and>
     (\<forall>e\<in>set (db_executions d). row_of t_name (db_tools d) (e_tool_name e) \<noteq> None)"

definition wf_log :: "db \<Rightarrow> bool" where
  "wf_log d \<longleftrightarrow> sorted_wrt (<) (map v_id (db_events d)) \<and>
     (\<forall>v\<in>set (db_events d). v_id v < db_event_seq d)"

definition coherent_at :: "db \<Rightarrow> exec_id \<Rightarrow> bool" where
  "coherent_at d k = coherent (exec_of d k) (lease_of d k) (retry_of d k) (log_of d k)"

definition wf_db :: "db \<Rightarrow> bool" where
  "wf_db d \<longleftrightarrow> wf_keys d \<and> wf_log d \<and> (\<forall>k. coherent_at d k)"

lemma wf_db_empty: "wf_db (empty_db\<lparr>db_tools := ts\<rparr>)"
  by (simp add: wf_db_def wf_keys_def wf_log_def coherent_at_def empty_db_def exec_of_def
      lease_of_def retry_of_def log_of_def)

lemma wf_db_row:
  assumes "wf_db d" and "exec_of d k = Some e"
  shows "coherent_row e (lease_of d k) (retry_of d k) (log_of d k)"
  using assms unfolding wf_db_def coherent_at_def by (metis coherent_Some)

lemma wf_log_same_data: "same_data d d' \<Longrightarrow> wf_log d \<Longrightarrow> wf_log d'"
  using same_dataD [of d d'] by (fastforce simp: wf_log_def)

lemma wf_db_same_data: "same_data d d' \<Longrightarrow> wf_db d \<Longrightarrow> wf_db d'"
  using same_dataD [of d d'] wf_log_same_data [of d d']
  by (auto simp: wf_db_def wf_keys_def coherent_at_def)

lemma wf_log_event: "wf_log d \<Longrightarrow> wf_log (log_event now eid ty w tok pl d)"
  by (fastforce simp: wf_log_def sorted_wrt_append)

lemma wf_log_frame:
  "db_events d' = db_events d \<Longrightarrow> db_event_seq d' = db_event_seq d \<Longrightarrow> wf_log d' = wf_log d"
  by (simp add: wf_log_def)

lemma log_of_log_event [simp]:
  "log_of (log_event now eid ty w tok pl d) k =
    log_of d k @ (if eid = k then [new_event now eid ty w tok pl (db_event_seq d)] else [])"
  by (simp add: log_of_def)

lemma log_of_cong: "db_events d' = db_events d \<Longrightarrow> log_of d' = log_of d"
  by (simp add: log_of_def fun_eq_iff)

lemma log_of_frame [simp]:
  "log_of (set_status now eid v d) = log_of d" "log_of (delete_lease eid d) = log_of d"
  "log_of (put_lease now eid w tok secs d) = log_of d"
  "log_of (put_retry now eid secs n d) = log_of d" "log_of (delete_retry eid d) = log_of d"
  "log_of (touch_execution now eid d) = log_of d" "log_of (fail_execution now eid msg d) = log_of d"
  "log_of (d\<lparr>db_executions := es\<rparr>) = log_of d" "log_of (d\<lparr>db_leases := ls\<rparr>) = log_of d"
  by (rule log_of_cong, simp)+

lemma look_up_frame [simp]:
  "lease_of (d\<lparr>db_executions := es\<rparr>) = lease_of d" "retry_of (d\<lparr>db_executions := es\<rparr>) = retry_of d"
  "retry_of (d\<lparr>db_leases := ls\<rparr>) = retry_of d"
  by (simp_all add: lease_of_def retry_of_def)

lemma touch_look_up [simp]:
  "lease_of (touch_execution now eid d) = lease_of d" "retry_of (touch_execution now eid d) = retry_of d"
  by (simp_all add: touch_execution_def)

lemma lease_of_put_lease [simp]:
  "lease_of (put_lease now eid w tok secs d) k =
    (if k = eid then Some \<lparr>l_execution_id = eid, l_worker_id = w, l_fencing_token = tok,
        l_lease_expires = lease_until now secs, l_claimed_at = now\<rparr>
     else lease_of d k)"
proof (cases "lease_of d eid")
  case None
  then show ?thesis
    by (auto simp: put_lease_def lease_of_def row_of_append row_of_Cons split: option.split)
next
  case (Some l)
  then have "l_execution_id l = eid" by (auto simp: lease_of_def dest: row_of_SomeD)
  with Some show ?thesis by (simp add: put_lease_def lease_of_def row_of_upd_key)
qed

lemma retry_of_put_retry [simp]:
  "retry_of (put_retry now eid secs n d) k =
    (if k = eid then Some \<lparr>r_execution_id = eid, r_retry_at = lease_until now secs, r_attempt = n\<rparr>
     else retry_of d k)"
proof (cases "retry_of d eid")
  case None
  then show ?thesis
    by (auto simp: put_retry_def retry_of_def row_of_append row_of_Cons split: option.split)
next
  case (Some r)
  then have "r_execution_id r = eid" by (auto simp: retry_of_def dest: row_of_SomeD)
  with Some show ?thesis by (simp add: put_retry_def retry_of_def row_of_upd_key)
qed

lemma lease_of_id: "lease_of d k = Some l \<Longrightarrow> l_execution_id l = k"
  by (auto simp: lease_of_def dest: row_of_SomeD)

text \<open>With unique leases, the fencing guard is a look-up.\<close>

lemma live_lease_iff:
  assumes "wf_db d"
  shows "live_lease now d eid tok \<longleftrightarrow>
    (\<exists>l. lease_of d eid = Some l \<and> l_fencing_token l = tok \<and> now < l_lease_expires l)"
proof -
  have "distinct (map l_execution_id (db_leases d))" using assms by (simp add: wf_db_def wf_keys_def)
  from row_of_Some_iff [OF this] show ?thesis by (auto simp: live_lease_def lease_of_def)
qed

lemma lease_of_extend [simp]:
  "lease_of (d\<lparr>db_leases := upd_where
       (\<lambda>l. l_execution_id l = eid \<and> (l_fencing_token l = tok \<and> now < l_lease_expires l))
       (\<lambda>l. l\<lparr>l_lease_expires := x\<rparr>) (db_leases d)\<rparr>) k =
    (if k = eid
     then map_option (\<lambda>l. if l_fencing_token l = tok \<and> now < l_lease_expires l
            then l\<lparr>l_lease_expires := x\<rparr> else l) (lease_of d k)
     else lease_of d k)"
  unfolding lease_of_def by (simp add: row_of_upd_where)

section \<open>Each effect changes one view\<close>

text \<open>
  Preservation of \<open>coherent_at\<close>: at every other execution the view is the same, at the
  one concerned the view is rewritten by the simplifier and checked against
  \<open>coherent_row\<close>.
\<close>

lemmas coherence_defs = coherent_at_def coherent_row_def attempts_ok_def

lemma running_row:
  assumes "wf_db d" and "lease_of d k = Some l"
  obtains e where "exec_of d k = Some e" "e_status e = Running"
    "coherent_row e (Some l) None (log_of d k)"
proof -
  from assms(1) have "coherent (exec_of d k) (lease_of d k) (retry_of d k) (log_of d k)"
    by (simp add: wf_db_def coherent_at_def)
  with assms(2) show thesis
    by (cases "exec_of d k"; cases "retry_of d k") (auto simp: coherent_row_def intro: that)
qed

lemma attempts_steps:
  "attempts_ok (e\<lparr>e_updated_at := now\<rparr>) = attempts_ok e"
  "attempts_ok e \<Longrightarrow> e_status e = Ready \<Longrightarrow> attempts_ok (claimed_row now e)"
  "attempts_ok e \<Longrightarrow> e_status e = Running \<Longrightarrow> attempts_ok (completed_row now res e)"
  "attempts_ok e \<Longrightarrow> e_status e = Running \<Longrightarrow> attempts_ok (failed_row now msg e)"
  "attempts_ok e \<Longrightarrow> e_status e = Running \<Longrightarrow> e_max_attempts e \<le> e_attempts e \<Longrightarrow>
     attempts_ok (e\<lparr>e_status := Failed, e_error_message := Some msg, e_updated_at := now\<rparr>)"
  "attempts_ok e \<Longrightarrow> e_status e = Running \<Longrightarrow> \<not> e_max_attempts e \<le> e_attempts e \<Longrightarrow>
     attempts_ok (e\<lparr>e_status := Ready, e_updated_at := now\<rparr>)"
  "attempts_ok e \<Longrightarrow> e_status e = Pending \<Longrightarrow>
     attempts_ok (e\<lparr>e_status := Ready, e_updated_at := now\<rparr>)"
  by (auto simp: attempts_ok_def claimed_row_def completed_row_def failed_row_def)

lemma row_claim:
  assumes "coherent_row e l r vs" and "e_status e = Ready" and "\<forall>t'\<in>set (tokens vs). t' < tok"
  shows "coherent_row (claimed_row now e)
    (Some \<lparr>l_execution_id = eid, l_worker_id = w, l_fencing_token = tok, l_lease_expires = x,
       l_claimed_at = now\<rparr>) r
    (vs @ [new_event now eid Ev_claimed w (Some tok) pl n])"
  using assms attempts_steps(2) [of e now]
  by (auto simp: coherent_row_def claimed_row_def)

lemma row_event:
  assumes "coherent_row e l r vs" and "ty \<notin> {Ev_claimed, Ev_completed, Ev_failed}"
  shows "coherent_row e l r (vs @ [new_event now eid ty w tok pl n])"
  using assms by (simp add: coherent_row_def)

lemma row_lease:
  assumes "coherent_row e l r vs" and "map_option l_fencing_token l' = map_option l_fencing_token l"
  shows "coherent_row e l' r vs"
  using assms by (cases l; cases l') (simp_all add: coherent_row_def)

lemma row_touch: "coherent_row e l r vs \<Longrightarrow> coherent_row (e\<lparr>e_updated_at := now\<rparr>) l r vs"
  by (simp add: coherent_row_def attempts_steps)

lemma row_complete:
  assumes "coherent_row e (Some l) r vs"
  shows "coherent_row (completed_row now res e) None r
    (vs @ [new_event now eid Ev_completed w tok pl n])"
  using assms attempts_steps(3) [of e]
  by (auto simp: coherent_row_def completed_row_def)

lemma row_fail_final:
  assumes "coherent_row e (Some l) r vs" and "e_max_attempts e \<le> e_attempts e"
  shows "coherent_row (failed_row now msg e) None r
    (vs @ [new_event now eid Ev_failed w tok pl n])"
  using assms attempts_steps(4) [of e]
  by (auto simp: coherent_row_def failed_row_def)

lemma row_fail_retry:
  assumes "coherent_row e (Some l) r vs" and "\<not> e_max_attempts e \<le> e_attempts e"
  shows "coherent_row (failed_row now msg e) None (Some r')
    (vs @ [new_event now eid Ev_retry_scheduled w tok pl n])"
  using assms attempts_steps(4) [of e]
  by (auto simp: coherent_row_def failed_row_def)

lemma row_out_of_attempts:
  assumes "coherent_row e (Some l) r vs" and "e_max_attempts e \<le> e_attempts e"
  shows "coherent_row (e\<lparr>e_status := Failed, e_error_message := Some msg, e_updated_at := now\<rparr>) None r
    (vs @ [new_event now eid Ev_failed w tok pl n])"
  using assms attempts_steps(5) [of e] by (auto simp: coherent_row_def)

lemma row_expire_final:
  assumes "coherent_row e (Some l) r vs" and "e_max_attempts e \<le> e_attempts e"
  shows "coherent_row (e\<lparr>e_status := Failed, e_error_message := Some msg, e_updated_at := now\<rparr>) None r
    (vs @ [new_event now eid Ev_lease_expired w tok pl n, new_event now eid Ev_failed w' tok' pl' n'])"
  using row_out_of_attempts [OF row_event [OF assms(1), of Ev_lease_expired] assms(2)] by simp

lemma row_expire_ready:
  assumes "coherent_row e (Some l) r vs" and "\<not> e_max_attempts e \<le> e_attempts e"
  shows "coherent_row (e\<lparr>e_status := Ready, e_updated_at := now\<rparr>) None r
    (vs @ [new_event now eid Ev_lease_expired w tok pl n])"
  using assms attempts_steps(6) [of e now] by (auto simp: coherent_row_def)

lemma row_promote:
  assumes "coherent_row e l (Some r) vs"
  shows "coherent_row (e\<lparr>e_status := Ready, e_updated_at := now\<rparr>) l None
    (vs @ [new_event now eid Ev_ready w tok pl n])"
  using assms attempts_steps(7) [of e now] by (auto simp: coherent_row_def)

lemma row_new:
  "coherent_row ((new_execution now uid ns name key args m)\<lparr>e_status := Ready, e_updated_at := now\<rparr>)
    None None
    [new_event now uid Ev_submitted w None pl n, new_event now uid Ev_ready w' None pl' n']"
proof -
  have "fresh_from [] ([new_event now uid Ev_submitted w None pl n] @ [new_event now uid Ev_ready w' None pl' n'])"
    unfolding fresh_from_snoc by simp
  then show ?thesis
    by (simp add: coherent_row_def attempts_ok_def new_execution_def count_ev_def)
qed

subsection \<open>Views after an effect\<close>

lemma coherent_claimed:
  assumes "coherent_at d k" and e: "exec_of d (e_id e) = Some e" and "e_status e = Ready"
  shows "coherent_at (claimed_db now e w (next_token d (e_id e)) secs d) k"
proof (cases "k = e_id e")
  case True
  have fresh: "\<forall>t'\<in>set (tokens (log_of d k)). t' < next_token d k"
    using max_token_ge by (fastforce simp: next_token_def)
  show ?thesis
    using assms row_claim [OF _ _ fresh]
    by (simp add: coherent_at_def claimed_db_def exec_of_upd True)
next
  case False
  with assms show ?thesis by (simp add: coherent_at_def claimed_db_def exec_of_upd)
qed

lemma coherent_log:
  assumes "coherent_at d k" and "exec_of d eid \<noteq> None"
    and "ty \<notin> {Ev_claimed, Ev_completed, Ev_failed}"
  shows "coherent_at (log_event now eid ty w tok pl d) k"
  using assms row_event [OF _ assms(3)] by (auto simp: coherent_at_def)

lemma coherent_extended:
  assumes "coherent_at d k" and "exec_of d eid \<noteq> None"
  shows "coherent_at (extended_db now eid tok secs d) k"
  unfolding extended_db_def
proof (rule coherent_log)
  let ?d = "d\<lparr>db_leases := upd_where
      (\<lambda>l. l_execution_id l = eid \<and> (l_fencing_token l = tok \<and> now < l_lease_expires l))
      (\<lambda>l. l\<lparr>l_lease_expires := lease_until now secs\<rparr>) (db_leases d)\<rparr>"
  have "map_option l_fencing_token (lease_of ?d k) = map_option l_fencing_token (lease_of d k)"
    by (cases "k = eid"; cases "lease_of d eid") simp_all
  then show "coherent_at ?d k"
    using assms(1) row_lease [of _ "lease_of d k"]
    by (cases "exec_of d k") (auto simp: coherent_at_def)
qed (use assms(2) in simp_all)

lemma coherent_completed:
  assumes "coherent_at d k" and "exec_of d eid = Some e" and "lease_of d eid = Some l"
  shows "coherent_at (completed_db now eid w tok res d) k"
  using assms row_complete [of e l]
  by (cases "k = eid") (simp_all add: coherent_at_def completed_db_def exec_of_upd)

lemma coherent_failed:
  assumes "coherent_at d k" and e: "exec_of d (e_id e) = Some e" and "lease_of d (e_id e) = Some l"
  shows "coherent_at (failed_db now e w tok msg d) k"
  using assms row_fail_final [of e l] row_fail_retry [of e l]
  by (cases "k = e_id e") (simp_all add: coherent_at_def failed_db_def exec_of_upd Let_def)

lemma coherent_expired:
  assumes "coherent_at d k" and "exec_of d eid = Some e" and "lease_of d eid = Some l"
    and "e_attempts e = n" and "e_max_attempts e = m"
  shows "coherent_at (expired_db now eid n m d) k"
  using assms row_expire_final [of e l] row_expire_ready [of e l]
  by (cases "k = eid") (simp_all add: coherent_at_def expired_db_def Let_def)

lemma coherent_promoted:
  assumes "coherent_at d k" and "exec_of d eid = Some e" and "retry_of d eid = Some r"
  shows "coherent_at (promoted_db now eid d) k"
  using assms row_promote [of e _ r]
  by (cases "k = eid") (simp_all add: coherent_at_def promoted_db_def)

lemma coherent_touched:
  assumes "coherent_at d k"
  shows "coherent_at (touch_execution now eid d) k"
  using assms row_touch by (cases "exec_of d k") (auto simp: coherent_at_def)

lemma coherent_submitted:
  assumes "coherent_at d k" and u: "exec_of d uid = None" and "coherent_at d uid"
  shows "coherent_at (log_event now uid Ev_ready [] None pl (set_status now uid Ready
      (log_event now uid Ev_submitted [] None pl'
        (d\<lparr>db_executions := db_executions d @ [new_execution now uid ns name key args m]\<rparr>)))) k"
  using assms row_new
  by (cases "k = uid") (auto simp: coherent_at_def exec_of_insert split: option.splits)

subsection \<open>Keys after an effect\<close>

lemma e_key_upd:
  "e_key (e\<lparr>e_updated_at := now\<rparr>) = e_key e" "e_key (claimed_row now e) = e_key e"
  "e_key (completed_row now res e) = e_key e" "e_key (failed_row now msg e) = e_key e"
  "e_key (e\<lparr>e_status := v\<rparr>) = e_key e" "e_key (e\<lparr>e_error_message := m\<rparr>) = e_key e"
  by (simp_all add: e_key_def claimed_row_def completed_row_def failed_row_def)

lemma wf_keys_upd:
  assumes "\<And>e. e_id (f e) = e_id e" and "\<And>e. e_key (f e) = e_key e" and "wf_keys d"
  shows "wf_keys (d\<lparr>db_executions := upd_where p f (db_executions d)\<rparr>)"
proof -
  have "e_tool_name (f e) = e_tool_name e" for e
    using assms(2) [of e] by (simp add: e_key_def)
  with assms show ?thesis
    by (auto simp: wf_keys_def map_upd_where set_upd_where)
qed

lemma wf_keys_log_event [simp]: "wf_keys (log_event now eid ty w tok pl d) = wf_keys d"
  by (simp add: wf_keys_def)

lemma wf_keys_delete_lease: "wf_keys d \<Longrightarrow> wf_keys (delete_lease eid d)"
  by (simp add: wf_keys_def delete_lease_def distinct_del_where)

lemma wf_keys_delete_retry: "wf_keys d \<Longrightarrow> wf_keys (delete_retry eid d)"
  by (simp add: wf_keys_def delete_retry_def distinct_del_where)

lemma wf_keys_put_lease: "wf_keys d \<Longrightarrow> wf_keys (put_lease now eid w tok secs d)"
  by (auto simp: wf_keys_def put_lease_def map_upd_where lease_of_def row_of_None_iff)

lemma wf_keys_put_retry: "wf_keys d \<Longrightarrow> wf_keys (put_retry now eid secs n d)"
  by (auto simp: wf_keys_def put_retry_def map_upd_where retry_of_def row_of_None_iff)

lemma wf_keys_extend:
  "wf_keys d \<Longrightarrow> wf_keys (d\<lparr>db_leases := upd_where p (\<lambda>l. l\<lparr>l_lease_expires := x\<rparr>) (db_leases d)\<rparr>)"
  by (simp add: wf_keys_def map_upd_where)

lemma wf_keys_set_status: "wf_keys d \<Longrightarrow> wf_keys (set_status now eid v d)"
  unfolding set_status_def by (rule wf_keys_upd) (simp_all add: e_key_upd)

lemma wf_keys_touch: "wf_keys d \<Longrightarrow> wf_keys (touch_execution now eid d)"
  unfolding touch_execution_def by (rule wf_keys_upd) (simp_all add: e_key_upd)

lemma wf_keys_fail_execution: "wf_keys d \<Longrightarrow> wf_keys (fail_execution now eid msg d)"
  unfolding fail_execution_def by (rule wf_keys_upd) (simp_all add: e_key_upd)

lemma wf_keys_insert:
  assumes "wf_keys d" and "exec_of d uid = None"
    and "row_of e_key (db_executions d) (ns, name, key) = None"
    and "row_of t_name (db_tools d) name = Some t"
  shows "wf_keys (d\<lparr>db_executions := db_executions d @ [new_execution now uid ns name key args m]\<rparr>)"
  using assms
  by (auto simp: wf_keys_def exec_of_def row_of_None_iff new_execution_def e_key_def
      dest: row_of_SomeD)

lemmas wf_keys_rules = wf_keys_delete_lease wf_keys_delete_retry wf_keys_put_lease wf_keys_put_retry
  wf_keys_extend wf_keys_set_status wf_keys_touch wf_keys_fail_execution wf_keys_upd [OF _ _]

lemma wf_log_frames [simp]:
  "wf_log (delete_lease eid d) = wf_log d" "wf_log (delete_retry eid d) = wf_log d"
  "wf_log (put_lease now eid w tok secs d) = wf_log d" "wf_log (put_retry now eid secs n d) = wf_log d"
  "wf_log (set_status now eid v d) = wf_log d" "wf_log (touch_execution now eid d) = wf_log d"
  "wf_log (fail_execution now eid msg d) = wf_log d" "wf_log (d\<lparr>db_executions := es\<rparr>) = wf_log d"
  "wf_log (d\<lparr>db_leases := ls\<rparr>) = wf_log d"
  by (rule wf_log_frame, simp, simp)+

section \<open>Effects preserve the invariant\<close>

lemma wf_dbD:
  assumes "wf_db d" shows "wf_keys d" "wf_log d" "coherent_at d k"
  using assms by (simp_all add: wf_db_def)

lemma wf_dbI: "wf_keys d \<Longrightarrow> wf_log d \<Longrightarrow> (\<And>k. coherent_at d k) \<Longrightarrow> wf_db d"
  by (simp add: wf_db_def)

lemma wf_seq: "wf_db d \<Longrightarrow> wf_db (d\<lparr>db_event_seq := db_event_seq d + 1\<rparr>)"
  by (rule wf_db_same_data [of d]) (simp_all add: same_data_seq)

lemma wf_log_db:
  assumes "wf_db d" and "exec_of d eid \<noteq> None" and "ty \<notin> {Ev_claimed, Ev_completed, Ev_failed}"
  shows "wf_db (log_event now eid ty w tok pl d)"
  using wf_dbD [OF assms(1)] coherent_log [OF _ assms(2,3)] by (auto intro!: wf_dbI wf_log_event)

lemma wf_claimed:
  assumes "wf_db d" and "exec_of d (e_id e) = Some e" and "e_status e = Ready"
  shows "wf_db (claimed_db now e w (next_token d (e_id e)) secs d)"
proof (rule wf_dbI)
  show "wf_keys (claimed_db now e w (next_token d (e_id e)) secs d)"
    using wf_dbD(1) [OF assms(1)]
    by (simp add: claimed_db_def wf_keys_put_lease wf_keys_upd e_key_upd)
  show "wf_log (claimed_db now e w (next_token d (e_id e)) secs d)"
    using wf_dbD(2) [OF assms(1)] by (simp add: claimed_db_def wf_log_event)
  show "coherent_at (claimed_db now e w (next_token d (e_id e)) secs d) k" for k
    using coherent_claimed [OF wf_dbD(3) [OF assms(1)] assms(2,3)] .
qed

lemma wf_extended:
  assumes "wf_db d" and "exec_of d eid \<noteq> None"
  shows "wf_db (extended_db now eid tok secs d)"
proof (rule wf_dbI)
  show "wf_keys (extended_db now eid tok secs d)"
    using wf_dbD(1) [OF assms(1)] by (simp add: extended_db_def wf_keys_extend)
  show "wf_log (extended_db now eid tok secs d)"
    using wf_dbD(2) [OF assms(1)] by (simp add: extended_db_def wf_log_event)
  show "coherent_at (extended_db now eid tok secs d) k" for k
    using coherent_extended [OF wf_dbD(3) [OF assms(1)] assms(2)] .
qed

lemma wf_completed:
  assumes "wf_db d" and "exec_of d eid = Some e" and "lease_of d eid = Some l"
  shows "wf_db (completed_db now eid w tok res d)"
proof (rule wf_dbI)
  show "wf_keys (completed_db now eid w tok res d)"
    using wf_dbD(1) [OF assms(1)]
    by (simp add: completed_db_def wf_keys_delete_lease wf_keys_upd e_key_upd)
  show "wf_log (completed_db now eid w tok res d)"
    using wf_dbD(2) [OF assms(1)] by (simp add: completed_db_def wf_log_event)
  show "coherent_at (completed_db now eid w tok res d) k" for k
    using coherent_completed [OF wf_dbD(3) [OF assms(1)] assms(2,3)] .
qed

lemma wf_failed:
  assumes "wf_db d" and "exec_of d (e_id e) = Some e" and "lease_of d (e_id e) = Some l"
  shows "wf_db (failed_db now e w tok msg d)"
proof (rule wf_dbI)
  show "wf_keys (failed_db now e w tok msg d)"
    using wf_dbD(1) [OF assms(1)]
    by (simp add: failed_db_def Let_def wf_keys_put_retry wf_keys_delete_lease wf_keys_upd e_key_upd)
  show "wf_log (failed_db now e w tok msg d)"
    using wf_dbD(2) [OF assms(1)] by (simp add: failed_db_def Let_def wf_log_event)
  show "coherent_at (failed_db now e w tok msg d) k" for k
    using coherent_failed [OF wf_dbD(3) [OF assms(1)] assms(2,3)] .
qed

lemma wf_expired:
  assumes "wf_db d" and "exec_of d eid = Some e" and "lease_of d eid = Some l"
    and "e_attempts e = n" and "e_max_attempts e = m"
  shows "wf_db (expired_db now eid n m d)"
proof (rule wf_dbI)
  show "wf_keys (expired_db now eid n m d)"
    using wf_dbD(1) [OF assms(1)]
    by (simp add: expired_db_def Let_def wf_keys_set_status wf_keys_fail_execution wf_keys_delete_lease)
  show "wf_log (expired_db now eid n m d)"
    using wf_dbD(2) [OF assms(1)] by (simp add: expired_db_def Let_def wf_log_event)
  show "coherent_at (expired_db now eid n m d) k" for k
    using coherent_expired [OF wf_dbD(3) [OF assms(1)] assms(2-5)] .
qed

lemma wf_promoted:
  assumes "wf_db d" and "exec_of d eid = Some e" and "retry_of d eid = Some r"
  shows "wf_db (promoted_db now eid d)"
proof (rule wf_dbI)
  show "wf_keys (promoted_db now eid d)"
    using wf_dbD(1) [OF assms(1)]
    by (simp add: promoted_db_def wf_keys_set_status wf_keys_delete_retry)
  show "wf_log (promoted_db now eid d)"
    using wf_dbD(2) [OF assms(1)] by (simp add: promoted_db_def wf_log_event)
  show "coherent_at (promoted_db now eid d) k" for k
    using coherent_promoted [OF wf_dbD(3) [OF assms(1)] assms(2,3)] .
qed

section \<open>Look-ups after an effect\<close>

named_theorems effect_simps \<open>look-ups in the states the effects produce\<close>

lemma claimed_db_look_up [effect_simps]:
  "exec_of (claimed_db now e w tok secs d) k =
     (if k = e_id e then map_option (claimed_row now) (exec_of d k) else exec_of d k)"
  "lease_of (claimed_db now e w tok secs d) k =
     (if k = e_id e then Some \<lparr>l_execution_id = e_id e, l_worker_id = w, l_fencing_token = tok,
        l_lease_expires = lease_until now secs, l_claimed_at = now\<rparr> else lease_of d k)"
  "retry_of (claimed_db now e w tok secs d) = retry_of d"
  "log_of (claimed_db now e w tok secs d) k = log_of d k @
     (if e_id e = k then [new_event now k Ev_claimed w (Some tok)
        (Some [(''attempt'', PInt (e_attempts e + 1))]) (db_event_seq d)] else [])"
  by (simp_all add: claimed_db_def exec_of_upd)

lemma extended_db_look_up [effect_simps]:
  "exec_of (extended_db now eid tok secs d) = exec_of d"
  "lease_of (extended_db now eid tok secs d) k =
     (if k = eid then map_option (\<lambda>l. if l_fencing_token l = tok \<and> now < l_lease_expires l
        then l\<lparr>l_lease_expires := lease_until now secs\<rparr> else l) (lease_of d k) else lease_of d k)"
  "retry_of (extended_db now eid tok secs d) = retry_of d"
  "log_of (extended_db now eid tok secs d) k = log_of d k @
     (if eid = k then [new_event now k Ev_heartbeat [] (Some tok) None (db_event_seq d)] else [])"
  by (simp_all add: extended_db_def)

lemma completed_db_look_up [effect_simps]:
  "exec_of (completed_db now eid w tok res d) k =
     (if k = eid then map_option (completed_row now res) (exec_of d k) else exec_of d k)"
  "lease_of (completed_db now eid w tok res d) k = (if k = eid then None else lease_of d k)"
  "retry_of (completed_db now eid w tok res d) = retry_of d"
  "log_of (completed_db now eid w tok res d) k = log_of d k @
     (if eid = k then [new_event now k Ev_completed w (Some tok) None (db_event_seq d)] else [])"
  by (simp_all add: completed_db_def exec_of_upd)

lemma failed_db_look_up [effect_simps]:
  "exec_of (failed_db now e w tok msg d) k =
     (if k = e_id e then map_option (failed_row now msg) (exec_of d k) else exec_of d k)"
  "lease_of (failed_db now e w tok msg d) k = (if k = e_id e then None else lease_of d k)"
  "retry_of (failed_db now e w tok msg d) k =
     (if k = e_id e \<and> e_attempts e < e_max_attempts e
      then Some \<lparr>r_execution_id = k, r_retry_at = lease_until now (backoff_seconds (e_attempts e)),
             r_attempt = e_attempts e\<rparr>
      else retry_of d k)"
  by (simp_all add: failed_db_def exec_of_upd Let_def)

lemma rejected_db_look_up [effect_simps]:
  "exec_of (rejected_db now eid w tok reason d) = exec_of d"
  "lease_of (rejected_db now eid w tok reason d) = lease_of d"
  "retry_of (rejected_db now eid w tok reason d) = retry_of d"
  "log_of (rejected_db now eid w tok reason d) k = log_of d k @
     (if eid = k then [new_event now k Ev_stale_rejected w (Some tok)
        (Some [(''reason'', PStr reason)]) (db_event_seq d)] else [])"
  by (simp_all add: rejected_db_def)

lemma expired_db_look_up [effect_simps]:
  "exec_of (expired_db now eid n m d) k =
     (if k = eid then map_option (\<lambda>e. if m \<le> n
        then e\<lparr>e_status := Failed, e_error_message := Some ''lease expired after max attempts'',
               e_updated_at := now\<rparr>
        else e\<lparr>e_status := Ready, e_updated_at := now\<rparr>) (exec_of d k) else exec_of d k)"
  "lease_of (expired_db now eid n m d) k = (if k = eid then None else lease_of d k)"
  "retry_of (expired_db now eid n m d) = retry_of d"
  by (simp_all add: expired_db_def Let_def)

lemma promoted_db_look_up [effect_simps]:
  "exec_of (promoted_db now eid d) k =
     (if k = eid then map_option (\<lambda>e. e\<lparr>e_status := Ready, e_updated_at := now\<rparr>) (exec_of d k)
      else exec_of d k)"
  "lease_of (promoted_db now eid d) = lease_of d"
  "retry_of (promoted_db now eid d) k = (if k = eid then None else retry_of d k)"
  by (simp_all add: promoted_db_def fun_eq_iff)

lemma look_up_seq [simp]:
  "exec_of (d\<lparr>db_event_seq := n\<rparr>) = exec_of d" "lease_of (d\<lparr>db_event_seq := n\<rparr>) = lease_of d"
  "retry_of (d\<lparr>db_event_seq := n\<rparr>) = retry_of d"
  by (simp_all add: exec_of_def lease_of_def retry_of_def)

end
