(* ===== verification/Store_Safety.thy ===== *)
theory Store_Safety
  imports Store_Inv
begin

text \<open>
  The operations as a client sees them, with a connection that may fail: every operation
  only appends to the event log, and those of clients and workers keep the invariant
  unconditionally. \<open>logged_operation\<close> and \<open>wf_operation\<close> extend the contract of
  \<open>Operation\<close> with these two laws.
\<close>

section \<open>The extended contracts\<close>

locale logged_operation = store_operation +
  assumes appends: "prefix (db_events d) (db_events (snd (eff now d)))"
begin

lemma log_prefix: "prefix (db_events (tables s)) (db_events (tables (snd (run s))))"
  using atomic [of s] by (auto simp: same_dataD(4) appends)

lemma log_of_prefix: "prefix (log_of (tables s) k) (log_of (tables (snd (run s))) k)"
  using filter_prefix [OF log_prefix] by (simp add: log_of_def)

end

locale wf_operation = logged_operation +
  assumes wf_eff: "wf_db d \<Longrightarrow> wf_db (snd (eff now d))"
begin

lemma wf_run: "wf_db (tables s) \<Longrightarrow> wf_db (tables (snd (run s)))"
  using preserves [of wf_db s] wf_db_same_data wf_eff by blast

end

section \<open>The effects meet them\<close>

lemma wf_submit_effect:
  assumes "wf_db d"
  shows "wf_db (snd (submit_effect jsonb uid ns name key args now d))"
proof (cases "row_of t_name (db_tools d) name")
  case t: (Some t)
  show ?thesis
  proof (cases "jsonb (args_or_empty args)")
    case doc: (Some doc)
    show ?thesis
    proof (cases "row_of e_key (db_executions d) (ns, name, key)")
      case None
      let ?new = "d\<lparr>db_executions := db_executions d @
            [new_execution now uid ns name key doc (t_max_attempts t)]\<rparr>"
      have "wf_db (log_event now uid Ev_ready [] None None (set_status now uid Ready
          (log_event now uid Ev_submitted [] None
            (Some [(''tool'', PStr name), (''namespace'', PStr ns)]) ?new)))"
        if u: "exec_of d uid = None"
      proof (rule wf_dbI)
        have "wf_keys ?new" using wf_keys_insert [OF wf_dbD(1) [OF assms] u None t] .
        then show "wf_keys (log_event now uid Ev_ready [] None None (set_status now uid Ready
            (log_event now uid Ev_submitted [] None
              (Some [(''tool'', PStr name), (''namespace'', PStr ns)]) ?new)))"
          by (simp add: wf_keys_set_status)
        show "wf_log (log_event now uid Ev_ready [] None None (set_status now uid Ready
            (log_event now uid Ev_submitted [] None
              (Some [(''tool'', PStr name), (''namespace'', PStr ns)]) ?new)))"
          using wf_dbD(2) [OF assms] by (simp add: wf_log_event)
        show "coherent_at (log_event now uid Ev_ready [] None None (set_status now uid Ready
            (log_event now uid Ev_submitted [] None
              (Some [(''tool'', PStr name), (''namespace'', PStr ns)]) ?new))) k" for k
          by (rule coherent_submitted [OF wf_dbD(3) [OF assms] u wf_dbD(3) [OF assms]])
      qed
      with t doc None assms show ?thesis by (simp add: submit_effect_def)
    next
      case (Some e)
      have "wf_db (touch_execution now (e_id e) d)"
        using wf_dbD [OF assms] by (auto intro!: wf_dbI coherent_touched wf_keys_touch)
      moreover have "exec_of d (e_id e) \<noteq> None"
        using Some exec_of_member by (blast dest: row_of_SomeD)
      ultimately show ?thesis
        using t doc Some by (simp add: submit_effect_def wf_log_db)
    qed
  qed (use t assms in \<open>simp add: submit_effect_def\<close>)
qed (use assms in \<open>simp add: submit_effect_def\<close>)

lemma select_ready_row:
  assumes "wf_db d" and "select_ready locked d = Some e"
  shows "exec_of d (e_id e) = Some e"
proof -
  have "distinct (map e_id (db_executions d))" using wf_dbD(1) [OF assms(1)] by (simp add: wf_keys_def)
  then show ?thesis
    using select_readyD(1) [OF assms(2)] by (simp add: exec_of_def row_of_in)
qed

lemma wf_claim_effect: "wf_db d \<Longrightarrow> wf_db (snd (claim_effect locked w secs now d))"
proof (cases "select_ready locked d")
  case (Some e)
  moreover assume "wf_db d"
  ultimately show ?thesis
    using select_ready_row [of d locked e] select_readyD(2) [OF Some] wf_claimed [of d e now w secs]
    by (simp add: claim_effect_def)
qed (simp add: claim_effect_def)

lemma wf_heartbeat_effect: "wf_db d \<Longrightarrow> wf_db (snd (heartbeat_effect eid tok secs now d))"
  by (simp add: heartbeat_effect_def wf_extended wf_seq)

lemma wf_complete_effect:
  assumes "wf_db d"
  shows "wf_db (snd (complete_effect jsonb eid tok w res now d))"
  using assms wf_seq [OF assms] wf_completed [OF assms] wf_log_db [OF assms] live_lease_iff [OF assms]
  by (auto simp: complete_effect_def rejected_db_def split: option.split)

lemma wf_fail_effect:
  assumes "wf_db d"
  shows "wf_db (snd (fail_effect eid tok w msg now d))"
proof (cases "exec_of d eid")
  case None
  then show ?thesis using wf_seq [OF assms] by (simp add: fail_effect_def)
next
  case (Some e)
  note eid = exec_of_id [OF Some]
  show ?thesis
  proof (cases "live_lease now d eid tok")
    case True
    with live_lease_iff [OF assms] obtain l where "lease_of d (e_id e) = Some l" using eid by blast
    with wf_failed [OF assms, of e l] Some eid True show ?thesis by (simp add: fail_effect_def)
  next
    case False
    with Some wf_log_db [OF assms, of eid] show ?thesis
      by (simp add: fail_effect_def rejected_db_def)
  qed
qed

lemma prefix_claim_effect: "prefix (db_events d) (db_events (snd (claim_effect locked w secs now d)))"
  by (simp add: claim_effect_def claimed_db_def split: option.split)

lemma prefix_submit_effect:
  "prefix (db_events d) (db_events (snd (submit_effect jsonb uid ns name key args now d)))"
  by (simp add: submit_effect_def split: option.split)

lemma prefix_failed: "prefix (db_events d) (db_events (failed_db now e w tok msg d))"
  by (simp add: failed_db_def Let_def)

lemma prefix_expired: "prefix (db_events d) (db_events (expired_db now eid n m d))"
  by (simp add: expired_db_def Let_def)

section \<open>Interpretations\<close>

interpretation submit_op: wf_operation
  "submit jsonb uid ns name key args" "submit_effect jsonb uid ns name key args"
  for jsonb uid ns name key args
  by unfold_locales (rule prefix_submit_effect, rule wf_submit_effect)

interpretation claim_op: wf_operation "claim locked w secs" "claim_effect locked w secs"
  for locked w secs
  by unfold_locales (rule prefix_claim_effect, rule wf_claim_effect)

interpretation heartbeat_op: wf_operation "heartbeat eid tok secs" "heartbeat_effect eid tok secs"
  for eid tok secs
  by unfold_locales (simp add: heartbeat_effect_def extended_db_def, rule wf_heartbeat_effect)

interpretation complete_op: wf_operation
  "complete jsonb eid tok w res" "complete_effect jsonb eid tok w res" for jsonb eid tok w res
  by unfold_locales (simp add: complete_effect_def completed_db_def rejected_db_def split: option.split,
      rule wf_complete_effect)

interpretation fail_op: wf_operation "fail eid tok w msg" "fail_effect eid tok w msg"
  for eid tok w msg
  by unfold_locales (simp add: fail_effect_def rejected_db_def prefix_failed split: option.split,
      rule wf_fail_effect)

interpretation expire_op: logged_operation "expire_lease eid n m" "expire_effect eid n m" for eid n m
  by unfold_locales (simp add: expire_effect_def prefix_expired)

interpretation promote_op: logged_operation "promote_retry eid" "promote_effect eid" for eid
  by unfold_locales (simp add: promote_effect_def promoted_db_def)

text \<open>
  The reaper and the promoter keep the invariant when the row still is what the pass read:
  a running execution with these counters, a pending execution with its retry entry.
\<close>

lemma wf_expire_lease:
  assumes "wf_db (tables s)" and "exec_of (tables s) eid = Some e" and "e_status e = Running"
    and "e_attempts e = n" and "e_max_attempts e = m"
  shows "wf_db (tables (snd (expire_lease eid n m s)))"
proof -
  obtain l where "lease_of (tables s) eid = Some l"
    using wf_db_row [OF assms(1,2)] assms(3) by (auto simp: coherent_row_def)
  with wf_expired [OF assms(1,2) _ assms(4,5)]
  have "wf_db (snd (expire_effect eid n m now (tables s)))" for now
    using assms(2) by (simp add: expire_effect_def)
  with expiring.atomic [of s eid n m] assms(1) show ?thesis
    by (metis wf_db_same_data)
qed

lemma wf_promote_retry:
  assumes "wf_db (tables s)" and "retry_of (tables s) eid = Some r"
  shows "wf_db (tables (snd (promote_retry eid s)))"
proof -
  have "coherent_at (tables s) eid" using wf_dbD(3) [OF assms(1)] .
  with assms(2) obtain e where e: "exec_of (tables s) eid = Some e"
    by (cases "exec_of (tables s) eid") (auto simp: coherent_at_def)
  with wf_promoted [OF assms(1) e assms(2)]
  have "wf_db (snd (promote_effect eid now (tables s)))" for now
    by (simp add: promote_effect_def)
  with promoting.atomic [of s eid] assms(1) show ?thesis
    by (metis wf_db_same_data)
qed

end
