(* ===== verification/Scenario.thy ===== *)
theory Scenario
  imports Store_Safety
begin

text \<open>
  A concrete run, the arc of \<open>TestWorkerKillFencingRecovery\<close> in
  \<open>internal/executor/fencing_test.go\<close>: a call is submitted, claimed by a first worker
  whose lease lapses, returned to the queue, claimed by a second worker and completed.
  The states of this run are the inputs at which the theorems of the development are
  shown to apply.
\<close>

definition demo_tool :: tool where
  "demo_tool = \<lparr>t_id = ''t1'', t_name = ''slow_compute'', t_description = '''',
     t_input_schema = ''{}'', t_max_attempts = 3, t_lease_seconds = 30, t_created_at = 0\<rparr>"

definition sc_start :: st where
  "sc_start = \<lparr>tables = empty_db\<lparr>db_tools := [demo_tool]\<rparr>, clock = 0, net = []\<rparr>"

definition sc_submitted :: st where
  "sc_submitted = snd (submit Some ''a'' ''ns'' ''slow_compute'' ''k'' (Some ''{}'') sc_start)"

definition sc_claimed :: st where
  "sc_claimed = snd (claim [] ''w1'' 30 sc_submitted)"

definition sc_lapsed :: st where
  "sc_lapsed = sc_claimed\<lparr>clock := 31000000\<rparr>"

definition sc_reaped :: st where
  "sc_reaped = snd (expire_lease ''a'' 1 3 sc_lapsed)"

definition sc_reclaimed :: st where
  "sc_reclaimed = snd (claim [] ''w2'' 30 sc_reaped)"

definition sc_completed :: st where
  "sc_completed = snd (complete Some ''a'' 2 ''w2'' (Some ''1'') sc_reclaimed)"

definition sc_failed :: st where
  "sc_failed = snd (fail ''a'' 1 ''w1'' ''boom'' sc_claimed)"

lemma wf_sc_start: "wf_db (tables sc_start)"
  by (simp add: sc_start_def wf_db_empty)

lemma wf_sc_submitted: "wf_db (tables sc_submitted)"
  unfolding sc_submitted_def by (rule submit_op.wf_run, rule wf_sc_start)

lemma wf_sc_claimed: "wf_db (tables sc_claimed)"
  unfolding sc_claimed_def by (rule claim_op.wf_run, rule wf_sc_submitted)

lemma wf_sc_lapsed: "wf_db (tables sc_lapsed)"
  using wf_sc_claimed by (simp add: sc_lapsed_def)

lemma wf_sc_failed: "wf_db (tables sc_failed)"
  unfolding sc_failed_def by (rule fail_op.wf_run, rule wf_sc_claimed)

lemma sc_lapsed_row:
  "map_option (\<lambda>e. (e_status e, e_attempts e, e_max_attempts e)) (exec_of (tables sc_lapsed) ''a'') =
    Some (Running, 1, 3)"
  by code_simp

lemma wf_sc_reaped: "wf_db (tables sc_reaped)"
  using sc_lapsed_row wf_expire_lease [OF wf_sc_lapsed] unfolding sc_reaped_def by fastforce

lemma wf_sc_reclaimed: "wf_db (tables sc_reclaimed)"
  unfolding sc_reclaimed_def by (rule claim_op.wf_run, rule wf_sc_reaped)

lemma wf_sc_completed: "wf_db (tables sc_completed)"
  unfolding sc_completed_def by (rule complete_op.wf_run, rule wf_sc_reclaimed)

lemmas wf_scenario = wf_sc_start wf_sc_submitted wf_sc_claimed wf_sc_lapsed wf_sc_failed wf_sc_reaped
  wf_sc_reclaimed wf_sc_completed

end
