(* ===== verification/Fencing.thy ===== *)
theory Fencing
  imports Scenario
begin

text \<open>
  The fencing contract (README, "The Core Guarantee" 2 and 4) of \<open>Claim\<close>, \<open>Heartbeat\<close>,
  \<open>Complete\<close> and \<open>Fail\<close>, for every behaviour of the connection.
\<close>

section \<open>Common facts\<close>

text \<open>What a rejected report must leave alone: everything but the event log.\<close>

definition rows_unchanged :: "db \<Rightarrow> db \<Rightarrow> bool" where
  "rows_unchanged d d' \<longleftrightarrow> db_tools d' = db_tools d \<and> db_executions d' = db_executions d \<and>
     db_leases d' = db_leases d \<and> db_retries d' = db_retries d"

text \<open>At no time from now on does this token hold a live lease of the execution.\<close>

definition superseded :: "st \<Rightarrow> exec_id \<Rightarrow> int \<Rightarrow> bool" where
  "superseded s eid tok \<longleftrightarrow>
     (case lease_of (tables s) eid of None \<Rightarrow> True
      | Some l \<Rightarrow> l_fencing_token l \<noteq> tok \<or> l_lease_expires l \<le> clock s)"

lemma superseded_not_live:
  assumes "wf_db (tables s)" and "superseded s eid tok" and "clock s \<le> now"
  shows "\<not> live_lease now (tables s) eid tok"
  using assms by (auto simp: live_lease_iff superseded_def split: option.splits)

lemma rows_unchanged_same_data: "same_data d d' \<Longrightarrow> rows_unchanged d d'"
  using same_dataD [of d d'] by (simp add: rows_unchanged_def)

lemma rejected_rows_unchanged [simp]: "rows_unchanged d (rejected_db now eid w tok reason d)"
  by (simp add: rows_unchanged_def rejected_db_def)

lemma rows_unchanged_seq [simp]: "rows_unchanged d (d\<lparr>db_event_seq := n\<rparr>)" "rows_unchanged d d"
  by (simp_all add: rows_unchanged_def)

lemma log_tokens_below_next:
  "t \<in> set (tokens (log_of d eid)) \<Longrightarrow> t < next_token d eid"
  using max_token_ge [of t] by (fastforce simp: next_token_def)

lemma claim_answer:
  assumes "wf_db (tables s)" and "claim locked w secs s = (Inr c, s')"
  obtains now e where "clock s \<le> now" "now \<le> clock s'"
    "select_ready locked (tables s) = Some e" "exec_of (tables s) (e_id e) = Some e"
    "c = claim_of now e (next_token (tables s) (e_id e)) secs"
    "tables s' = claimed_db now e w (next_token (tables s) (e_id e)) secs (tables s)"
proof -
  from claiming.answer [OF assms(2)] obtain now
    where n: "clock s \<le> now" "now \<le> clock s'"
      and e: "claim_effect locked w secs now (tables s) = (Inr c, tables s')" by auto
  from e obtain e0 where e0: "select_ready locked (tables s) = Some e0"
    by (auto simp: claim_effect_def split: option.splits)
  note r = select_ready_row [OF assms(1) e0]
  show thesis
    using e e0 r n by (intro that) (auto simp: claim_effect_def split: if_splits)
qed

section \<open>Claims\<close>

text \<open>
  C26. A granted claim takes a ready, unlocked execution that no other such execution
  precedes in \<open>created_at\<close>, and gives it a fencing token above every token its log has
  ever recorded; the row is running with one more attempt, the lease carries the token
  and expires the given number of seconds after the transaction began, the claim returned
  describes exactly that row and lease, and no other execution changes.
\<close>

theorem claim_grants:
  assumes "wf_db (tables s)" and "claim locked w secs s = (Inr c, s')"
  shows "\<exists>now e. clock s \<le> now \<and> now \<le> clock s' \<and>
    exec_of (tables s) (c_execution_id c) = Some e \<and> e_status e = Ready \<and> e_id e \<notin> set locked \<and>
    (\<forall>r\<in>set (db_executions (tables s)). e_status r = Ready \<and> e_id r \<notin> set locked \<longrightarrow>
       e_created_at e \<le> e_created_at r) \<and>
    (\<forall>t\<in>set (tokens (log_of (tables s) (e_id e))). t < c_fencing_token c) \<and>
    c = claim_of now e (c_fencing_token c) secs \<and>
    exec_of (tables s') (e_id e) = Some (claimed_row now e) \<and>
    lease_of (tables s') (e_id e) = Some \<lparr>l_execution_id = e_id e, l_worker_id = w,
      l_fencing_token = c_fencing_token c, l_lease_expires = c_lease_expires c, l_claimed_at = now\<rparr> \<and>
    (\<forall>k. k \<noteq> e_id e \<longrightarrow> exec_of (tables s') k = exec_of (tables s) k \<and>
       lease_of (tables s') k = lease_of (tables s) k \<and> log_of (tables s') k = log_of (tables s) k)"
proof -
  obtain now e where a: "clock s \<le> now" "now \<le> clock s'"
    "select_ready locked (tables s) = Some e" "exec_of (tables s) (e_id e) = Some e"
    "c = claim_of now e (next_token (tables s) (e_id e)) secs"
    "tables s' = claimed_db now e w (next_token (tables s) (e_id e)) secs (tables s)"
    using claim_answer [OF assms] by metis
  note r = select_readyD [OF a(3)]
  have c: "c_execution_id c = e_id e" "c_fencing_token c = next_token (tables s) (e_id e)"
    "c_lease_expires c = lease_until now secs"
    using a(5) by (simp_all add: claim_of_def)
  have below: "\<forall>t\<in>set (tokens (log_of (tables s) (e_id e))). t < c_fencing_token c"
    using log_tokens_below_next by (simp add: c)
  have ceq: "c = claim_of now e (c_fencing_token c) secs"
    using a(5) c(2) by simp
  show ?thesis
    by (intro exI [of _ now] exI [of _ e] conjI ceq; insert a(1,2) r below;
        simp add: a(4,6) c effect_simps)
qed

theorem claim_grants_witness:
  "\<exists>now e. exec_of (tables sc_reaped) ''a'' = Some e \<and> e_status e = Ready \<and>
     lease_of (tables sc_reclaimed) ''a'' = Some \<lparr>l_execution_id = ''a'', l_worker_id = ''w2'',
      l_fencing_token = 2, l_lease_expires = 61000000, l_claimed_at = now\<rparr>"
proof -
  let ?c = "\<lparr>c_execution_id = ''a'', c_tool_name = ''slow_compute'', c_input_args = ''{}'',
     c_attempts = 2, c_max_attempts = 3, c_fencing_token = 2, c_lease_expires = 61000000\<rparr>"
  have run: "claim [] ''w2'' 30 sc_reaped = (Inr ?c, sc_reclaimed)" by code_simp
  obtain now e where "exec_of (tables sc_reaped) (c_execution_id ?c) = Some e" "e_status e = Ready"
    "lease_of (tables sc_reclaimed) (e_id e) = Some \<lparr>l_execution_id = e_id e, l_worker_id = ''w2'',
       l_fencing_token = c_fencing_token ?c, l_lease_expires = c_lease_expires ?c, l_claimed_at = now\<rparr>"
    using claim_grants [OF wf_sc_reaped run] by blast
  moreover from this have "e_id e = ''a''" using exec_of_id by fastforce
  ultimately show ?thesis by auto
qed

text \<open>
  C33. Without connection failures a claim refuses with \<open>ErrNoWork\<close>, and changes nothing,
  exactly when no ready execution is free; it is refused for no other reason while the
  counters are within their column types.
\<close>

theorem claim_no_work_iff:
  assumes "wf_db (tables s)" and "net s = []"
  shows "(fst (claim locked w secs s) = Inl ErrNoWork \<longleftrightarrow>
      (\<forall>e\<in>set (db_executions (tables s)). e_status e = Ready \<longrightarrow> e_id e \<in> set locked)) \<and>
    (fst (claim locked w secs s) = Inl ErrNoWork \<longrightarrow> snd (claim locked w secs s) = s)"
proof -
  have none: "select_ready locked (tables s) = None \<longleftrightarrow>
      (\<forall>e\<in>set (db_executions (tables s)). e_status e = Ready \<longrightarrow> e_id e \<in> set locked)"
    by (auto simp: select_ready_def first_by_None filter_empty_conv)
  have refuse: "fst (claim locked w secs s) = Inl ErrNoWork \<longleftrightarrow> select_ready locked (tables s) = None"
    using select_ready_row [OF assms(1)]
    by (auto simp: claiming.quiet [OF assms(2)] claim_effect_def split: option.splits)
  moreover have "select_ready locked (tables s) = None \<Longrightarrow> snd (claim locked w secs s) = s"
    by (simp add: claiming.quiet [OF assms(2)] claim_effect_def)
  ultimately show ?thesis using none by simp
qed

theorem claim_no_work_iff_witness:
  "fst (claim [] ''w2'' 30 sc_claimed) = Inl ErrNoWork \<and> snd (claim [] ''w2'' 30 sc_claimed) = sc_claimed"
proof -
  have q: "net sc_claimed = []" by code_simp
  have n: "\<forall>e\<in>set (db_executions (tables sc_claimed)). e_status e = Ready \<longrightarrow> e_id e \<in> set []"
    by code_simp
  show ?thesis using claim_no_work_iff [OF wf_sc_claimed q, of "[]" "''w2''" 30] n by blast
qed

section \<open>Stale reports\<close>

text \<open>
  C2. A completion whose token does not hold a live lease never succeeds and never changes
  an execution, a lease or a retry entry, whatever the connection does; over a working
  connection it is answered \<open>ErrStale\<close> and leaves exactly one \<open>stale_rejected\<close> event
  with the worker and the token it presented.
\<close>

theorem stale_complete_rejected:
  assumes "wf_db (tables s)" and "exec_of (tables s) eid \<noteq> None" and "superseded s eid tok"
  shows "fst (complete jsonb eid tok w res s) \<noteq> Inr () \<and>
    rows_unchanged (tables s) (tables (snd (complete jsonb eid tok w res s))) \<and>
    (net s = [] \<and> json_param jsonb res \<noteq> None \<longrightarrow>
      fst (complete jsonb eid tok w res s) = Inl ErrStale \<and>
      (\<exists>pl. db_events (tables (snd (complete jsonb eid tok w res s))) = db_events (tables s) @
        [new_event (clock s) eid Ev_stale_rejected w (Some tok) pl (db_event_seq (tables s))]))"
proof (intro conjI impI)
  have eff: "complete_effect jsonb eid tok w res now (tables s) =
      (if json_param jsonb res = None then (Inl (DbError (SqlState ''22P02'')), tables s)
       else (Inl ErrStale, rejected_db now eid w tok
              ''completion rejected: fencing token superseded or lease expired'' (tables s)))"
    if "clock s \<le> now" for now
    using superseded_not_live [OF assms(1,3) that] assms(2)
    by (auto simp: complete_effect_def split: option.split)
  show "fst (complete jsonb eid tok w res s) \<noteq> Inr ()"
    using completing.outcome [of jsonb eid tok w res s] eff
    by (fastforce simp: outcome_def split: if_splits)
  show "rows_unchanged (tables s) (tables (snd (complete jsonb eid tok w res s)))"
    using completing.atomic [of s jsonb eid tok w res] eff rows_unchanged_same_data
    by (auto split: if_splits)
  assume q: "net s = [] \<and> json_param jsonb res \<noteq> None"
  then show "fst (complete jsonb eid tok w res s) = Inl ErrStale"
    using completing.quiet [where s = s] eff by simp
  from q show "\<exists>pl. db_events (tables (snd (complete jsonb eid tok w res s))) = db_events (tables s) @
      [new_event (clock s) eid Ev_stale_rejected w (Some tok) pl (db_event_seq (tables s))]"
    using completing.quiet [where s = s] eff by (auto simp: rejected_db_def)
qed

theorem stale_complete_rejected_witness:
  "fst (complete Some ''a'' 1 ''w1'' (Some ''1'') sc_reclaimed) = Inl ErrStale \<and>
   rows_unchanged (tables sc_reclaimed) (tables (snd (complete Some ''a'' 1 ''w1'' (Some ''1'') sc_reclaimed)))"
proof -
  have e: "exec_of (tables sc_reclaimed) ''a'' \<noteq> None" by code_simp
  have st: "superseded sc_reclaimed ''a'' 1" by code_simp
  have q: "net sc_reclaimed = [] \<and> json_param Some (Some ''1'') \<noteq> None" by code_simp
  show ?thesis using stale_complete_rejected [OF wf_sc_reclaimed e st, of Some "''w1''" "Some ''1''"] q
    by blast
qed

text \<open>
  C40. A failure report whose token does not hold a live lease never succeeds and never
  changes an execution, a lease or a retry entry; over a working connection it is answered
  \<open>ErrStale\<close> and logged.
\<close>

theorem stale_fail_rejected:
  assumes "wf_db (tables s)" and "exec_of (tables s) eid \<noteq> None" and "superseded s eid tok"
  shows "fst (fail eid tok w msg s) \<noteq> Inr () \<and>
    rows_unchanged (tables s) (tables (snd (fail eid tok w msg s))) \<and>
    (net s = [] \<longrightarrow> fst (fail eid tok w msg s) = Inl ErrStale \<and>
      (\<exists>pl. db_events (tables (snd (fail eid tok w msg s))) = db_events (tables s) @
        [new_event (clock s) eid Ev_stale_rejected w (Some tok) pl (db_event_seq (tables s))]))"
proof (intro conjI impI)
  have eff: "fail_effect eid tok w msg now (tables s) =
      (Inl ErrStale, rejected_db now eid w tok
         ''failure rejected: fencing token superseded or lease expired'' (tables s))"
    if "clock s \<le> now" for now
    using superseded_not_live [OF assms(1,3) that] assms(2)
    by (auto simp: fail_effect_def split: option.split)
  show "fst (fail eid tok w msg s) \<noteq> Inr ()"
    using failing.outcome [of eid tok w msg s] eff by (fastforce simp: outcome_def)
  show "rows_unchanged (tables s) (tables (snd (fail eid tok w msg s)))"
    using failing.atomic [of s eid tok w msg] eff rows_unchanged_same_data by auto
  assume q: "net s = []"
  show "fst (fail eid tok w msg s) = Inl ErrStale" using failing.quiet [OF q] eff by simp
  show "\<exists>pl. db_events (tables (snd (fail eid tok w msg s))) = db_events (tables s) @
      [new_event (clock s) eid Ev_stale_rejected w (Some tok) pl (db_event_seq (tables s))]"
    using failing.quiet [OF q] eff by (auto simp: rejected_db_def)
qed

theorem stale_fail_rejected_witness:
  "fst (fail ''a'' 1 ''w1'' ''late'' sc_lapsed) = Inl ErrStale \<and>
   rows_unchanged (tables sc_lapsed) (tables (snd (fail ''a'' 1 ''w1'' ''late'' sc_lapsed)))"
proof -
  have e: "exec_of (tables sc_lapsed) ''a'' \<noteq> None" by code_simp
  have st: "superseded sc_lapsed ''a'' 1" by code_simp
  have q: "net sc_lapsed = []" by code_simp
  show ?thesis using stale_fail_rejected [OF wf_sc_lapsed e st, of "''w1''" "''late''"] q by blast
qed

text \<open>
  A heartbeat whose token does not hold a live lease never succeeds and changes
  nothing at all in the tables (the log included); over a working connection it is
  answered \<open>ErrStale\<close>. An expired lease is not extended even before the scheduler has
  returned the execution.
\<close>

theorem stale_heartbeat_rejected:
  assumes "wf_db (tables s)" and "superseded s eid tok"
  shows "fst (heartbeat eid tok secs s) \<noteq> Inr () \<and>
    same_data (tables s) (tables (snd (heartbeat eid tok secs s))) \<and>
    (net s = [] \<longrightarrow> heartbeat eid tok secs s = (Inl ErrStale, s))"
proof (intro conjI impI)
  have eff: "heartbeat_effect eid tok secs now (tables s) = (Inl ErrStale, tables s)"
    if "clock s \<le> now" for now
    using superseded_not_live [OF assms that] by (simp add: heartbeat_effect_def)
  show "fst (heartbeat eid tok secs s) \<noteq> Inr ()"
    using heartbeating.outcome [of eid tok secs s] eff by (fastforce simp: outcome_def)
  show "same_data (tables s) (tables (snd (heartbeat eid tok secs s)))"
    using heartbeating.atomic [of s eid tok secs] eff by auto
  assume q: "net s = []"
  show "heartbeat eid tok secs s = (Inl ErrStale, s)" using heartbeating.quiet [OF q] eff by simp
qed

theorem stale_heartbeat_rejected_witness:
  "heartbeat ''a'' 1 30 sc_lapsed = (Inl ErrStale, sc_lapsed)"
proof -
  have st: "superseded sc_lapsed ''a'' 1" by code_simp
  have q: "net sc_lapsed = []" by code_simp
  show ?thesis using stale_heartbeat_rejected [OF wf_sc_lapsed st, of 30] q by blast
qed

section \<open>Accepted reports\<close>

text \<open>
  C32. A heartbeat that succeeds found a live lease with its token at some time of the
  call, moved that lease's expiry to the given number of seconds after that time, logged
  itself, and changed no execution, no retry entry and no other lease.
\<close>

theorem heartbeat_extends:
  assumes "wf_db (tables s)" and "heartbeat eid tok secs s = (Inr (), s')"
  shows "\<exists>now l. clock s \<le> now \<and> now \<le> clock s' \<and>
    lease_of (tables s) eid = Some l \<and> l_fencing_token l = tok \<and> now < l_lease_expires l \<and>
    lease_of (tables s') eid = Some (l\<lparr>l_lease_expires := now + secs * 1000000\<rparr>) \<and>
    (\<forall>k. k \<noteq> eid \<longrightarrow> lease_of (tables s') k = lease_of (tables s) k) \<and>
    db_executions (tables s') = db_executions (tables s) \<and>
    db_retries (tables s') = db_retries (tables s) \<and>
    log_of (tables s') eid = log_of (tables s) eid @
      [new_event now eid Ev_heartbeat [] (Some tok) None (db_event_seq (tables s))]"
proof -
  from heartbeating.answer [OF assms(2)] obtain now
    where n: "clock s \<le> now" "now \<le> clock s'"
      and e: "heartbeat_effect eid tok secs now (tables s) = (Inr (), tables s')" by auto
  from e have live: "live_lease now (tables s) eid tok"
    and t: "tables s' = extended_db now eid tok secs (tables s)"
    by (auto simp: heartbeat_effect_def split: if_splits)
  from live obtain l where l: "lease_of (tables s) eid = Some l" "l_fencing_token l = tok"
    "now < l_lease_expires l" using live_lease_iff [OF assms(1)] by blast
  have frame: "db_executions (tables s') = db_executions (tables s)"
    "db_retries (tables s') = db_retries (tables s)"
    by (simp_all add: t extended_db_def)
  show ?thesis
    by (intro exI [of _ now] exI [of _ l] conjI frame n l; insert l;
        simp add: t effect_simps lease_until_def)
qed

theorem heartbeat_extends_witness:
  "\<exists>l. lease_of (tables (snd (heartbeat ''a'' 1 30 sc_claimed))) ''a'' = Some l \<and> l_fencing_token l = 1"
proof -
  have run: "heartbeat ''a'' 1 30 sc_claimed = (Inr (), snd (heartbeat ''a'' 1 30 sc_claimed))"
    by code_simp
  obtain now l where "l_fencing_token l = 1"
    "lease_of (tables (snd (heartbeat ''a'' 1 30 sc_claimed))) ''a'' =
       Some (l\<lparr>l_lease_expires := now + 30 * 1000000\<rparr>)"
    using heartbeat_extends [OF wf_sc_claimed run] by blast
  then show ?thesis by simp
qed

text \<open>
  C1. A completion that succeeds found, at some time of the call, a live lease with its
  token on a running execution; the execution is completed with the stored document and no
  error message, its lease is gone, one \<open>completed\<close> event with the token is logged, and
  nothing else changes.
\<close>

theorem complete_accepts:
  assumes "wf_db (tables s)" and "complete jsonb eid tok w res s = (Inr (), s')"
  shows "\<exists>now e l doc. clock s \<le> now \<and> now \<le> clock s' \<and>
    exec_of (tables s) eid = Some e \<and> e_status e = Running \<and>
    lease_of (tables s) eid = Some l \<and> l_fencing_token l = tok \<and> now < l_lease_expires l \<and>
    json_param jsonb res = Some doc \<and>
    exec_of (tables s') eid = Some (e\<lparr>e_status := Completed, e_result := doc,
       e_error_message := None, e_updated_at := now\<rparr>) \<and>
    lease_of (tables s') eid = None \<and>
    log_of (tables s') eid = log_of (tables s) eid @
      [new_event now eid Ev_completed w (Some tok) None (db_event_seq (tables s))] \<and>
    (\<forall>k. k \<noteq> eid \<longrightarrow> exec_of (tables s') k = exec_of (tables s) k \<and>
       lease_of (tables s') k = lease_of (tables s) k \<and> log_of (tables s') k = log_of (tables s) k) \<and>
    db_retries (tables s') = db_retries (tables s)"
proof -
  from completing.answer [OF assms(2)] obtain now
    where n: "clock s \<le> now" "now \<le> clock s'"
      and e: "complete_effect jsonb eid tok w res now (tables s) = (Inr (), tables s')" by auto
  from e obtain doc where doc: "json_param jsonb res = Some doc"
    and live: "live_lease now (tables s) eid tok"
    and t: "tables s' = completed_db now eid w tok doc (tables s)"
    by (auto simp: complete_effect_def split: option.splits if_splits)
  from live obtain l where l: "lease_of (tables s) eid = Some l" "l_fencing_token l = tok"
    "now < l_lease_expires l" using live_lease_iff [OF assms(1)] by blast
  obtain ex where ex: "exec_of (tables s) eid = Some ex" "e_status ex = Running"
    using running_row [OF assms(1) l(1)] by metis
  have r: "db_retries (tables s') = db_retries (tables s)" by (simp add: t completed_db_def)
  show ?thesis
    by (intro exI [of _ now] exI [of _ ex] exI [of _ l] exI [of _ doc] conjI n ex l doc r;
        insert ex; simp add: t effect_simps completed_row_def)
qed

theorem complete_accepts_witness:
  "lease_of (tables sc_completed) ''a'' = None \<and>
   (\<exists>e. exec_of (tables sc_completed) ''a'' = Some e \<and> e_status e = Completed \<and> e_result e = Some ''1'')"
proof -
  have run: "complete Some ''a'' 2 ''w2'' (Some ''1'') sc_reclaimed = (Inr (), sc_completed)"
    by code_simp
  obtain e doc now where "json_param Some (Some ''1'') = Some doc" "lease_of (tables sc_completed) ''a'' = None"
    "exec_of (tables sc_completed) ''a'' = Some (e\<lparr>e_status := Completed, e_result := doc,
       e_error_message := None, e_updated_at := now\<rparr>)"
    using complete_accepts [OF wf_sc_reclaimed run] by blast
  then show ?thesis by (simp add: json_param_def)
qed

text \<open>
  C31. A failure report that succeeds found a live lease with its token. With attempts left
  the execution is pending, an entry of the retry schedule is due \<open>backoff_seconds\<close> after
  the report, and the event says so; with none left it is failed for good and the retry
  schedule is as before. In both cases the message is stored and the lease is gone.
\<close>

theorem fail_accepts:
  assumes "wf_db (tables s)" and "fail eid tok w msg s = (Inr (), s')"
  shows "\<exists>now e l. clock s \<le> now \<and> now \<le> clock s' \<and>
    exec_of (tables s) eid = Some e \<and> e_status e = Running \<and>
    lease_of (tables s) eid = Some l \<and> l_fencing_token l = tok \<and> now < l_lease_expires l \<and>
    lease_of (tables s') eid = None \<and>
    (if e_attempts e < e_max_attempts e
     then exec_of (tables s') eid =
            Some (e\<lparr>e_status := Pending, e_error_message := Some msg, e_updated_at := now\<rparr>) \<and>
          retry_of (tables s') eid = Some \<lparr>r_execution_id = eid,
            r_retry_at = now + backoff_seconds (e_attempts e) * 1000000, r_attempt = e_attempts e\<rparr>
     else exec_of (tables s') eid =
            Some (e\<lparr>e_status := Failed, e_error_message := Some msg, e_updated_at := now\<rparr>) \<and>
          db_retries (tables s') = db_retries (tables s))"
proof -
  from failing.answer [OF assms(2)] obtain now
    where n: "clock s \<le> now" "now \<le> clock s'"
      and eff: "fail_effect eid tok w msg now (tables s) = (Inr (), tables s')" by auto
  from eff obtain e where e: "exec_of (tables s) eid = Some e"
    and live: "live_lease now (tables s) eid tok"
    and t: "tables s' = failed_db now e w tok msg (tables s)"
    by (auto simp: fail_effect_def split: option.splits if_splits)
  from live obtain l where l: "lease_of (tables s) eid = Some l" "l_fencing_token l = tok"
    "now < l_lease_expires l" using live_lease_iff [OF assms(1)] by blast
  have st: "e_status e = Running" using running_row [OF assms(1) l(1)] e by (metis option.inject)
  note eid = exec_of_id [OF e]
  have "db_retries (tables s') = db_retries (tables s)" if "\<not> e_attempts e < e_max_attempts e"
    using that by (simp add: t failed_db_def Let_def)
  then show ?thesis
    by (intro exI [of _ now] exI [of _ e] exI [of _ l] conjI n e l st; insert e eid;
        simp add: t effect_simps failed_row_def lease_until_def)
qed

theorem fail_accepts_witness:
  "retry_of (tables sc_failed) ''a'' = Some \<lparr>r_execution_id = ''a'', r_retry_at = 2000000, r_attempt = 1\<rparr>"
proof -
  have run: "fail ''a'' 1 ''w1'' ''boom'' sc_claimed = (Inr (), sc_failed)" by code_simp
  have c: "clock sc_claimed = 0" "clock sc_failed = 0" "backoff_seconds 1 = 2" by code_simp+
  have row: "map_option (\<lambda>e. (e_attempts e, e_max_attempts e)) (exec_of (tables sc_claimed) ''a'') = Some (1, 3)"
    by code_simp
  obtain now e where "clock sc_claimed \<le> now" "now \<le> clock sc_failed"
    "exec_of (tables sc_claimed) ''a'' = Some e"
    "if e_attempts e < e_max_attempts e
     then exec_of (tables sc_failed) ''a'' =
            Some (e\<lparr>e_status := Pending, e_error_message := Some ''boom'', e_updated_at := now\<rparr>) \<and>
          retry_of (tables sc_failed) ''a'' = Some \<lparr>r_execution_id = ''a'',
            r_retry_at = now + backoff_seconds (e_attempts e) * 1000000, r_attempt = e_attempts e\<rparr>
     else exec_of (tables sc_failed) ''a'' =
            Some (e\<lparr>e_status := Failed, e_error_message := Some ''boom'', e_updated_at := now\<rparr>) \<and>
          db_retries (tables sc_failed) = db_retries (tables sc_claimed)"
    using fail_accepts [OF wf_sc_claimed run] by metis
  with row c show ?thesis by simp
qed

end
