(* ===== verification/Scheduler_Pass.thy ===== *)
theory Scheduler_Pass
  imports Scenario
begin

text \<open>
  Correctness of one scheduler pass (\<open>RunSchedulerPass\<close>) run by a single scheduler, and of
  the retry backoff of \<open>Fail\<close>.
\<close>

section \<open>Backoff\<close>

lemma backoff_pow2:
  assumes "0 \<le> n" and "n \<le> 33"
  shows "backoff_seconds n = 2 ^ nat n"
proof -
  have "(2::int) ^ nat n \<le> 2 ^ 33" using assms by (intro power_increasing) auto
  then have b: "(2::int) ^ nat n * 1000000000 < 2 ^ 63" by simp
  have "wrap64 (2 ^ nat n * 1000000000) = 2 ^ nat n * 1000000000"
    using b by (intro wrap64_id) (auto intro: order_trans [of _ 0])
  then show ?thesis using assms
    by (simp add: backoff_seconds_def shl_one_small signed_divide_int_def sgn_mult)
qed

lemma backoff_34: "backoff_seconds 34 = - 1266874889"
  by code_simp

section \<open>What a pass reads\<close>

lemma select_expired_iff:
  assumes "wf_db d"
  shows "(k, n, m) \<in> set (select_expired now d) \<longleftrightarrow>
    (\<exists>e l. exec_of d k = Some e \<and> lease_of d k = Some l \<and> e_status e = Running \<and>
       l_lease_expires l < now \<and> n = e_attempts e \<and> m = e_max_attempts e)"
proof -
  have d: "distinct (map e_id (db_executions d))" "distinct (map l_execution_id (db_leases d))"
    using assms by (simp_all add: wf_db_def wf_keys_def)
  show ?thesis
    by (auto simp: select_expired_def exec_of_def lease_of_def row_of_Some_iff [OF d(1)]
        row_of_Some_iff [OF d(2)])
qed

lemma distinct_concat_singletons:
  fixes f :: "'a \<Rightarrow> ('c \<times> 'b) list"
  assumes "distinct (map g xs)" and "\<And>x. map fst (f x) = replicate (length (f x)) (g x)"
    and "\<And>x. length (f x) \<le> 1"
  shows "distinct (map fst (concat (map f xs)))"
  using assms(1)
proof (induction xs)
  case (Cons x xs)
  have "fst ` set (f y) \<subseteq> {g y}" for y
    using assms(2) [of y] by (metis set_map set_replicate_conv_if empty_subsetI subset_refl)
  then have 1: "fst ` set (f x) \<subseteq> {g x}" and 2: "\<forall>y. fst ` set (f y) \<subseteq> {g y}" by blast+
  have "fst ` set (concat (map f xs)) = (\<Union>y\<in>set xs. fst ` set (f y))" by auto
  with 2 have sub: "fst ` set (concat (map f xs)) \<subseteq> g ` set xs" by blast
  have "A \<inter> B = {}" if "A \<subseteq> {a}" "B \<subseteq> G" "a \<notin> G" for A B G :: "'c set" and a
    using that by auto
  from this [OF 1 sub] have "fst ` set (f x) \<inter> fst ` set (concat (map f xs)) = {}"
    using Cons.prems by simp
  moreover have "length (f x) \<le> 1" by (rule assms(3))
  then have "distinct (map fst (f x))" by (cases "f x") auto
  moreover have "distinct (map fst (concat (map f xs)))" using Cons by simp
  ultimately show ?case by (simp add: distinct_append)
qed simp

lemma filter_lease_len:
  "distinct (map l_execution_id ls) \<Longrightarrow> length (filter (\<lambda>l. l_execution_id l = k \<and> p l) ls) \<le> 1"
  by (auto simp: filter_key_and split: option.split)

lemma select_expired_distinct:
  assumes "wf_db d"
  shows "distinct (map fst (select_expired now d))"
proof -
  have d: "distinct (map e_id (db_executions d))" "distinct (map l_execution_id (db_leases d))"
    using assms by (simp_all add: wf_db_def wf_keys_def)
  have shape: "concat (map (\<lambda>l. if l_execution_id l = e_id e \<and> e_status e = Running \<and> l_lease_expires l < now
        then [(e_id e, e_attempts e, e_max_attempts e)] else []) ls) =
      map (\<lambda>_. (e_id e, e_attempts e, e_max_attempts e))
        (filter (\<lambda>l. l_execution_id l = e_id e \<and> e_status e = Running \<and> l_lease_expires l < now) ls)"
    for e ls
    by (induction ls) auto
  show ?thesis
    unfolding select_expired_def shape
    using filter_lease_len [OF d(2)]
    by (intro distinct_concat_singletons [OF d(1)]) (auto simp: map_replicate_const)
qed

lemma select_due_iff:
  assumes "wf_db d"
  shows "k \<in> set (select_due now d) \<longleftrightarrow> (\<exists>r. retry_of d k = Some r \<and> r_retry_at r \<le> now)"
proof -
  have "distinct (map r_execution_id (db_retries d))" using assms by (simp add: wf_db_def wf_keys_def)
  from row_of_Some_iff [OF this] show ?thesis
    by (auto simp: select_due_def retry_of_def)
qed

lemma select_due_distinct: "wf_db d \<Longrightarrow> distinct (select_due now d)"
  by (simp add: select_due_def wf_db_def wf_keys_def distinct_map_filter)

section \<open>The loops over a working connection\<close>

definition lapsed :: "time \<Rightarrow> db \<Rightarrow> exec_id \<Rightarrow> bool" where
  "lapsed now d k \<longleftrightarrow> (case (exec_of d k, lease_of d k) of
     (Some e, Some l) \<Rightarrow> e_status e = Running \<and> l_lease_expires l < now | _ \<Rightarrow> False)"

definition retry_due :: "time \<Rightarrow> db \<Rightarrow> exec_id \<Rightarrow> bool" where
  "retry_due now d k \<longleftrightarrow> (case retry_of d k of Some r \<Rightarrow> r_retry_at r \<le> now | None \<Rightarrow> False)"

definition reaped_row :: "time \<Rightarrow> int \<Rightarrow> int \<Rightarrow> execution \<Rightarrow> execution" where
  "reaped_row now n m e =
     (if m \<le> n
      then e\<lparr>e_status := Failed, e_error_message := Some ''lease expired after max attempts'',
             e_updated_at := now\<rparr>
      else e\<lparr>e_status := Ready, e_updated_at := now\<rparr>)"

definition promoted_row :: "time \<Rightarrow> execution \<Rightarrow> execution" where
  "promoted_row now e = e\<lparr>e_status := Ready, e_updated_at := now\<rparr>"

lemma expire_all_quiet:
  assumes "net s = []" and "distinct (map fst xs)" and "\<forall>k\<in>fst ` set xs. exec_of (tables s) k \<noteq> None"
  shows "\<exists>d. expire_all xs c s = ((c + length xs, None), s\<lparr>tables := d\<rparr>) \<and>
    (\<forall>k. exec_of d k = (case map_of xs k of None \<Rightarrow> exec_of (tables s) k
       | Some (n, m) \<Rightarrow> map_option (reaped_row (clock s) n m) (exec_of (tables s) k))) \<and>
    (\<forall>k. lease_of d k = (if k \<in> fst ` set xs then None else lease_of (tables s) k)) \<and>
    retry_of d = retry_of (tables s)"
  using assms
proof (induction xs arbitrary: c s)
  case Nil
  then show ?case by (auto intro: exI [of _ "tables s"])
next
  case (Cons x xs)
  obtain eid n m where x: "x = (eid, n, m)" by (cases x) auto
  let ?d1 = "expired_db (clock s) eid n m (tables s)"
  let ?s1 = "s\<lparr>tables := ?d1\<rparr>"
  have run: "expire_lease eid n m s = (Inr (), ?s1)"
    using Cons.prems(3) by (simp add: expiring.quiet [OF Cons.prems(1)] expire_effect_def x)
  have fresh: "eid \<notin> fst ` set xs" using Cons.prems(2) x by simp
  have "net ?s1 = []" and keys: "distinct (map fst xs)"
    and this_rows: "\<forall>k\<in>fst ` set xs. exec_of (tables ?s1) k \<noteq> None"
    using Cons.prems by (auto simp: effect_simps)
  have sel: "tables ?s1 = ?d1" "clock ?s1 = clock s" by simp_all
  from Cons.IH [OF \<open>net ?s1 = []\<close> keys this_rows, of "Suc c"] have "\<exists>d.
    expire_all xs (Suc c) ?s1 = ((Suc (c + length xs), None), ?s1\<lparr>tables := d\<rparr>) \<and>
    (\<forall>k. exec_of d k = (case map_of xs k of None \<Rightarrow> exec_of ?d1 k
       | Some (n, m) \<Rightarrow> map_option (reaped_row (clock s) n m) (exec_of ?d1 k))) \<and>
    (\<forall>k. lease_of d k = (if k \<in> fst ` set xs then None else lease_of ?d1 k)) \<and>
    retry_of d = retry_of ?d1" unfolding sel by simp
  then obtain d where d:
    "expire_all xs (Suc c) ?s1 = ((Suc (c + length xs), None), ?s1\<lparr>tables := d\<rparr>)"
    "\<forall>k. exec_of d k = (case map_of xs k of None \<Rightarrow> exec_of ?d1 k
       | Some (n, m) \<Rightarrow> map_option (reaped_row (clock s) n m) (exec_of ?d1 k))"
    "\<forall>k. lease_of d k = (if k \<in> fst ` set xs then None else lease_of ?d1 k)"
    "retry_of d = retry_of ?d1" by (elim exE conjE)
  have none: "map_of xs eid = None" using fresh by (simp add: map_of_eq_None_iff)
  have "exec_of d k = (case map_of (x # xs) k of None \<Rightarrow> exec_of (tables s) k
       | Some (n, m) \<Rightarrow> map_option (reaped_row (clock s) n m) (exec_of (tables s) k))" for k
    using none by (cases "k = eid")
      (simp_all add: d(2) x effect_simps reaped_row_def [abs_def] split: option.split)
  moreover have "lease_of d k = (if k \<in> fst ` set (x # xs) then None else lease_of (tables s) k)" for k
    by (auto simp: d(3) x effect_simps)
  ultimately show ?case
    by (intro exI [of _ d]) (auto simp: x run d(1,4) effect_simps)
qed

lemma promote_all_quiet:
  assumes "net s = []" and "distinct xs" and "\<forall>k\<in>set xs. exec_of (tables s) k \<noteq> None"
  shows "\<exists>d. promote_all xs c s = ((c + length xs, None), s\<lparr>tables := d\<rparr>) \<and>
    (\<forall>k. exec_of d k = (if k \<in> set xs then map_option (promoted_row (clock s)) (exec_of (tables s) k)
       else exec_of (tables s) k)) \<and>
    (\<forall>k. retry_of d k = (if k \<in> set xs then None else retry_of (tables s) k)) \<and>
    lease_of d = lease_of (tables s)"
  using assms
proof (induction xs arbitrary: c s)
  case Nil
  then show ?case by (auto intro: exI [of _ "tables s"])
next
  case (Cons eid xs)
  let ?d1 = "promoted_db (clock s) eid (tables s)"
  let ?s1 = "s\<lparr>tables := ?d1\<rparr>"
  have run: "promote_retry eid s = (Inr (), ?s1)"
    using Cons.prems(3) by (simp add: promoting.quiet [OF Cons.prems(1)] promote_effect_def)
  have "net ?s1 = []" and keys: "distinct xs" and this_rows: "\<forall>k\<in>set xs. exec_of (tables ?s1) k \<noteq> None"
    using Cons.prems by (auto simp: effect_simps)
  have sel: "tables ?s1 = ?d1" "clock ?s1 = clock s" by simp_all
  from Cons.IH [OF \<open>net ?s1 = []\<close> keys this_rows, of "Suc c"] have "\<exists>d.
    promote_all xs (Suc c) ?s1 = ((Suc (c + length xs), None), ?s1\<lparr>tables := d\<rparr>) \<and>
    (\<forall>k. exec_of d k = (if k \<in> set xs then map_option (promoted_row (clock s)) (exec_of ?d1 k)
       else exec_of ?d1 k)) \<and>
    (\<forall>k. retry_of d k = (if k \<in> set xs then None else retry_of ?d1 k)) \<and>
    lease_of d = lease_of ?d1" unfolding sel by simp
  then obtain d where d:
    "promote_all xs (Suc c) ?s1 = ((Suc (c + length xs), None), ?s1\<lparr>tables := d\<rparr>)"
    "\<forall>k. exec_of d k = (if k \<in> set xs then map_option (promoted_row (clock s)) (exec_of ?d1 k)
       else exec_of ?d1 k)"
    "\<forall>k. retry_of d k = (if k \<in> set xs then None else retry_of ?d1 k)"
    "lease_of d = lease_of ?d1" by (elim exE conjE)
  have "exec_of d k = (if k \<in> set (eid # xs) then map_option (promoted_row (clock s)) (exec_of (tables s) k)
       else exec_of (tables s) k)" for k
    using Cons.prems(2) by (auto simp: d(2) effect_simps promoted_row_def [abs_def])
  moreover have "retry_of d k = (if k \<in> set (eid # xs) then None else retry_of (tables s) k)" for k
    by (auto simp: d(3) effect_simps)
  ultimately show ?case
    by (intro exI [of _ d]) (auto simp: run d(1,4) effect_simps)
qed

section \<open>The loops over any connection\<close>

lemma expire_lease_answered:
  assumes "expire_lease eid n m s = (Inr v, s')"
  shows "\<exists>now. clock s \<le> now \<and> now \<le> clock s' \<and> tables s' = expired_db now eid n m (tables s)"
  using expiring.answer [OF assms] by (auto simp: expire_effect_def split: if_splits)

lemma promote_retry_answered:
  assumes "promote_retry eid s = (Inr v, s')"
  shows "\<exists>now. clock s \<le> now \<and> now \<le> clock s' \<and> tables s' = promoted_db now eid (tables s)"
  using promoting.answer [OF assms] by (auto simp: promote_effect_def split: if_splits)

lemma expire_lease_elsewhere:
  assumes "k \<noteq> eid"
  shows "exec_of (tables (snd (expire_lease eid n m s))) k = exec_of (tables s) k"
    and "lease_of (tables (snd (expire_lease eid n m s))) k = lease_of (tables s) k"
    and "retry_of (tables (snd (expire_lease eid n m s))) k = retry_of (tables s) k"
  using expiring.atomic [of s eid n m] assms
  by (auto simp: expire_effect_def effect_simps same_dataD split: if_splits)

lemma promote_retry_elsewhere:
  assumes "k \<noteq> eid"
  shows "exec_of (tables (snd (promote_retry eid s))) k = exec_of (tables s) k"
    and "lease_of (tables (snd (promote_retry eid s))) k = lease_of (tables s) k"
    and "retry_of (tables (snd (promote_retry eid s))) k = retry_of (tables s) k"
  using promoting.atomic [of s eid] assms
  by (auto simp: promote_effect_def effect_simps same_dataD split: if_splits)

lemma expire_all_elsewhere:
  "k \<notin> fst ` set xs \<Longrightarrow>
    exec_of (tables (snd (expire_all xs c s))) k = exec_of (tables s) k \<and>
    lease_of (tables (snd (expire_all xs c s))) k = lease_of (tables s) k \<and>
    retry_of (tables (snd (expire_all xs c s))) k = retry_of (tables s) k"
proof (induction xs c s rule: expire_all.induct)
  case (2 eid n m rest c s)
  then have k: "k \<noteq> eid" by auto
  obtain r s' where run: "expire_lease eid n m s = (r, s')" by force
  from expire_lease_elsewhere [OF k, of n m s] 2 run show ?case
    by (cases r) (auto simp: exec_of_def)
qed simp

lemma promote_all_elsewhere:
  "k \<notin> set xs \<Longrightarrow>
    exec_of (tables (snd (promote_all xs c s))) k = exec_of (tables s) k \<and>
    lease_of (tables (snd (promote_all xs c s))) k = lease_of (tables s) k \<and>
    retry_of (tables (snd (promote_all xs c s))) k = retry_of (tables s) k"
proof (induction xs c s rule: promote_all.induct)
  case (2 eid rest c s)
  then have k: "k \<noteq> eid" by auto
  obtain r s' where run: "promote_retry eid s = (r, s')" by force
  from promote_retry_elsewhere [OF k, of s] 2 run show ?case
    by (cases r) (auto simp: exec_of_def)
qed simp

definition still_running :: "db \<Rightarrow> exec_id \<times> int \<times> int \<Rightarrow> bool" where
  "still_running d x = (case x of (k, n, m) \<Rightarrow>
     \<exists>e. exec_of d k = Some e \<and> e_status e = Running \<and> e_attempts e = n \<and> e_max_attempts e = m)"

lemma wf_expire_all:
  "wf_db (tables s) \<Longrightarrow> distinct (map fst xs) \<Longrightarrow> \<forall>x\<in>set xs. still_running (tables s) x \<Longrightarrow>
    wf_db (tables (snd (expire_all xs c s)))"
proof (induction xs c s rule: expire_all.induct)
  case (2 eid n m rest c s)
  obtain r s' where run: "expire_lease eid n m s = (r, s')" by force
  have wf': "wf_db (tables s')"
    using 2(4) wf_expire_lease [OF 2(2), of eid _ n m] run by (auto simp: still_running_def)
  have "still_running (tables s') x" if "x \<in> set rest" for x
  proof -
    have "fst x \<noteq> eid" using 2(3) that by auto
    with expire_lease_elsewhere(1) [OF this, of n m s] run 2(4) that show ?thesis
      by (cases x) (auto simp: still_running_def)
  qed
  with 2 run wf' show ?case by (cases r) auto
qed simp

lemma wf_promote_all:
  "wf_db (tables s) \<Longrightarrow> distinct xs \<Longrightarrow> \<forall>x\<in>set xs. retry_of (tables s) x \<noteq> None \<Longrightarrow>
    wf_db (tables (snd (promote_all xs c s)))"
proof (induction xs c s rule: promote_all.induct)
  case (2 eid rest c s)
  obtain r s' where run: "promote_retry eid s = (r, s')" by force
  have wf': "wf_db (tables s')"
    using 2(4) wf_promote_retry [OF 2(2), of eid] run by auto
  have "retry_of (tables s') x \<noteq> None" if "x \<in> set rest" for x
  proof -
    have "x \<noteq> eid" using 2(3) that by auto
    with promote_retry_elsewhere(3) [OF this, of s] run 2(4) that show ?thesis by auto
  qed
  with 2 run wf' show ?case by (cases r) auto
qed simp

lemma expire_all_clock: "clock s \<le> clock (snd (expire_all xs c s))"
proof (induction xs c s rule: expire_all.induct)
  case (2 eid n m rest c s)
  obtain r s' where run: "expire_lease eid n m s = (r, s')" by force
  with expiring.clock_mono [of s eid n m] 2 show ?case by (cases r) auto
qed simp

lemma promote_all_clock: "clock s \<le> clock (snd (promote_all xs c s))"
proof (induction xs c s rule: promote_all.induct)
  case (2 eid rest c s)
  obtain r s' where run: "promote_retry eid s = (r, s')" by force
  with promoting.clock_mono [of s eid] 2 show ?case by (cases r) auto
qed simp

lemma query_rows_answer:
  assumes "query_rows q s = (r, s')"
  shows "tables s' = tables s" and "clock s \<le> clock s'"
    and "r = Inr (rows, e) \<Longrightarrow> \<exists>n. rows = take n (q (clock s') (tables s))"
proof -
  obtain f s1 where a: "arrive s = (f, s1)" by force
  have t: "tables s1 = tables s" "clock s \<le> clock s1"
    using arrive_tables [of s] arrive_clock [of s] by (simp_all add: a)
  show "tables s' = tables s" "clock s \<le> clock s'"
    using assms t by (cases f; auto simp: query_rows_def a)+
  show "\<exists>n. rows = take n (q (clock s') (tables s))" if "r = Inr (rows, e)"
    using assms t that
    by (cases f) (auto simp: query_rows_def a intro: exI [of _ "length rows"])
qed

section \<open>The pass\<close>

lemma lapsed_iff:
  "lapsed now d k \<longleftrightarrow> (\<exists>e l. exec_of d k = Some e \<and> lease_of d k = Some l \<and>
     e_status e = Running \<and> l_lease_expires l < now)"
  by (auto simp: lapsed_def split: option.splits)

lemma expired_ids: "wf_db d \<Longrightarrow> fst ` set (select_expired now d) = {k. lapsed now d k}"
proof (intro set_eqI)
  fix k
  assume wf: "wf_db d"
  have "k \<in> fst ` set (select_expired now d) \<longleftrightarrow> (\<exists>n m. (k, n, m) \<in> set (select_expired now d))"
    by force
  also have "\<dots> \<longleftrightarrow> lapsed now d k"
    unfolding lapsed_iff select_expired_iff [OF wf] by blast
  finally show "k \<in> fst ` set (select_expired now d) \<longleftrightarrow> k \<in> {k. lapsed now d k}" by simp
qed

lemma expired_still_running:
  "wf_db d \<Longrightarrow> x \<in> set (select_expired now d) \<Longrightarrow> still_running d x"
  by (cases x) (auto simp: still_running_def select_expired_iff)

lemma due_ids: "wf_db d \<Longrightarrow> set (select_due now d) = {k. retry_due now d k}"
  by (auto simp: select_due_iff retry_due_def split: option.splits)

lemma expired_length: "wf_db d \<Longrightarrow> length (select_expired now d) = card {k. lapsed now d k}"
  using distinct_card [OF select_expired_distinct [of d now]] by (simp add: expired_ids)

lemma due_length: "wf_db d \<Longrightarrow> length (select_due now d) = card {k. retry_due now d k}"
  using distinct_card [OF select_due_distinct [of d now]] by (simp add: due_ids)

lemma expired_counters:
  assumes "wf_db d"
  shows "map_of (select_expired now d) k = (if lapsed now d k
    then map_option (\<lambda>e. (e_attempts e, e_max_attempts e)) (exec_of d k) else None)"
proof (cases "lapsed now d k")
  case True
  then obtain e l where "exec_of d k = Some e" "lease_of d k = Some l" "e_status e = Running"
    "l_lease_expires l < now" by (auto simp: lapsed_iff)
  then have "(k, e_attempts e, e_max_attempts e) \<in> set (select_expired now d)"
    using select_expired_iff [OF assms] by blast
  with select_expired_distinct [OF assms, of now] True \<open>exec_of d k = Some e\<close> show ?thesis
    by (simp add: map_of_eq_Some_iff)
next
  case False
  then have "k \<notin> fst ` set (select_expired now d)" by (simp add: expired_ids [OF assms])
  with False show ?thesis by (simp add: map_of_eq_None_iff)
qed

lemma retry_has_row:
  assumes "wf_db d" and "retry_of d k = Some r"
  shows "\<exists>e. exec_of d k = Some e \<and> e_status e = Pending"
proof -
  have c: "coherent_at d k" using wf_dbD(3) [OF assms(1)] .
  with assms(2) obtain e where e: "exec_of d k = Some e"
    by (cases "exec_of d k") (auto simp: coherent_at_def)
  with wf_db_row [OF assms(1) e] assms(2) show ?thesis by (auto simp: coherent_row_def)
qed

lemma lapsed_not_due: "wf_db d \<Longrightarrow> lapsed now d k \<Longrightarrow> retry_of d k = None"
  using retry_has_row [of d k] by (cases "retry_of d k") (auto simp: lapsed_iff)

text \<open>What a pass at \<open>now\<close> makes of an execution.\<close>

definition after_pass :: "time \<Rightarrow> db \<Rightarrow> exec_id \<Rightarrow> execution \<Rightarrow> execution" where
  "after_pass now d k e =
     (if lapsed now d k then reaped_row now (e_attempts e) (e_max_attempts e) e
      else if retry_due now d k then promoted_row now e else e)"

lemma pass_duty:
  assumes "wf_db (tables s)" and "net s = []"
  shows "\<exists>d. run_scheduler_pass s =
      ((card {k. lapsed (clock s) (tables s) k} + card {k. retry_due (clock s) (tables s) k}, None),
       s\<lparr>tables := d\<rparr>) \<and>
    (\<forall>k. exec_of d k = map_option (after_pass (clock s) (tables s) k) (exec_of (tables s) k)) \<and>
    (\<forall>k. lease_of d k = (if lapsed (clock s) (tables s) k then None else lease_of (tables s) k)) \<and>
    (\<forall>k. retry_of d k = (if retry_due (clock s) (tables s) k then None else retry_of (tables s) k))"
proof -
  let ?now = "clock s" and ?d = "tables s"
  let ?xs = "select_expired ?now ?d"
  note xs = expired_ids [OF assms(1), of ?now] select_expired_distinct [OF assms(1), of ?now]
  have rows: "\<forall>k\<in>fst ` set ?xs. exec_of ?d k \<noteq> None" by (auto simp: xs(1) lapsed_iff)
  obtain d1 where d1: "expire_all ?xs 0 s = ((length ?xs, None), s\<lparr>tables := d1\<rparr>)"
    "\<forall>k. exec_of d1 k = (case map_of ?xs k of None \<Rightarrow> exec_of ?d k
       | Some (n, m) \<Rightarrow> map_option (reaped_row ?now n m) (exec_of ?d k))"
    "\<forall>k. lease_of d1 k = (if k \<in> fst ` set ?xs then None else lease_of ?d k)"
    "retry_of d1 = retry_of ?d"
    using expire_all_quiet [OF assms(2) xs(2) rows, of 0] by auto
  have wf1: "wf_db d1"
    using wf_expire_all [OF assms(1) xs(2), of 0] d1(1) expired_still_running [OF assms(1)]
    by simp
  let ?s1 = "s\<lparr>tables := d1\<rparr>" and ?ys = "select_due ?now d1"
  have net1: "net ?s1 = []" using assms(2) by simp
  have due: "retry_due ?now d1 = retry_due ?now ?d" by (simp add: retry_due_def d1(4) fun_eq_iff)
  have rows1: "\<forall>k\<in>set ?ys. exec_of (tables ?s1) k \<noteq> None"
    using retry_has_row [OF wf1] by (fastforce simp: select_due_iff [OF wf1])
  obtain d2 where d2: "promote_all ?ys (length ?xs) ?s1 = ((length ?xs + length ?ys, None), ?s1\<lparr>tables := d2\<rparr>)"
    "\<forall>k. exec_of d2 k = (if k \<in> set ?ys then map_option (promoted_row (clock ?s1)) (exec_of (tables ?s1) k)
       else exec_of (tables ?s1) k)"
    "\<forall>k. retry_of d2 k = (if k \<in> set ?ys then None else retry_of (tables ?s1) k)"
    "lease_of d2 = lease_of (tables ?s1)"
    using promote_all_quiet [OF net1 select_due_distinct [OF wf1] rows1, of "length ?xs"] by blast
  have run: "run_scheduler_pass s = ((length ?xs + length ?ys, None), s\<lparr>tables := d2\<rparr>)"
    using assms(2) by (simp add: run_scheduler_pass_def query_rows_def d1(1) d2(1))
  have ex: "exec_of d2 k = map_option (after_pass ?now ?d k) (exec_of ?d k)" for k
    using lapsed_not_due [OF assms(1), of ?now k]
    by (cases "exec_of ?d k")
       (auto simp: d2(2) d1(2) due_ids [OF wf1] due expired_counters [OF assms(1)] after_pass_def
         retry_due_def)
  show ?thesis
    by (intro exI [of _ d2] conjI allI ex)
       (simp_all add: run expired_length [OF assms(1)] due_length [OF wf1] due d2(3,4) d1(3,4)
         due_ids [OF wf1] xs(1))
qed

text \<open>
  C15. Over a working connection a pass does exactly its duty: every running execution
  whose lease has lapsed loses the lease and is ready again, or failed for good when no
  attempt is left; every pending execution whose retry is due is ready and leaves the retry
  schedule; every other execution, lease and retry is as before; and the pass reports how
  many executions it changed.
\<close>

theorem scheduler_pass_duty:
  assumes "wf_db (tables s)" and "net s = []"
  shows "\<exists>d. run_scheduler_pass s =
      ((card {k. lapsed (clock s) (tables s) k} + card {k. retry_due (clock s) (tables s) k}, None),
       s\<lparr>tables := d\<rparr>) \<and>
    (\<forall>k. exec_of d k = map_option (after_pass (clock s) (tables s) k) (exec_of (tables s) k)) \<and>
    (\<forall>k. lease_of d k = (if lapsed (clock s) (tables s) k then None else lease_of (tables s) k)) \<and>
    (\<forall>k. retry_of d k = (if retry_due (clock s) (tables s) k then None else retry_of (tables s) k))"
  using assms by (rule pass_duty)

theorem scheduler_pass_duty_witness:
  "fst (run_scheduler_pass sc_lapsed) =
     (card {k. lapsed 31000000 (tables sc_lapsed) k} + card {k. retry_due 31000000 (tables sc_lapsed) k}, None) \<and>
   lapsed 31000000 (tables sc_lapsed) ''a'' \<and>
   lease_of (tables (snd (run_scheduler_pass sc_lapsed))) ''a'' = None"
proof -
  have n: "net sc_lapsed = []" "clock sc_lapsed = 31000000" by code_simp+
  have l: "lapsed 31000000 (tables sc_lapsed) ''a''" by code_simp
  obtain d where "run_scheduler_pass sc_lapsed =
      ((card {k. lapsed (clock sc_lapsed) (tables sc_lapsed) k} +
        card {k. retry_due (clock sc_lapsed) (tables sc_lapsed) k}, None), sc_lapsed\<lparr>tables := d\<rparr>)"
    "\<forall>k. lease_of d k = (if lapsed (clock sc_lapsed) (tables sc_lapsed) k then None
       else lease_of (tables sc_lapsed) k)"
    using scheduler_pass_duty [OF wf_sc_lapsed n(1)] by blast
  with l show ?thesis by (simp add: n(2))
qed

lemma lapsed_later: "lapsed now d k \<Longrightarrow> now \<le> now' \<Longrightarrow> lapsed now' d k"
  by (fastforce simp: lapsed_iff)

lemma retry_due_later: "retry_due now d k \<Longrightarrow> now \<le> now' \<Longrightarrow> retry_due now' d k"
  by (auto simp: retry_due_def split: option.splits)

definition undisturbed :: "db \<Rightarrow> db \<Rightarrow> exec_id \<Rightarrow> bool" where
  "undisturbed d d' k \<longleftrightarrow>
     exec_of d' k = exec_of d k \<and> lease_of d' k = lease_of d k \<and> retry_of d' k = retry_of d k"

lemma expire_phase:
  assumes "wf_db d" and "tables s1 = d" and "stale = take n (select_expired (clock s1) d)"
    and "expire_all stale c s1 = (r, s2)"
  shows "wf_db (tables s2) \<and> clock s1 \<le> clock s2 \<and>
    (\<forall>k. \<not> lapsed (clock s2) d k \<longrightarrow> undisturbed d (tables s2) k)"
proof -
  have sub: "set stale \<subseteq> set (select_expired (clock s1) d)"
    unfolding assms(3) by (rule set_take_subset)
  have dist: "distinct (map fst stale)"
    using select_expired_distinct [OF assms(1)] by (simp add: assms(3) take_map [symmetric])
  have "\<forall>x\<in>set stale. still_running (tables s1) x"
    using sub expired_still_running [OF assms(1)] assms(2) by blast
  then have "wf_db (tables s2)"
    using wf_expire_all [of s1 stale c] dist assms(1,2,4) by simp
  moreover have c: "clock s1 \<le> clock s2" using expire_all_clock [of s1 stale c] assms(4) by simp
  moreover have "undisturbed d (tables s2) k" if "\<not> lapsed (clock s2) d k" for k
  proof -
    have "k \<notin> fst ` set (select_expired (clock s1) d)"
      using that c lapsed_later expired_ids [OF assms(1)] by blast
    then have "k \<notin> fst ` set stale" using sub by blast
    from expire_all_elsewhere [OF this, of c s1] show ?thesis
      by (simp add: assms(2,4) undisturbed_def)
  qed
  ultimately show ?thesis by blast
qed

lemma promote_phase:
  assumes "wf_db d" and "tables s1 = d" and "due = take n (select_due (clock s1) d)"
    and "promote_all due c s1 = (r, s2)"
  shows "wf_db (tables s2) \<and> clock s1 \<le> clock s2 \<and>
    (\<forall>k. \<not> retry_due (clock s2) d k \<longrightarrow> undisturbed d (tables s2) k)"
proof -
  have sub: "set due \<subseteq> set (select_due (clock s1) d)"
    unfolding assms(3) by (rule set_take_subset)
  have dist: "distinct due" using select_due_distinct [OF assms(1)] by (simp add: assms(3))
  have "\<forall>x\<in>set due. retry_of (tables s1) x \<noteq> None"
    using sub select_due_iff [OF assms(1)] unfolding assms(2) by blast
  then have "wf_db (tables s2)"
    using wf_promote_all [of s1 due c] dist assms(1,2,4) by simp
  moreover have c: "clock s1 \<le> clock s2" using promote_all_clock [of s1 due c] assms(4) by simp
  moreover have "undisturbed d (tables s2) k" if "\<not> retry_due (clock s2) d k" for k
  proof -
    have "k \<notin> set (select_due (clock s1) d)"
      using that c retry_due_later due_ids [OF assms(1)] by blast
    then have "k \<notin> set due" using sub by blast
    from promote_all_elsewhere [OF this, of c s1] show ?thesis
      by (simp add: assms(2,4) undisturbed_def)
  qed
  ultimately show ?thesis by blast
qed

lemma undisturbed_trans:
  "undisturbed d d' k \<Longrightarrow> undisturbed d' d'' k \<Longrightarrow> undisturbed d d'' k"
  by (simp add: undisturbed_def)

lemma pass_ends:
  assumes "wf_db (tables s2)" and "\<forall>k. \<not> lapsed (clock s2) d k \<longrightarrow> undisturbed d (tables s2) k"
    and "tables s3 = tables s2" and "clock s2 \<le> clock s3"
    and "due = take n (select_due (clock s3) (tables s2))" and "promote_all due c s3 = (r, s')"
  shows "wf_db (tables s') \<and>
    (\<forall>k. \<not> lapsed (clock s') d k \<and> \<not> retry_due (clock s') d k \<longrightarrow> undisturbed d (tables s') k)"
proof -
  note ph = promote_phase [OF assms(1,3,5,6)]
  have c: "clock s2 \<le> clock s'" using assms(4) ph by simp
  have "undisturbed d (tables s') k" if "\<not> lapsed (clock s') d k" and "\<not> retry_due (clock s') d k" for k
  proof -
    have u: "undisturbed d (tables s2) k" using that(1) c assms(2) lapsed_later by blast
    then have "retry_due (clock s') (tables s2) k = retry_due (clock s') d k"
      by (simp add: retry_due_def undisturbed_def)
    with that(2) ph have "undisturbed (tables s2) (tables s') k" by blast
    with u show ?thesis by (rule undisturbed_trans)
  qed
  with ph show ?thesis by blast
qed

lemma pass_disturbs:
  assumes "wf_db (tables s)" and "run_scheduler_pass s = (r, s')"
  shows "wf_db (tables s') \<and>
    (\<forall>k. \<not> lapsed (clock s') (tables s) k \<and> \<not> retry_due (clock s') (tables s) k \<longrightarrow>
       undisturbed (tables s) (tables s') k)"
proof -
  let ?d = "tables s"
  have same: ?thesis if "wf_db (tables s')" "tables s' = ?d"
    using that by (simp add: undisturbed_def)
  obtain q1 s1 where q1: "query_rows select_expired s = (q1, s1)" by force
  note a1 = query_rows_answer [OF q1]
  show ?thesis
  proof (cases q1)
    case (Inl e)
    with assms q1 a1(1) show ?thesis by (intro same) (auto simp: run_scheduler_pass_def)
  next
    case (Inr p1)
    obtain stale e1 where p1: "p1 = (stale, e1)" by force
    obtain n1 where n1: "stale = take n1 (select_expired (clock s1) ?d)"
      using a1(3) Inr p1 by blast
    obtain r2 s2 where x: "expire_all stale 0 s1 = (r2, s2)"
      by (cases "expire_all stale 0 s1") auto
    note ph1 = expire_phase [OF assms(1) a1(1) n1 x]
    show ?thesis
    proof (cases "snd r2")
      case (Some e)
      with assms(2) q1 Inr p1 x ph1 show ?thesis
        by (cases r2) (auto simp: run_scheduler_pass_def)
    next
      case None
      then obtain c2 where r2: "r2 = (c2, None)" by (cases r2) auto
      obtain q3 s3 where q3: "query_rows select_due s2 = (q3, s3)" by force
      note a3 = query_rows_answer [OF q3]
      show ?thesis
      proof (cases q3)
        case (Inl e)
        with assms(2) q1 Inr p1 x r2 q3 have "s' = s3"
          by (auto simp: run_scheduler_pass_def)
        with ph1 a3(1,2) show ?thesis using lapsed_later by metis
      next
        case q: (Inr p3)
        obtain due e3 where p3: "p3 = (due, e3)" by force
        obtain n3 where n3: "due = take n3 (select_due (clock s3) (tables s2))"
          using a3(3) q p3 by blast
        have "promote_all due c2 s3 = (r, s')"
          using assms(2) q1 Inr p1 x r2 q3 q p3 by (simp add: run_scheduler_pass_def)
        with pass_ends [OF conjunct1 [OF ph1] _ a3(1,2) n3] ph1 show ?thesis by blast
      qed
    qed
  qed
qed

lemma scheduler_pass_wf: "wf_db (tables s) \<Longrightarrow> run_scheduler_pass s = (r, s') \<Longrightarrow> wf_db (tables s')"
  using pass_disturbs by blast

text \<open>
  C16. Over any connection, with errors and replies lost at any point, a pass of the only
  scheduler keeps the store well-formed and disturbs no execution that still has time: an
  execution whose lease has not lapsed and whose retry is not due when the pass ends keeps
  its row, its lease and its retry entry. In particular a completed execution stays
  completed.
\<close>

theorem scheduler_pass_safe:
  assumes "wf_db (tables s)" and "run_scheduler_pass s = (r, s')"
  shows "wf_db (tables s') \<and>
    (\<forall>k. \<not> lapsed (clock s') (tables s) k \<and> \<not> retry_due (clock s') (tables s) k \<longrightarrow>
       undisturbed (tables s) (tables s') k)"
  using assms by (rule pass_disturbs)

theorem scheduler_pass_safe_witness:
  "wf_db (tables (snd (run_scheduler_pass sc_claimed))) \<and>
   lease_of (tables (snd (run_scheduler_pass (sc_claimed\<lparr>net := [(0, Fine), (5, Unacked ''reset'')]\<rparr>)))) ''a'' =
     lease_of (tables sc_claimed) ''a''"
proof -
  let ?s = "sc_claimed\<lparr>net := [(0, Fine), (5, Unacked ''reset'')]\<rparr>"
  have wf: "wf_db (tables ?s)" using wf_sc_claimed by simp
  have l: "\<not> lapsed (clock (snd (run_scheduler_pass ?s))) (tables ?s) ''a''"
    and r: "\<not> retry_due (clock (snd (run_scheduler_pass ?s))) (tables ?s) ''a''" by code_simp+
  have "undisturbed (tables ?s) (tables (snd (run_scheduler_pass ?s))) ''a''"
    using scheduler_pass_safe [OF wf, of "fst (run_scheduler_pass ?s)" "snd (run_scheduler_pass ?s)"] l r
    by simp
  moreover have "wf_db (tables (snd (run_scheduler_pass sc_claimed)))"
    using scheduler_pass_safe [OF wf_sc_claimed, of "fst (run_scheduler_pass sc_claimed)"
        "snd (run_scheduler_pass sc_claimed)"] by simp
  ultimately show ?thesis by (simp add: undisturbed_def)
qed

text \<open>
  A reply that breaks off while the rows are read goes unnoticed: the loops do not ask
  for \<open>rows.Err()\<close>, so a pass whose two queries both fail that way reports success and no
  change, however much work there was.
\<close>

theorem scheduler_pass_swallows_error:
  assumes "net s = (d1, Cut 0 m1) # (d2, Cut 0 m2) # rest"
  shows "run_scheduler_pass s = ((0, None), s\<lparr>clock := clock s + int d1 + int d2, net := rest\<rparr>)"
  using assms by (simp add: run_scheduler_pass_def query_rows_def arrive_def)

theorem scheduler_pass_swallows_error_witness:
  "run_scheduler_pass (sc_lapsed\<lparr>net := [(0, Cut 0 ''reset''), (0, Cut 0 ''reset'')]\<rparr>) =
    ((0, None), sc_lapsed) \<and> lapsed (clock sc_lapsed) (tables sc_lapsed) ''a''"
proof -
  have l: "lapsed (clock sc_lapsed) (tables sc_lapsed) ''a''" by code_simp
  have n: "sc_lapsed\<lparr>net := []\<rparr> = sc_lapsed" by code_simp
  show ?thesis
    using scheduler_pass_swallows_error
      [of "sc_lapsed\<lparr>net := [(0, Cut 0 ''reset''), (0, Cut 0 ''reset'')]\<rparr>" 0 "''reset''" 0 "''reset''" "[]"]
      l n by simp
qed

section \<open>The backoff of a retry\<close>

text \<open>
  C36. The backoff doubles with every attempt as long as the limit of attempts keeps the
  attempt number below 34: a failure report that leaves attempts schedules the retry
  \<open>2 ^ attempts\<close> seconds after the report, and no pass promotes it before that time.
\<close>

theorem retry_waits_out_backoff:
  assumes "wf_db (tables s)" and "fail eid tok w msg s = (Inr (), s')"
    and "exec_of (tables s) eid = Some e" and "e_attempts e < e_max_attempts e" and "e_attempts e \<le> 33"
  shows "\<exists>now. clock s \<le> now \<and> now \<le> clock s' \<and>
    (\<forall>t. retry_due t (tables s') eid \<longleftrightarrow> now + 2 ^ nat (e_attempts e) * 1000000 \<le> t)"
proof -
  from failing.answer [OF assms(2)] obtain now
    where n: "clock s \<le> now" "now \<le> clock s'"
      and eff: "fail_effect eid tok w msg now (tables s) = (Inr (), tables s')" by auto
  from eff assms(3) have t: "tables s' = failed_db now e w tok msg (tables s)"
    by (auto simp: fail_effect_def split: if_splits)
  have "0 \<le> e_attempts e"
    using wf_db_row [OF assms(1,3)] by (simp add: coherent_row_def)
  with assms(5) have b: "backoff_seconds (e_attempts e) = 2 ^ nat (e_attempts e)"
    by (rule backoff_pow2 [rotated])
  have "retry_due u (tables s') eid \<longleftrightarrow> now + 2 ^ nat (e_attempts e) * 1000000 \<le> u" for u
    using assms(4) exec_of_id [OF assms(3)]
    by (simp add: retry_due_def t effect_simps lease_until_def b)
  with n show ?thesis by blast
qed

theorem retry_waits_out_backoff_witness:
  "\<not> retry_due 1999999 (tables sc_failed) ''a'' \<and> retry_due 2000000 (tables sc_failed) ''a''"
proof -
  have run: "fail ''a'' 1 ''w1'' ''boom'' sc_claimed = (Inr (), sc_failed)" by code_simp
  have "map_option (\<lambda>e. (e_attempts e, e_max_attempts e)) (exec_of (tables sc_claimed) ''a'') = Some (1, 3)"
    by code_simp
  then obtain e where e: "exec_of (tables sc_claimed) ''a'' = Some e" "e_attempts e = 1" "e_max_attempts e = 3"
    by auto
  have c: "clock sc_claimed = 0" "clock sc_failed = 0" by code_simp+
  obtain now where "clock sc_claimed \<le> now" "now \<le> clock sc_failed"
    "\<forall>t. retry_due t (tables sc_failed) ''a'' \<longleftrightarrow> now + 2 ^ nat (e_attempts e) * 1000000 \<le> t"
    using retry_waits_out_backoff [OF wf_sc_claimed run e(1)] e(2,3) by auto
  with c e(2) show ?thesis by simp
qed

text \<open>
  At attempt 34 the backoff overflows: \<open>time.Duration(1<<34) * time.Second\<close> exceeds
  \<open>int64\<close> and comes out negative, so the retry is scheduled forty years in the past and
  is due at once.
\<close>

theorem backoff_overflow_retries_at_once:
  assumes "fail eid tok w msg s = (Inr (), s')"
    and "exec_of (tables s) eid = Some e" and "e_attempts e = 34" and "34 < e_max_attempts e"
  shows "retry_due (clock s') (tables s') eid"
proof -
  from failing.answer [OF assms(1)] obtain now
    where n: "clock s \<le> now" "now \<le> clock s'"
      and eff: "fail_effect eid tok w msg now (tables s) = (Inr (), tables s')" by auto
  from eff assms(2) have t: "tables s' = failed_db now e w tok msg (tables s)"
    by (auto simp: fail_effect_def split: if_splits)
  show ?thesis
    using assms(3,4) exec_of_id [OF assms(2)] n(2) backoff_34
    by (simp add: retry_due_def t effect_simps lease_until_def)
qed

text \<open>The claim of attempt 34 of 40.\<close>

definition sc_try_34 :: st where
  "sc_try_34 = sc_claimed\<lparr>tables := (tables sc_claimed)\<lparr>db_executions :=
     map (\<lambda>e. e\<lparr>e_attempts := 34, e_max_attempts := 40\<rparr>) (db_executions (tables sc_claimed))\<rparr>\<rparr>"

theorem backoff_overflow_retries_at_once_witness:
  "retry_due (clock sc_try_34) (tables (snd (fail ''a'' 1 ''w'' ''boom'' sc_try_34))) ''a''"
proof -
  let ?s = "snd (fail ''a'' 1 ''w'' ''boom'' sc_try_34)"
  have "fst (fail ''a'' 1 ''w'' ''boom'' sc_try_34) = Inr ()" by code_simp
  then have run: "fail ''a'' 1 ''w'' ''boom'' sc_try_34 = (Inr (), ?s)" by (metis prod.collapse)
  have "map_option (\<lambda>e. (e_attempts e, e_max_attempts e)) (exec_of (tables sc_try_34) ''a'') = Some (34, 40)"
    by code_simp
  then obtain e where e: "exec_of (tables sc_try_34) ''a'' = Some e" "e_attempts e = 34" "e_max_attempts e = 40"
    by auto
  have "clock ?s = clock sc_try_34" by code_simp
  with backoff_overflow_retries_at_once [OF run e(1,2)] e(3) show ?thesis by simp
qed

end
