(* ===== verification/Tools.thy ===== *)
theory Tools
  imports Scenario
begin

text \<open>
  The tool registry: \<open>SeedTools\<close> of \<open>internal/store/query.go\<close>. A struct \<open>Tool\<close> given to
  it is a \<open>tool\<close> record whose identifier and time of creation the database replaces.
\<close>

definition schema_or_default :: "string \<Rightarrow> string" where
  "schema_or_default schema = (if schema = [] then ''{\"type\":\"object\"}'' else schema)"

text \<open>
  \<open>INSERT INTO tools .. ON CONFLICT (name) DO NOTHING\<close>; \<open>uid\<close> is the identifier
  \<open>gen_random_uuid()\<close> drew.
\<close>

definition insert_tool :: "(string \<Rightarrow> string option) \<Rightarrow> string \<Rightarrow> tool \<Rightarrow> time \<Rightarrow> unit stmt" where
  "insert_tool jsonb uid t now d =
     (case jsonb (schema_or_default (t_input_schema t)) of
        None \<Rightarrow> (Inl (SqlState ''22P02''), d)
      | Some doc \<Rightarrow>
          if row_of t_name (db_tools d) (t_name t) \<noteq> None then (Inr (), d)
          else if row_of t_id (db_tools d) uid \<noteq> None then (Inl (SqlState ''23505''), d)
          else (Inr (), d\<lparr>db_tools := db_tools d @
                 [t\<lparr>t_id := uid, t_input_schema := doc, t_created_at := now\<rparr>]\<rparr>))"

fun seed_tools :: "(string \<Rightarrow> string option) \<Rightarrow> (string \<times> tool) list \<Rightarrow> unit prog" where
  "seed_tools jsonb [] = prog_return ()"
| "seed_tools jsonb ((uid, t) # rest) =
     prog_bind (auto_stmt (insert_tool jsonb uid t)) (\<lambda>_. seed_tools jsonb rest)"

definition with_tools :: "tool list \<Rightarrow> db \<Rightarrow> db" where
  "with_tools ts d = d\<lparr>db_tools := db_tools d @ ts\<rparr>"

lemma insert_tool_adds:
  "\<exists>ts. snd (insert_tool jsonb uid t now d) = with_tools ts d \<and>
    (\<forall>x\<in>set ts. t_name x = t_name t \<and> row_of t_name (db_tools d) (t_name t) = None)"
  by (auto simp: insert_tool_def with_tools_def split: option.split
      intro: exI [of _ "[]"] exI [of _ "[_]"])

lemma row_of_with_tools:
  "row_of t_name (db_tools (with_tools ts d)) k =
    (case row_of t_name (db_tools d) k of None \<Rightarrow> row_of t_name ts k | Some t \<Rightarrow> Some t)"
  by (simp add: with_tools_def row_of_append)

lemma wf_with_tools:
  assumes "wf_db d"
  shows "wf_db (with_tools ts d)"
proof (rule wf_dbI)
  show "wf_keys (with_tools ts d)"
    using wf_dbD(1) [OF assms] unfolding wf_keys_def row_of_with_tools
    by (auto simp: with_tools_def split: option.split)
  show "wf_log (with_tools ts d)"
    using wf_dbD(2) [OF assms] by (simp add: wf_log_def with_tools_def)
  show "coherent_at (with_tools ts d) k" for k
    using wf_dbD(3) [OF assms, of k]
    by (simp add: coherent_at_def with_tools_def exec_of_def lease_of_def retry_of_def log_of_def)
qed

lemma with_tools_append: "with_tools us (with_tools ts d) = with_tools (ts @ us) d"
  by (simp add: with_tools_def)

lemma with_tools_Nil: "with_tools [] d = d"
  by (simp add: with_tools_def)

lemma auto_stmt_tables:
  "\<exists>now\<ge>clock s. tables (snd (auto_stmt q s)) = tables s \<or>
     tables (snd (auto_stmt q s)) = snd (q now (tables s))"
  using exec_stmt_tables [of "q (clock (snd (arrive s)))" s] arrive_clock [of s]
  unfolding auto_stmt_def by blast

lemma seed_step_adds:
  "\<exists>ts. tables (snd (auto_stmt (insert_tool jsonb uid t) s)) = with_tools ts (tables s)"
  using auto_stmt_tables [of s "insert_tool jsonb uid t"] insert_tool_adds with_tools_Nil
  by metis

lemma wf_seed_step: "wf_db (tables s) \<Longrightarrow> wf_db (tables (snd (auto_stmt (insert_tool jsonb uid t) s)))"
  using seed_step_adds [of jsonb uid t s] wf_with_tools by metis

lemma auto_stmt_ok:
  assumes "auto_stmt q s = (Inr v, s')"
  shows "\<exists>now\<ge>clock s. q now (tables s) = (Inr v, tables s')"
proof -
  obtain f s1 where a: "arrive s = (f, s1)" by force
  with arrive_tables [of s] arrive_clock [of s] have t: "tables s1 = tables s" "clock s \<le> clock s1"
    by simp_all
  then show ?thesis
    using assms by (cases f) (auto simp: auto_stmt_def exec_stmt_def a split: prod.splits sum.splits)
qed

lemma insert_tool_ok:
  assumes "insert_tool jsonb uid t now d = (Inr (), d')"
  shows "\<exists>ts. d' = with_tools ts d \<and> row_of t_name (db_tools d') (t_name t) \<noteq> None"
proof -
  obtain ts where "snd (insert_tool jsonb uid t now d) = with_tools ts d"
    using insert_tool_adds by blast
  then have ts: "d' = with_tools ts d" using assms by simp
  have "row_of t_name (db_tools d') (t_name t) \<noteq> None"
    using assms by (auto simp: insert_tool_def row_of_append row_of_Cons split: option.splits if_splits)
  with ts show ?thesis by blast
qed

lemma seed_tools_answer:
  "seed_tools jsonb us s = (Inr (), s') \<Longrightarrow>
    \<exists>ts. tables s' = with_tools ts (tables s) \<and>
      (\<forall>(uid, t)\<in>set us. row_of t_name (db_tools (tables s')) (t_name t) \<noteq> None)"
proof (induction us arbitrary: s)
  case Nil
  then show ?case by (auto simp: prog_return_def intro: exI [of _ "[]"] simp: with_tools_Nil)
next
  case (Cons u us)
  obtain uid t where u: "u = (uid, t)" by force
  from Cons.prems obtain s1 where s1: "auto_stmt (insert_tool jsonb uid t) s = (Inr (), s1)"
    and rest: "seed_tools jsonb us s1 = (Inr (), s')"
    by (auto simp: u prog_bind_def split: prod.splits sum.splits)
  obtain now where "insert_tool jsonb uid t now (tables s) = (Inr (), tables s1)"
    using auto_stmt_ok [OF s1] by blast
  then obtain ts1 where t1: "tables s1 = with_tools ts1 (tables s)"
    "row_of t_name (db_tools (tables s1)) (t_name t) \<noteq> None" using insert_tool_ok by blast
  obtain ts2 where t2: "tables s' = with_tools ts2 (tables s1)"
    "\<forall>(uid, t)\<in>set us. row_of t_name (db_tools (tables s')) (t_name t) \<noteq> None"
    using Cons.IH [OF rest] by blast
  have "row_of t_name (db_tools (tables s')) (t_name t) \<noteq> None"
    using t1(2) by (auto simp: t2(1) row_of_with_tools)
  with t2 t1(1) show ?case
    by (auto simp: u with_tools_append intro!: exI [of _ "ts1 @ ts2"])
qed

text \<open>
  Seeding registers every tool it was given and never changes one that is there: when
  it succeeds each given name is registered, every registered tool keeps its row (its
  limits included, even when the seed gives others), and nothing else is touched.
\<close>

theorem seed_tools_registers:
  assumes "seed_tools jsonb us s = (Inr (), s')"
  shows "\<exists>ts. tables s' = (tables s)\<lparr>db_tools := db_tools (tables s) @ ts\<rparr> \<and>
    (\<forall>n t. row_of t_name (db_tools (tables s)) n = Some t \<longrightarrow>
       row_of t_name (db_tools (tables s')) n = Some t) \<and>
    (\<forall>(uid, t)\<in>set us. row_of t_name (db_tools (tables s')) (t_name t) \<noteq> None)"
proof -
  obtain ts where ts: "tables s' = with_tools ts (tables s)"
    "\<forall>(uid, t)\<in>set us. row_of t_name (db_tools (tables s')) (t_name t) \<noteq> None"
    using seed_tools_answer [OF assms] by blast
  have "row_of t_name (db_tools (tables s')) n = Some t"
    if "row_of t_name (db_tools (tables s)) n = Some t" for n t
    using that by (simp add: ts(1) row_of_with_tools)
  with ts show ?thesis unfolding with_tools_def by blast
qed

theorem seed_tools_registers_witness:
  "row_of t_name (db_tools (tables (snd (seed_tools Some
      [(''u'', demo_tool\<lparr>t_max_attempts := 9\<rparr>), (''v'', demo_tool\<lparr>t_name := ''call_api''\<rparr>)] sc_start))))
     ''slow_compute'' = Some demo_tool"
proof -
  let ?us = "[(''u'', demo_tool\<lparr>t_max_attempts := 9\<rparr>), (''v'', demo_tool\<lparr>t_name := ''call_api''\<rparr>)]"
  have "fst (seed_tools Some ?us sc_start) = Inr ()" by code_simp
  then have run: "seed_tools Some ?us sc_start = (Inr (), snd (seed_tools Some ?us sc_start))"
    by (metis prod.collapse)
  have "row_of t_name (db_tools (tables sc_start)) ''slow_compute'' = Some demo_tool" by code_simp
  then show ?thesis using seed_tools_registers [OF run] by blast
qed

end
