(* ===== verification/Lease_Machine.thy ===== *)
theory Lease_Machine
  imports Store_Safety
begin

text \<open>
  The abstract specification of the store: each execution is a small state machine, a job
  that is queued, held under a lease, waiting for a retry, or done. \<open>client_step\<close> lists what
  submissions and workers may do at a time \<open>t\<close>, \<open>reaper_step\<close> what the scheduler may do.
  The lemmas show that every operation of the store changes the view of one execution by
  such a step or not at all.
\<close>

datatype job =
    Queued int int                  \<comment> \<open>attempts made, limit of attempts\<close>
  | Held int int int time           \<comment> \<open>attempts, limit, fencing token, expiry\<close>
  | Waiting int int time            \<comment> \<open>attempts, limit, when the retry is due\<close>
  | Succeeded "string option"
  | Exhausted "string option"

definition job_of :: "execution \<Rightarrow> lease option \<Rightarrow> retry option \<Rightarrow> job" where
  "job_of e l r = (case e_status e of
       Ready \<Rightarrow> Queued (e_attempts e) (e_max_attempts e)
     | Running \<Rightarrow> (case l of
           Some x \<Rightarrow> Held (e_attempts e) (e_max_attempts e) (l_fencing_token x) (l_lease_expires x)
         | None \<Rightarrow> Queued (e_attempts e) (e_max_attempts e))
     | Pending \<Rightarrow> (case r of
           Some x \<Rightarrow> Waiting (e_attempts e) (e_max_attempts e) (r_retry_at x)
         | None \<Rightarrow> Queued (e_attempts e) (e_max_attempts e))
     | Completed \<Rightarrow> Succeeded (e_result e)
     | Failed \<Rightarrow> Exhausted (e_error_message e)
     | Cancelled \<Rightarrow> Exhausted (e_error_message e))"

definition job_view :: "db \<Rightarrow> exec_id \<Rightarrow> job option" where
  "job_view d k = map_option (\<lambda>e. job_of e (lease_of d k) (retry_of d k)) (exec_of d k)"

inductive client_step :: "time \<Rightarrow> job option \<Rightarrow> job option \<Rightarrow> bool" where
  accept: "client_step t None (Some (Queued 0 m))"
| grant: "client_step t (Some (Queued a m)) (Some (Held (a + 1) m tok expires))"
| renew: "t < expires \<Longrightarrow> client_step t (Some (Held a m tok expires)) (Some (Held a m tok expires'))"
| finish: "t < expires \<Longrightarrow> client_step t (Some (Held a m tok expires)) (Some (Succeeded res))"
| report: "t < expires \<Longrightarrow> a < m \<Longrightarrow>
    client_step t (Some (Held a m tok expires)) (Some (Waiting a m (t + backoff_seconds a * 1000000)))"
| give_up: "t < expires \<Longrightarrow> m \<le> a \<Longrightarrow>
    client_step t (Some (Held a m tok expires)) (Some (Exhausted (Some msg)))"

inductive reaper_step :: "time \<Rightarrow> job option \<Rightarrow> job option \<Rightarrow> bool" where
  lapse: "expires < t \<Longrightarrow> a < m \<Longrightarrow>
    reaper_step t (Some (Held a m tok expires)) (Some (Queued a m))"
| die: "expires < t \<Longrightarrow> m \<le> a \<Longrightarrow>
    reaper_step t (Some (Held a m tok expires)) (Some (Exhausted (Some ''lease expired after max attempts'')))"
| due: "at \<le> t \<Longrightarrow> reaper_step t (Some (Waiting a m at)) (Some (Queued a m))"

inductive_cases client_step_Held: "client_step t (Some (Held a m tok expires)) j"
inductive_cases client_step_Waiting: "client_step t (Some (Waiting a m at)) j"
inductive_cases client_step_Succeeded: "client_step t (Some (Succeeded res)) j"
inductive_cases client_step_Exhausted: "client_step t (Some (Exhausted msg)) j"
inductive_cases reaper_step_Succeeded: "reaper_step t (Some (Succeeded res)) j"
inductive_cases reaper_step_Exhausted: "reaper_step t (Some (Exhausted msg)) j"

lemmas done_cases = client_step_Succeeded client_step_Exhausted
  reaper_step_Succeeded reaper_step_Exhausted

lemma job_of_touched [simp]: "job_of (e\<lparr>e_updated_at := t\<rparr>) l r = job_of e l r"
  by (simp add: job_of_def split: status.split option.split)

lemma job_view_cong:
  "exec_of d' k = exec_of d k \<Longrightarrow> lease_of d' k = lease_of d k \<Longrightarrow> retry_of d' k = retry_of d k \<Longrightarrow>
    job_view d' k = job_view d k"
  by (simp add: job_view_def)

lemma job_view_same_data: "same_data d d' \<Longrightarrow> job_view d' = job_view d"
  using same_dataD [of d d'] by (simp add: job_view_def fun_eq_iff)

lemma job_view_log_event [simp]: "job_view (log_event now eid ty w tok pl d) = job_view d"
  by (simp add: job_view_def fun_eq_iff)

lemma job_view_seq [simp]: "job_view (d\<lparr>db_event_seq := n\<rparr>) = job_view d"
  by (simp add: job_view_def exec_of_def lease_of_def retry_of_def fun_eq_iff)

lemma job_view_held:
  assumes "wf_db d" and "exec_of d k = Some e" and "live_lease now d k tok"
  shows "\<exists>expires. now < expires \<and>
    job_view d k = Some (Held (e_attempts e) (e_max_attempts e) tok expires)"
proof -
  from assms(3) live_lease_iff [OF assms(1)] obtain l
    where l: "lease_of d k = Some l" "l_fencing_token l = tok" "now < l_lease_expires l" by blast
  obtain e' where "exec_of d k = Some e'" "e_status e' = Running"
    using running_row [OF assms(1) l(1)] .
  with assms(2) have "e_status e = Running" by simp
  with l assms(2) show ?thesis by (simp add: job_view_def job_of_def)
qed

section \<open>Operations are steps of the machine\<close>

abbreviation client_or_same :: "time \<Rightarrow> job option \<Rightarrow> job option \<Rightarrow> bool" where
  "client_or_same t j j' \<equiv> j' = j \<or> client_step t j j'"

lemma submit_view:
  assumes "wf_db d"
  shows "client_or_same now (job_view d k) (job_view (snd (submit_effect jsonb uid ns name key args now d)) k)"
proof -
  have new: "client_or_same now (job_view d k)
      (job_view (set_status now uid Ready
         (log_event now uid Ev_submitted [] None pl
           (d\<lparr>db_executions := db_executions d @ [new_execution now uid ns name key doc m]\<rparr>))) k)"
    if "exec_of d uid = None" for doc m pl
  proof (cases "k = uid")
    case True
    with that show ?thesis
      by (auto simp: job_view_def exec_of_insert new_execution_def job_of_def client_step.simps)
  next
    case False
    with that show ?thesis
      by (auto simp: job_view_def exec_of_insert split: option.split)
  qed
  have old: "job_view (touch_execution now eid d) k = job_view d k" for eid
    by (cases "exec_of d k") (auto simp: job_view_def)
  show ?thesis
    using new by (simp add: submit_effect_def old split: option.split)
qed

lemma claim_view:
  assumes "wf_db d"
  shows "client_or_same now (job_view d k) (job_view (snd (claim_effect locked w secs now d)) k)"
proof (cases "select_ready locked d")
  case (Some e)
  note row = select_ready_row [OF assms Some] and st = select_readyD(2) [OF Some]
  show ?thesis
  proof (cases "k = e_id e")
    case True
    with row st show ?thesis
      by (auto simp: claim_effect_def Some job_view_def effect_simps job_of_def claimed_row_def
          client_step.simps)
  next
    case False
    with row show ?thesis by (auto simp: claim_effect_def Some job_view_def effect_simps)
  qed
qed (simp add: claim_effect_def)

lemma heartbeat_view:
  assumes "wf_db d"
  shows "client_or_same now (job_view d k) (job_view (snd (heartbeat_effect eid tok secs now d)) k)"
proof (cases "k = eid \<and> live_lease now d eid tok \<and> exec_of d eid \<noteq> None")
  case True
  then obtain e where e: "exec_of d eid = Some e" by blast
  obtain expires where h: "now < expires"
    "job_view d eid = Some (Held (e_attempts e) (e_max_attempts e) tok expires)"
    using job_view_held [OF assms e, of now tok] True by blast
  have st: "e_status e = Running"
    using True e live_lease_iff [OF assms] running_row [OF assms] by (metis option.inject)
  have "job_view (extended_db now eid tok secs d) eid =
    Some (Held (e_attempts e) (e_max_attempts e) tok (lease_until now secs))"
    using e st True live_lease_iff [OF assms] by (auto simp: job_view_def effect_simps job_of_def)
  with h True e show ?thesis by (auto simp: heartbeat_effect_def client_step.simps)
next
  case False
  then show ?thesis
    by (auto simp: heartbeat_effect_def job_view_def effect_simps)
qed

lemma complete_view:
  assumes "wf_db d"
  shows "client_or_same now (job_view d k) (job_view (snd (complete_effect jsonb eid tok w res now d)) k)"
proof (cases "k = eid \<and> live_lease now d eid tok \<and> exec_of d eid \<noteq> None")
  case True
  then obtain e where e: "exec_of d eid = Some e" by blast
  from True e job_view_held [OF assms e, of now tok] show ?thesis
    by (auto simp: complete_effect_def split: option.split)
      (auto simp: job_view_def effect_simps job_of_def completed_row_def client_step.simps)
next
  case False
  then show ?thesis
    by (auto simp: complete_effect_def job_view_def effect_simps
        split: option.split)
qed

lemma fail_view:
  assumes "wf_db d"
  shows "client_or_same now (job_view d k) (job_view (snd (fail_effect eid tok w msg now d)) k)"
proof (cases "k = eid \<and> live_lease now d eid tok \<and> exec_of d eid \<noteq> None")
  case True
  then obtain e where e: "exec_of d eid = Some e" by blast
  obtain expires where h: "now < expires"
    "job_view d eid = Some (Held (e_attempts e) (e_max_attempts e) tok expires)"
    using job_view_held [OF assms e, of now tok] True by blast
  have "job_view (failed_db now e w tok msg d) eid =
    (if e_attempts e < e_max_attempts e
     then Some (Waiting (e_attempts e) (e_max_attempts e) (now + backoff_seconds (e_attempts e) * 1000000))
     else Some (Exhausted (Some msg)))"
    using e exec_of_id [OF e]
    by (simp add: job_view_def effect_simps job_of_def failed_row_def lease_until_def)
  then have "client_step now (job_view d eid) (job_view (failed_db now e w tok msg d) eid)"
    using h by (auto simp: client_step.simps)
  with True e show ?thesis by (simp add: fail_effect_def)
next
  case False
  then show ?thesis
    using exec_of_id [of d eid]
    by (auto simp: fail_effect_def job_view_def effect_simps
        split: option.split)
qed

lemma expire_view:
  assumes "job_view d eid = Some (Held n m tok expires)" and "expires < now"
  shows "reaper_step now (job_view d eid) (job_view (expired_db now eid n m d) eid)"
proof -
  obtain e where e: "exec_of d eid = Some e" "job_of e (lease_of d eid) (retry_of d eid) = Held n m tok expires"
    using assms(1) by (auto simp: job_view_def)
  then have "e_attempts e = n \<and> e_max_attempts e = m"
    by (auto simp: job_of_def split: status.splits option.splits)
  with e(1) assms show ?thesis
    by (auto simp: job_view_def [of "expired_db now eid n m d"] effect_simps job_of_def reaper_step.simps)
qed

lemma promote_view:
  assumes "job_view d eid = Some (Waiting n m at)" and "at \<le> now"
  shows "reaper_step now (job_view d eid) (job_view (promoted_db now eid d) eid)"
proof -
  obtain e where e: "exec_of d eid = Some e" "job_of e (lease_of d eid) (retry_of d eid) = Waiting n m at"
    using assms(1) by (auto simp: job_view_def)
  then have "e_attempts e = n \<and> e_max_attempts e = m"
    by (auto simp: job_of_def split: status.splits option.splits)
  with e(1) assms show ?thesis
    by (auto simp: job_view_def [of "promoted_db now eid d"] effect_simps job_of_def reaper_step.simps)
qed

end
