(* ===== verification/System.thy ===== *)
theory System
  imports Scheduler_Pass Tools Lease_Machine
begin

text \<open>
  The running system: clients, workers and schedulers that share one database. A step is one
  operation of a client or worker, one transaction or query of a scheduler pass, or the
  passing of time with any further network plan; steps of different processes interleave in
  any order. The schedulers keep their own list of rows between the query and the
  transactions that act on it, as the loops of \<open>RunSchedulerPass\<close> do.
\<close>

section \<open>Requests of clients and workers\<close>

datatype request =
    Submit exec_id string string string raw_message
  | Claim "exec_id list" string int
  | Heartbeat exec_id int int
  | Complete exec_id int string raw_message
  | Fail exec_id int string string

fun perform :: "(string \<Rightarrow> string option) \<Rightarrow> request \<Rightarrow> st \<Rightarrow> st" where
  "perform jsonb (Submit uid ns name key args) s = snd (submit jsonb uid ns name key args s)"
| "perform jsonb (Claim locked w secs) s = snd (claim locked w secs s)"
| "perform jsonb (Heartbeat eid tok secs) s = snd (heartbeat eid tok secs s)"
| "perform jsonb (Complete eid tok w res) s = snd (complete jsonb eid tok w res s)"
| "perform jsonb (Fail eid tok w msg) s = snd (fail eid tok w msg s)"

text \<open>The effect a request has when it takes effect.\<close>

fun request_effect :: "(string \<Rightarrow> string option) \<Rightarrow> request \<Rightarrow> time \<Rightarrow> db \<Rightarrow> db" where
  "request_effect jsonb (Submit uid ns name key args) now d = snd (submit_effect jsonb uid ns name key args now d)"
| "request_effect jsonb (Claim locked w secs) now d = snd (claim_effect locked w secs now d)"
| "request_effect jsonb (Heartbeat eid tok secs) now d = snd (heartbeat_effect eid tok secs now d)"
| "request_effect jsonb (Complete eid tok w res) now d = snd (complete_effect jsonb eid tok w res now d)"
| "request_effect jsonb (Fail eid tok w msg) now d = snd (fail_effect eid tok w msg now d)"

lemma perform_atomic:
  "same_data (tables s) (tables (perform jsonb q s)) \<or>
    (\<exists>now. clock s \<le> now \<and> now \<le> clock (perform jsonb q s) \<and>
       tables (perform jsonb q s) = request_effect jsonb q now (tables s))"
proof (cases q)
  case (Submit uid ns name key args)
  then show ?thesis using submitting.atomic [of s jsonb uid ns name key args] by simp
next
  case (Claim locked w secs)
  then show ?thesis using claiming.atomic [of s locked w secs] by simp
next
  case (Heartbeat eid tok secs)
  then show ?thesis using heartbeating.atomic [of s eid tok secs] by simp
next
  case (Complete eid tok w res)
  then show ?thesis using completing.atomic [of s jsonb eid tok w res] by simp
next
  case (Fail eid tok w msg)
  then show ?thesis using failing.atomic [of s eid tok w msg] by simp
qed

lemma perform_clock: "clock s \<le> clock (perform jsonb q s)"
  by (cases q) (simp_all add: submitting.clock_mono claiming.clock_mono heartbeating.clock_mono
      completing.clock_mono failing.clock_mono)

lemma perform_log: "prefix (db_events (tables s)) (db_events (tables (perform jsonb q s)))"
  by (cases q) (simp_all add: submit_op.log_prefix claim_op.log_prefix heartbeat_op.log_prefix
      complete_op.log_prefix fail_op.log_prefix)

lemma wf_perform: "wf_db (tables s) \<Longrightarrow> wf_db (tables (perform jsonb q s))"
  by (cases q) (simp_all add: submit_op.wf_run claim_op.wf_run heartbeat_op.wf_run
      complete_op.wf_run fail_op.wf_run)

section \<open>Schedulers\<close>

datatype sched =
    Idle
  | Expiring "(exec_id \<times> int \<times> int) list"
  | Promoting "exec_id list"

text \<open>
  One transition of a scheduler: the query of lapsed leases, one \<open>expireLease\<close>, the query
  of due retries, one \<open>promoteRetry\<close>. An error ends the pass.
\<close>

definition sched_step :: "sched \<Rightarrow> st \<Rightarrow> sched \<times> st" where
  "sched_step p s = (case p of
     Idle \<Rightarrow> (case query_rows select_expired s of
         (Inl _, s') \<Rightarrow> (Idle, s') | (Inr (rows, _), s') \<Rightarrow> (Expiring rows, s'))
   | Expiring [] \<Rightarrow> (case query_rows select_due s of
         (Inl _, s') \<Rightarrow> (Idle, s') | (Inr (rows, _), s') \<Rightarrow> (Promoting rows, s'))
   | Expiring ((eid, n, m) # rest) \<Rightarrow> (case expire_lease eid n m s of
         (Inl _, s') \<Rightarrow> (Idle, s') | (Inr _, s') \<Rightarrow> (Expiring rest, s'))
   | Promoting [] \<Rightarrow> (Idle, s)
   | Promoting (eid # rest) \<Rightarrow> (case promote_retry eid s of
         (Inl _, s') \<Rightarrow> (Idle, s') | (Inr _, s') \<Rightarrow> (Promoting rest, s')))"

text \<open>
  Run without interruption, the transitions of a scheduler are exactly the code's pass
  (\<open>sched_run_pass\<close>): from its start a scheduler reaches its next start in the state in which
  \<open>RunSchedulerPass\<close> ends, whatever the connection does.
\<close>

definition sched_run :: "nat \<Rightarrow> sched \<times> st \<Rightarrow> sched \<times> st" where
  "sched_run n = ((\<lambda>(p, s). sched_step p s) ^^ n)"

lemma sched_run_Suc: "sched_run (Suc n) (p, s) = sched_run n (sched_step p s)"
  unfolding sched_run_def funpow_Suc_right by simp

lemma sched_run_0 [simp]: "sched_run 0 x = x"
  by (simp add: sched_run_def)

lemma sched_run_promote:
  "\<exists>n. sched_run n (Promoting xs, s) = (Idle, snd (promote_all xs c s))"
proof (induction xs arbitrary: c s)
  case Nil
  show ?case
    by (intro exI [of _ "Suc 0"]) (simp only: sched_run_Suc, simp add: sched_step_def)
next
  case (Cons x xs)
  show ?case
  proof (cases "promote_retry x s")
    case (Pair r s')
    show ?thesis
    proof (cases r)
      case (Inl e)
      then show ?thesis
        by (intro exI [of _ "Suc 0"]) (simp only: sched_run_Suc, simp add: sched_step_def Pair)
    next
      case (Inr v)
      obtain n where "sched_run n (Promoting xs, s') = (Idle, snd (promote_all xs (c + 1) s'))"
        using Cons.IH by blast
      with Inr show ?thesis
        by (intro exI [of _ "Suc n"]) (simp only: sched_run_Suc, simp add: sched_step_def Pair)
    qed
  qed
qed

lemma sched_run_expire:
  "\<exists>n. sched_run n (Expiring xs, s) = (case expire_all xs c s of
     ((_, Some e), s') \<Rightarrow> (Idle, s') | ((_, None), s') \<Rightarrow> (Expiring [], s'))"
proof (induction xs arbitrary: c s)
  case Nil
  show ?case by (intro exI [of _ 0]) simp
next
  case (Cons x xs)
  obtain eid n m where x: "x = (eid, n, m)" by (cases x) auto
  show ?case
  proof (cases "expire_lease eid n m s")
    case (Pair r s')
    show ?thesis
    proof (cases r)
      case (Inl e)
      then show ?thesis
        by (intro exI [of _ "Suc 0"]) (simp only: sched_run_Suc, simp add: sched_step_def Pair x)
    next
      case (Inr v)
      obtain j where "sched_run j (Expiring xs, s') = (case expire_all xs (c + 1) s' of
         ((_, Some e), s') \<Rightarrow> (Idle, s') | ((_, None), s') \<Rightarrow> (Expiring [], s'))"
        using Cons.IH by blast
      with Inr show ?thesis
        by (intro exI [of _ "Suc j"]) (simp only: sched_run_Suc, simp add: sched_step_def Pair x)
    qed
  qed
qed

lemma sched_run_add: "sched_run (n + m) x = sched_run m (sched_run n x)"
  unfolding sched_run_def by (subst add.commute) (simp add: funpow_add)

lemma sched_run_pass: "\<exists>n>0. sched_run n (Idle, s) = (Idle, snd (run_scheduler_pass s))"
proof (cases "query_rows select_expired s")
  case (Pair q s1)
  show ?thesis
  proof (cases q)
    case (Inl e)
    with Pair show ?thesis
      by (intro exI [of _ "Suc 0"] conjI)
        (simp, simp only: sched_run_Suc, simp add: sched_step_def run_scheduler_pass_def)
  next
    case (Inr a)
    obtain stale err where a: "a = (stale, err)" by force
    obtain changed o2 s2 where x: "expire_all stale 0 s1 = ((changed, o2), s2)"
      by (cases "expire_all stale 0 s1") auto
    obtain n1 where n1: "sched_run n1 (Expiring stale, s1) =
        (case o2 of Some e \<Rightarrow> (Idle, s2) | None \<Rightarrow> (Expiring [], s2))"
      using sched_run_expire [of stale s1 0] by (auto simp: x)
    have start: "sched_run (Suc n1) (Idle, s) = (case o2 of Some e \<Rightarrow> (Idle, s2) | None \<Rightarrow> (Expiring [], s2))"
      unfolding sched_run_Suc by (simp add: sched_step_def Pair Inr a n1)
    show ?thesis
    proof (cases o2)
      case (Some e)
      with start Pair Inr a x show ?thesis
        by (intro exI [of _ "Suc n1"]) (simp add: run_scheduler_pass_def)
    next
      case None
      show ?thesis
      proof (cases "query_rows select_due s2")
        case q3: (Pair q3 s3)
        show ?thesis
        proof (cases q3)
          case (Inl e)
          have "sched_run (Suc n1 + Suc 0) (Idle, s) = (Idle, s3)"
            unfolding sched_run_add start None
            by (simp only: option.case sched_run_Suc) (simp add: sched_step_def q3 Inl)
          with None Pair Inr a x q3 Inl show ?thesis
            by (intro exI [of _ "Suc n1 + Suc 0"]) (simp add: run_scheduler_pass_def)
        next
          case d: (Inr b)
          obtain due err3 where b: "b = (due, err3)" by force
          obtain n3 where n3: "sched_run n3 (Promoting due, s3) = (Idle, snd (promote_all due changed s3))"
            using sched_run_promote by blast
          have "sched_run (Suc n1 + Suc n3) (Idle, s) = (Idle, snd (promote_all due changed s3))"
            unfolding sched_run_add start None
            by (simp only: option.case sched_run_Suc) (simp add: sched_step_def q3 d b n3)
          with None Pair Inr a x q3 d b show ?thesis
            by (intro exI [of _ "Suc n1 + Suc n3"]) (simp add: run_scheduler_pass_def)
        qed
      qed
    qed
  qed
qed

section \<open>The system\<close>

type_synonym sys = "st \<times> sched list"

inductive sys_step :: "(string \<Rightarrow> string option) \<Rightarrow> sys \<Rightarrow> sys \<Rightarrow> bool" for jsonb where
  request: "sys_step jsonb (s, ps) (perform jsonb q s, ps)"
| seed: "sys_step jsonb (s, ps) (snd (auto_stmt (insert_tool jsonb uid t) s), ps)"
| scheduler: "i < length ps \<Longrightarrow> sched_step (ps ! i) s = (p, s') \<Longrightarrow> sys_step jsonb (s, ps) (s', ps[i := p])"
| restart: "i < length ps \<Longrightarrow> sys_step jsonb (s, ps) (s, ps[i := Idle])"
| passing: "clock s \<le> c \<Longrightarrow> sys_step jsonb (s, ps) (s\<lparr>clock := c, net := plan\<rparr>, ps)"

inductive_cases sys_stepE: "sys_step jsonb (s, ps) y"

definition sys_init :: "nat \<Rightarrow> time \<Rightarrow> sys" where
  "sys_init n c = (\<lparr>tables = empty_db, clock = c, net = []\<rparr>, replicate n Idle)"

inductive sys_steps :: "(string \<Rightarrow> string option) \<Rightarrow> sys \<Rightarrow> sys \<Rightarrow> bool" for jsonb where
  sys_refl: "sys_steps jsonb x x"
| sys_more: "sys_steps jsonb x y \<Longrightarrow> sys_step jsonb y z \<Longrightarrow> sys_steps jsonb x z"

abbreviation sys_reach :: "(string \<Rightarrow> string option) \<Rightarrow> nat \<Rightarrow> sys \<Rightarrow> bool" where
  "sys_reach jsonb n x \<equiv> \<exists>c. sys_steps jsonb (sys_init n c) x"

lemma steps_trans: "sys_steps jsonb y z \<Longrightarrow> sys_steps jsonb x y \<Longrightarrow> sys_steps jsonb x z"
  by (induction rule: sys_steps.induct) (auto intro: sys_more)

section \<open>Operations of the other processes are steps\<close>

text \<open>A process that calls the store continues any run of the system.\<close>

lemma steps_request: "sys_steps jsonb x (s, ps) \<Longrightarrow> sys_steps jsonb x (perform jsonb q s, ps)"
  by (rule sys_more [OF _ request])

lemma steps_claim: "sys_steps jsonb x (s, ps) \<Longrightarrow> sys_steps jsonb x (snd (claim locked w secs s), ps)"
  using steps_request [of jsonb x s ps "Claim locked w secs"] by simp

lemma steps_heartbeat: "sys_steps jsonb x (s, ps) \<Longrightarrow> sys_steps jsonb x (snd (heartbeat eid tok secs s), ps)"
  using steps_request [of jsonb x s ps "Heartbeat eid tok secs"] by simp

lemma steps_complete: "sys_steps jsonb x (s, ps) \<Longrightarrow> sys_steps jsonb x (snd (complete jsonb eid tok w res s), ps)"
  using steps_request [of jsonb x s ps "Complete eid tok w res"] by simp

lemma steps_fail: "sys_steps jsonb x (s, ps) \<Longrightarrow> sys_steps jsonb x (snd (fail eid tok w msg s), ps)"
  using steps_request [of jsonb x s ps "Fail eid tok w msg"] by simp

lemma steps_submit:
  "sys_steps jsonb x (s, ps) \<Longrightarrow> sys_steps jsonb x (snd (submit jsonb uid ns name key args s), ps)"
  using steps_request [of jsonb x s ps "Submit uid ns name key args"] by simp

lemma steps_read:
  assumes "sys_steps jsonb x (s, ps)" and "tables s' = tables s" and "clock s \<le> clock s'"
  shows "sys_steps jsonb x (s', ps)"
proof -
  have "s' = s\<lparr>clock := clock s', net := net s'\<rparr>" using assms(2) by simp
  with sys_more [OF assms(1) passing [OF assms(3)]] show ?thesis by metis
qed

lemma sys_step_scheds: "sys_step jsonb x y \<Longrightarrow> length (snd y) = length (snd x)"
  by (cases rule: sys_step.cases) auto

lemma sys_steps_scheds: "sys_steps jsonb x y \<Longrightarrow> length (snd y) = length (snd x)"
  by (induction rule: sys_steps.induct) (auto dest: sys_step_scheds)

section \<open>One scheduler: what it remembers stays true\<close>

text \<open>
  Between the query and the transaction that acts on a row, workers may act. What the
  scheduler remembers of a row cannot change meanwhile, because a lapsed lease admits no step
  of a client and a waiting job neither; only another scheduler could change it.
\<close>

definition sched_ok :: "sched \<Rightarrow> time \<Rightarrow> db \<Rightarrow> bool" where
  "sched_ok p now d = (case p of
     Idle \<Rightarrow> True
   | Expiring xs \<Rightarrow> distinct (map fst xs) \<and>
       (\<forall>(k, n, m)\<in>set xs. \<exists>tok expires. job_view d k = Some (Held n m tok expires) \<and> expires < now)
   | Promoting xs \<Rightarrow> distinct xs \<and>
       (\<forall>k\<in>set xs. \<exists>n m at. job_view d k = Some (Waiting n m at) \<and> at \<le> now))"

lemma job_view_expired:
  assumes "wf_db d" and "(k, n, m) \<in> set (select_expired now d)"
  shows "\<exists>tok expires. job_view d k = Some (Held n m tok expires) \<and> expires < now"
proof -
  from assms obtain e l where "exec_of d k = Some e" "lease_of d k = Some l" "e_status e = Running"
    "l_lease_expires l < now" "n = e_attempts e" "m = e_max_attempts e"
    using select_expired_iff [OF assms(1)] by blast
  then show ?thesis by (simp add: job_view_def job_of_def)
qed

lemma job_view_due:
  assumes "wf_db d" and "k \<in> set (select_due now d)"
  shows "\<exists>n m at. job_view d k = Some (Waiting n m at) \<and> at \<le> now"
proof -
  from assms obtain r where r: "retry_of d k = Some r" "r_retry_at r \<le> now"
    using select_due_iff [OF assms(1)] by blast
  then obtain e where "exec_of d k = Some e" "e_status e = Pending"
    using retry_has_row [OF assms(1)] by blast
  with r show ?thesis by (simp add: job_view_def job_of_def)
qed

lemma job_of_Held:
  "job_of e l r = Held n m tok expires \<Longrightarrow> e_status e = Running \<and> e_attempts e = n \<and> e_max_attempts e = m"
  by (cases "e_status e") (auto simp: job_of_def split: option.splits)

lemma job_of_Waiting: "job_of e l r = Waiting n m at \<Longrightarrow> r \<noteq> None"
  by (cases "e_status e") (auto simp: job_of_def split: option.splits)

lemma job_view_Held:
  "job_view d k = Some (Held n m tok expires) \<Longrightarrow> still_running d (k, n, m)"
  by (auto simp: job_view_def still_running_def dest: job_of_Held)

lemma job_view_Waiting: "job_view d k = Some (Waiting n m at) \<Longrightarrow> retry_of d k \<noteq> None"
  by (auto simp: job_view_def dest: job_of_Waiting)

lemma request_view:
  "wf_db d \<Longrightarrow> client_or_same now (job_view d k) (job_view (request_effect jsonb q now d) k)"
  by (cases q) (simp_all only: request_effect.simps submit_view claim_view heartbeat_view
      complete_view fail_view)

lemma perform_view:
  assumes "wf_db (tables s)"
  shows "\<exists>now. clock s \<le> now \<and> now \<le> clock (perform jsonb q s) \<and>
    (\<forall>k. client_or_same now (job_view (tables s) k) (job_view (tables (perform jsonb q s)) k))"
  using perform_atomic [of s jsonb q]
proof
  assume "same_data (tables s) (tables (perform jsonb q s))"
  from job_view_same_data [OF this] show ?thesis
    using perform_clock [of s jsonb q] by (intro exI [of _ "clock s"]) simp
next
  assume "\<exists>now. clock s \<le> now \<and> now \<le> clock (perform jsonb q s) \<and>
      tables (perform jsonb q s) = request_effect jsonb q now (tables s)"
  then obtain now where n: "clock s \<le> now" "now \<le> clock (perform jsonb q s)"
    "tables (perform jsonb q s) = request_effect jsonb q now (tables s)" by blast
  show ?thesis
    by (intro exI [of _ now] conjI allI n(1,2)) (unfold n(3), rule request_view [OF assms])
qed

lemma sched_ok_cong:
  assumes "sched_ok p c d" and "c \<le> c'" and "\<And>k. job_view d' k = job_view d k"
  shows "sched_ok p c' d'"
  using assms(1,2) unfolding sched_ok_def assms(3)
  by (fastforce split: sched.splits)

lemma sched_ok_client:
  assumes "sched_ok p c d" and "c \<le> t" and "t \<le> c'"
    and "\<And>k. client_or_same t (job_view d k) (job_view d' k)"
  shows "sched_ok p c' d'"
proof -
  have held: "job_view d' k = Some (Held n m tok expires)"
    if "job_view d k = Some (Held n m tok expires)" "expires < c" for k n m tok expires
    using assms(2) assms(4) [of k] that by (auto elim: client_step_Held)
  have waiting: "job_view d' k = Some (Waiting n m at)"
    if "job_view d k = Some (Waiting n m at)" for k n m at
    using assms(4) [of k] that by (auto elim: client_step_Waiting)
  show ?thesis
    using assms(1-3) held waiting unfolding sched_ok_def
    by (fastforce split: sched.splits)
qed

lemma job_view_expire_elsewhere:
  "k \<noteq> eid \<Longrightarrow> job_view (tables (snd (expire_lease eid n m s))) k = job_view (tables s) k"
  by (intro job_view_cong expire_lease_elsewhere)

lemma job_view_promote_elsewhere:
  "k \<noteq> eid \<Longrightarrow> job_view (tables (snd (promote_retry eid s))) k = job_view (tables s) k"
  by (intro job_view_cong promote_retry_elsewhere)

definition job_step :: "time \<Rightarrow> job option \<Rightarrow> job option \<Rightarrow> bool" where
  "job_step t j j' \<longleftrightarrow> j' = j \<or> client_step t j j' \<or> reaper_step t j j'"

definition views_step :: "time \<Rightarrow> time \<Rightarrow> db \<Rightarrow> db \<Rightarrow> bool" where
  "views_step c c' d d' \<longleftrightarrow>
     (\<exists>now. c \<le> now \<and> now \<le> c' \<and> (\<forall>k. job_step now (job_view d k) (job_view d' k)))"

lemma views_step_same: "c \<le> c' \<Longrightarrow> (\<And>k. job_view d' k = job_view d k) \<Longrightarrow> views_step c c' d d'"
  by (auto simp: views_step_def job_step_def)

lemma query_rows_step:
  assumes "query_rows q s = (r, s')"
  shows "tables s' = tables s" and "clock s \<le> clock s'"
  using query_rows_answer [OF assms] by simp_all

lemma expire_step:
  assumes wf: "wf_db (tables s)" and ok: "sched_ok (Expiring ((eid, n, m) # rest)) (clock s) (tables s)"
    and run: "expire_lease eid n m s = (r, s')"
  shows "wf_db (tables s') \<and> clock s \<le> clock s' \<and> views_step (clock s) (clock s') (tables s) (tables s') \<and>
    sched_ok (Expiring rest) (clock s') (tables s')"
proof -
  obtain tok expires where v: "job_view (tables s) eid = Some (Held n m tok expires)" "expires < clock s"
    using ok by (auto simp: sched_ok_def)
  have s': "s' = snd (expire_lease eid n m s)" using run by simp
  have c: "clock s \<le> clock s'" unfolding s' by (rule expiring.clock_mono)
  have wf': "wf_db (tables s')"
    using wf_expire_lease [OF wf] job_view_Held [OF v(1)] unfolding s' by (auto simp: still_running_def)
  have elsewhere: "job_view (tables s') k = job_view (tables s) k" if "k \<noteq> eid" for k
    unfolding s' by (rule job_view_expire_elsewhere [OF that])
  have "views_step (clock s) (clock s') (tables s) (tables s')"
    using expiring.atomic [of s eid n m, folded s']
  proof
    assume "same_data (tables s) (tables s')"
    with c show ?thesis by (intro views_step_same) (simp_all add: job_view_same_data)
  next
    assume "\<exists>now. clock s \<le> now \<and> now \<le> clock s' \<and> tables s' = snd (expire_effect eid n m now (tables s))"
    then obtain now where now: "clock s \<le> now" "now \<le> clock s'"
      "tables s' = snd (expire_effect eid n m now (tables s))" by blast
    have "exec_of (tables s) eid \<noteq> None" using v(1) by (auto simp: job_view_def)
    with now(3) have "tables s' = expired_db now eid n m (tables s)" by (simp add: expire_effect_def)
    then have "reaper_step now (job_view (tables s) eid) (job_view (tables s') eid)"
      using expire_view [OF v(1)] v(2) now(1) by simp
    then have "job_step now (job_view (tables s) k) (job_view (tables s') k)" for k
      using elsewhere by (cases "k = eid") (auto simp: job_step_def)
    with now(1,2) show ?thesis by (auto simp: views_step_def)
  qed
  moreover have "sched_ok (Expiring rest) (clock s') (tables s')"
  proof -
    have "job_view (tables s') (fst x) = job_view (tables s) (fst x)" if "x \<in> set rest" for x
      using ok that by (intro elsewhere) (auto simp: sched_ok_def)
    with ok c show ?thesis by (fastforce simp: sched_ok_def)
  qed
  ultimately show ?thesis using wf' c by blast
qed

lemma promote_step:
  assumes wf: "wf_db (tables s)" and ok: "sched_ok (Promoting (eid # rest)) (clock s) (tables s)"
    and run: "promote_retry eid s = (r, s')"
  shows "wf_db (tables s') \<and> clock s \<le> clock s' \<and> views_step (clock s) (clock s') (tables s) (tables s') \<and>
    sched_ok (Promoting rest) (clock s') (tables s')"
proof -
  obtain n m at where v: "job_view (tables s) eid = Some (Waiting n m at)" "at \<le> clock s"
    using ok by (auto simp: sched_ok_def)
  have s': "s' = snd (promote_retry eid s)" using run by simp
  have c: "clock s \<le> clock s'" unfolding s' by (rule promoting.clock_mono)
  have wf': "wf_db (tables s')"
    using wf_promote_retry [OF wf] job_view_Waiting [OF v(1)] unfolding s' by auto
  have elsewhere: "job_view (tables s') k = job_view (tables s) k" if "k \<noteq> eid" for k
    unfolding s' by (rule job_view_promote_elsewhere [OF that])
  have "views_step (clock s) (clock s') (tables s) (tables s')"
    using promoting.atomic [of s eid, folded s']
  proof
    assume "same_data (tables s) (tables s')"
    with c show ?thesis by (intro views_step_same) (simp_all add: job_view_same_data)
  next
    assume "\<exists>now. clock s \<le> now \<and> now \<le> clock s' \<and> tables s' = snd (promote_effect eid now (tables s))"
    then obtain now where now: "clock s \<le> now" "now \<le> clock s'"
      "tables s' = snd (promote_effect eid now (tables s))" by blast
    have "exec_of (tables s) eid \<noteq> None" using v(1) by (auto simp: job_view_def)
    with now(3) have "tables s' = promoted_db now eid (tables s)" by (simp add: promote_effect_def)
    then have "reaper_step now (job_view (tables s) eid) (job_view (tables s') eid)"
      using promote_view [OF v(1)] v(2) now(1) by simp
    then have "job_step now (job_view (tables s) k) (job_view (tables s') k)" for k
      using elsewhere by (cases "k = eid") (auto simp: job_step_def)
    with now(1,2) show ?thesis by (auto simp: views_step_def)
  qed
  moreover have "sched_ok (Promoting rest) (clock s') (tables s')"
  proof -
    have "job_view (tables s') k = job_view (tables s) k" if "k \<in> set rest" for k
      using ok that by (intro elsewhere) (auto simp: sched_ok_def)
    with ok c show ?thesis by (fastforce simp: sched_ok_def)
  qed
  ultimately show ?thesis using wf' c by blast
qed

lemma sched_ok_Expiring_rows:
  assumes "wf_db d" and "rows = take n (select_expired now d)"
  shows "sched_ok (Expiring rows) now d"
proof -
  have "distinct (map fst rows)"
    using select_expired_distinct [OF assms(1), of now] by (simp add: assms(2) take_map [symmetric])
  moreover have "\<forall>(k, n, m)\<in>set rows. \<exists>tok expires. job_view d k = Some (Held n m tok expires) \<and> expires < now"
    using job_view_expired [OF assms(1), of _ _ _ now] set_take_subset [of n "select_expired now d"]
    unfolding assms(2) by blast
  ultimately show ?thesis by (simp add: sched_ok_def)
qed

lemma sched_ok_Promoting_rows:
  assumes "wf_db d" and "rows = take n (select_due now d)"
  shows "sched_ok (Promoting rows) now d"
proof -
  have "distinct rows" using select_due_distinct [OF assms(1), of now] by (simp add: assms(2))
  moreover have "\<forall>k\<in>set rows. \<exists>n m at. job_view d k = Some (Waiting n m at) \<and> at \<le> now"
    using job_view_due [OF assms(1), of _ now] set_take_subset [of n "select_due now d"]
    unfolding assms(2) by blast
  ultimately show ?thesis by (simp add: sched_ok_def)
qed

lemma sched_ok_Idle [simp]: "sched_ok Idle c d"
  by (simp add: sched_ok_def)

definition single_ok :: "sys \<Rightarrow> bool" where
  "single_ok x \<longleftrightarrow> wf_db (tables (fst x)) \<and>
     (\<exists>p. snd x = [p] \<and> sched_ok p (clock (fst x)) (tables (fst x)))"

definition sys_view_step :: "sys \<Rightarrow> sys \<Rightarrow> bool" where
  "sys_view_step x y \<longleftrightarrow>
     views_step (clock (fst x)) (clock (fst y)) (tables (fst x)) (tables (fst y))"

lemma idle_query_step:
  assumes wf: "wf_db (tables s)" and q: "query_rows q s = (r, s')"
    and rows: "\<And>rs n. rs = take n (q (clock s') (tables s)) \<Longrightarrow> sched_ok (f rs) (clock s') (tables s)"
    and p: "p' = (case r of Inl _ \<Rightarrow> Idle | Inr (rs, _) \<Rightarrow> f rs)"
  shows "wf_db (tables s') \<and> clock s \<le> clock s' \<and> views_step (clock s) (clock s') (tables s) (tables s') \<and>
    sched_ok p' (clock s') (tables s')"
proof -
  note a = query_rows_answer [OF q]
  have "sched_ok p' (clock s') (tables s)"
  proof (cases r)
    case (Inr y)
    obtain rs e where y: "y = (rs, e)" by force
    obtain n where "rs = take n (q (clock s') (tables s))" using a(3) Inr y by blast
    with rows Inr y show ?thesis by (simp add: p)
  qed (simp add: p)
  with wf a(1,2) show ?thesis by (auto intro: views_step_same)
qed

lemma sched_step_ok:
  assumes wf: "wf_db (tables s)" and ok: "sched_ok p (clock s) (tables s)" and st: "sched_step p s = (p', s')"
  shows "wf_db (tables s') \<and> clock s \<le> clock s' \<and> views_step (clock s) (clock s') (tables s) (tables s') \<and>
    sched_ok p' (clock s') (tables s')"
proof (cases p)
  case Idle
  obtain r s1 where q: "query_rows select_expired s = (r, s1)" by force
  have "s' = s1" "p' = (case r of Inl _ \<Rightarrow> Idle | Inr (rs, _) \<Rightarrow> Expiring rs)"
    using st by (auto simp: sched_step_def Idle q split: sum.splits prod.splits)
  with idle_query_step [OF wf q, of Expiring p'] sched_ok_Expiring_rows [OF wf] show ?thesis by blast
next
  case (Expiring xs)
  show ?thesis
  proof (cases xs)
    case Nil
    obtain r s1 where q: "query_rows select_due s = (r, s1)" by force
    have "s' = s1" "p' = (case r of Inl _ \<Rightarrow> Idle | Inr (rs, _) \<Rightarrow> Promoting rs)"
      using st by (auto simp: sched_step_def Expiring Nil q split: sum.splits prod.splits)
    with idle_query_step [OF wf q, of Promoting p'] sched_ok_Promoting_rows [OF wf] show ?thesis by blast
  next
    case (Cons x rest)
    obtain eid n m where x: "x = (eid, n, m)" by (cases x) auto
    obtain r s1 where run: "expire_lease eid n m s = (r, s1)" by force
    have "s' = s1" "p' = Idle \<or> p' = Expiring rest"
      using st by (auto simp: sched_step_def Expiring Cons x run split: sum.splits)
    with expire_step [OF wf _ run, of rest] ok show ?thesis by (auto simp: Expiring Cons x)
  qed
next
  case (Promoting xs)
  show ?thesis
  proof (cases xs)
    case Nil
    with st wf show ?thesis by (auto simp: sched_step_def Promoting intro: views_step_same)
  next
    case (Cons eid rest)
    obtain r s1 where run: "promote_retry eid s = (r, s1)" by force
    have "s' = s1" "p' = Idle \<or> p' = Promoting rest"
      using st by (auto simp: sched_step_def Promoting Cons run split: sum.splits)
    with promote_step [OF wf _ run, of rest] ok show ?thesis by (auto simp: Promoting Cons)
  qed
qed

lemma job_view_with_tools [simp]: "job_view (with_tools ts d) = job_view d"
  by (simp add: job_view_def with_tools_def exec_of_def lease_of_def retry_of_def fun_eq_iff)

lemma auto_stmt_clock: "clock s \<le> clock (snd (auto_stmt q s))"
  by (simp add: auto_stmt_def exec_stmt_clock)

lemma single_ok_step:
  assumes "single_ok x" and "sys_step jsonb x y"
  shows "single_ok y \<and> clock (fst x) \<le> clock (fst y) \<and> sys_view_step x y"
proof -
  obtain s p where x: "x = (s, [p])" and wf: "wf_db (tables s)"
    and ok: "sched_ok p (clock s) (tables s)"
    using assms(1) by (cases x) (auto simp: single_ok_def)
  from assms(2) [unfolded x] consider
      (request) q where "y = (perform jsonb q s, [p])"
    | (seed) uid t where "y = (snd (auto_stmt (insert_tool jsonb uid t) s), [p])"
    | (scheduler) p' s' where "sched_step p s = (p', s')" "y = (s', [p'])"
    | (restart) "y = (s, [Idle])"
    | (passing) c plan where "clock s \<le> c" "y = (s\<lparr>clock := c, net := plan\<rparr>, [p])"
    by (rule sys_stepE) auto
  then show ?thesis
  proof cases
    case (request q)
    obtain now where now: "clock s \<le> now" "now \<le> clock (perform jsonb q s)"
      "\<And>k. client_or_same now (job_view (tables s) k) (job_view (tables (perform jsonb q s)) k)"
      using perform_view [OF wf] by blast
    have "views_step (clock s) (clock (perform jsonb q s)) (tables s) (tables (perform jsonb q s))"
      using now by (auto simp: views_step_def job_step_def)
    with request sched_ok_client [OF ok now] wf_perform [OF wf] perform_clock show ?thesis
      by (simp add: x single_ok_def sys_view_step_def)
  next
    case (seed uid t)
    let ?s = "snd (auto_stmt (insert_tool jsonb uid t) s)"
    obtain ts where ts: "tables ?s = with_tools ts (tables s)" using seed_step_adds by blast
    note c = auto_stmt_clock [of s "insert_tool jsonb uid t"]
    have "sched_ok p (clock ?s) (tables ?s)" by (rule sched_ok_cong [OF ok c]) (simp add: ts)
    moreover have "views_step (clock s) (clock ?s) (tables s) (tables ?s)"
      by (rule views_step_same [OF c]) (simp add: ts)
    ultimately show ?thesis
      using seed wf_seed_step [OF wf] c by (simp add: x single_ok_def sys_view_step_def)
  next
    case (scheduler p' s')
    then show ?thesis
      using sched_step_ok [OF wf ok] by (auto simp: x single_ok_def sys_view_step_def)
  next
    case restart
    then show ?thesis using wf by (auto simp: x single_ok_def sys_view_step_def intro: views_step_same)
  next
    case (passing c plan)
    have "sched_ok p c (tables s)" by (rule sched_ok_cong [OF ok passing(1)]) simp
    with passing wf show ?thesis
      by (auto simp: x single_ok_def sys_view_step_def intro: views_step_same)
  qed
qed

lemma single_ok_init: "single_ok (sys_init 1 c)"
  using wf_db_empty [of "[]"] by (simp add: single_ok_def sys_init_def empty_db_def)

lemma single_ok_steps: "sys_steps jsonb x y \<Longrightarrow> single_ok x \<Longrightarrow> single_ok y"
  by (induction rule: sys_steps.induct) (auto dest: single_ok_step)

lemma single_ok_reach: "sys_reach jsonb 1 x \<Longrightarrow> single_ok x"
  using single_ok_steps single_ok_init by blast

section \<open>Properties of the running system\<close>


lemma fresh_from_claims:
  "fresh_from seen vs \<Longrightarrow>
    sorted_wrt (<) (tokens (filter (\<lambda>v. v_event_type v = Ev_claimed) vs)) \<and>
    (\<forall>t\<in>set (tokens (filter (\<lambda>v. v_event_type v = Ev_claimed) vs)). \<forall>t'\<in>set seen. t' < t) \<and>
    length (tokens (filter (\<lambda>v. v_event_type v = Ev_claimed) vs)) = count_ev Ev_claimed vs"
proof (induction seen vs rule: fresh_from.induct)
  case (2 seen v vs)
  have cons: "tokens (v # us) = tokens [v] @ tokens us" for us
    using tokens_append [of "[v]" us] by simp
  show ?case
    using 2 by (auto simp: cons [of "filter _ _"] tokens_single count_ev_def split: option.splits)
qed simp


definition job_done :: "job option \<Rightarrow> bool" where
  "job_done j \<longleftrightarrow> (\<exists>res. j = Some (Succeeded res)) \<or> (\<exists>msg. j = Some (Exhausted msg))"

lemma job_step_done: "job_step t j j' \<Longrightarrow> job_done j \<Longrightarrow> j' = j"
  by (auto simp: job_step_def job_done_def elim: done_cases)

lemma done_stays:
  assumes "sys_steps jsonb x y" and "single_ok x" and "job_done (job_view (tables (fst x)) k)"
  shows "job_view (tables (fst y)) k = job_view (tables (fst x)) k"
  using assms
proof (induction rule: sys_steps.induct)
  case (sys_more x y z)
  have "single_ok y" using single_ok_steps [OF sys_more(1,4)] .
  from single_ok_step [OF this sys_more(2)] obtain now
    where "job_step now (job_view (tables (fst y)) k) (job_view (tables (fst z)) k)"
    by (auto simp: sys_view_step_def views_step_def)
  with sys_more job_step_done show ?case by metis
qed simp

lemma job_of_Succeeded:
  "wf_db d \<Longrightarrow> exec_of d k = Some e \<Longrightarrow>
    job_of e (lease_of d k) (retry_of d k) = Succeeded res \<longleftrightarrow> e_status e = Completed \<and> e_result e = res"
  by (cases "e_status e") (auto simp: job_of_def split: option.splits)

lemma job_of_Exhausted:
  "wf_db d \<Longrightarrow> exec_of d k = Some e \<Longrightarrow>
    job_of e (lease_of d k) (retry_of d k) = Exhausted msg \<longleftrightarrow> e_status e = Failed \<and> e_error_message e = msg"
  using wf_db_row [of d k e]
  by (cases "e_status e") (auto simp: job_of_def coherent_row_def split: option.splits)

lemma done_kept:
  assumes "single_ok x" and "sys_steps jsonb x y"
    and "exec_of (tables (fst x)) k = Some e" and "e_status e \<in> {Completed, Failed}"
  shows "\<exists>e'. exec_of (tables (fst y)) k = Some e' \<and> e_status e' = e_status e \<and>
    (e_status e = Completed \<longrightarrow> e_result e' = e_result e) \<and>
    (e_status e = Failed \<longrightarrow> e_error_message e' = e_error_message e)"
proof -
  have ok: "single_ok x" "single_ok y"
    using assms(1) single_ok_steps [OF assms(2)] by blast+
  then have wf: "wf_db (tables (fst x))" "wf_db (tables (fst y))" by (simp_all add: single_ok_def)
  have x: "job_view (tables (fst x)) k =
      Some (if e_status e = Completed then Succeeded (e_result e) else Exhausted (e_error_message e))"
    using assms(3,4) by (auto simp: job_view_def job_of_def)
  then have "job_done (job_view (tables (fst x)) k)" by (auto simp: job_done_def)
  from done_stays [OF assms(2) ok(1) this] x
  obtain e' where e': "exec_of (tables (fst y)) k = Some e'"
    "job_of e' (lease_of (tables (fst y)) k) (retry_of (tables (fst y)) k) =
      (if e_status e = Completed then Succeeded (e_result e) else Exhausted (e_error_message e))"
    by (auto simp: job_view_def)
  then show ?thesis
    using assms(4) job_of_Succeeded [OF wf(2) e'(1)] job_of_Exhausted [OF wf(2) e'(1)]
    by (auto split: if_splits)
qed


lemma sched_step_log:
  assumes "sched_step p s = (p', s')"
  shows "prefix (db_events (tables s)) (db_events (tables s'))"
proof -
  have e: "prefix (db_events (tables s)) (db_events (tables s1))" if "expire_lease eid n m s = (r, s1)" for eid n m r s1
    using expire_op.log_prefix [of s eid n m] that by simp
  have p: "prefix (db_events (tables s)) (db_events (tables s1))" if "promote_retry eid s = (r, s1)" for eid r s1
    using promote_op.log_prefix [of s eid] that by simp
  have q: "tables s1 = tables s" if "query_rows (qq :: time \<Rightarrow> db \<Rightarrow> 'a list) s = (r, s1)" for qq r s1
    using query_rows_answer(1) [OF that] .
  show ?thesis
  proof (cases p)
    case Idle
    then show ?thesis
      using assms query_rows_answer(1) by (fastforce simp: sched_step_def split: prod.splits sum.splits)
  next
    case (Expiring xs)
    then show ?thesis
      using assms query_rows_answer(1) e
      by (cases xs) (fastforce simp: sched_step_def split: prod.splits sum.splits)+
  next
    case (Promoting xs)
    then show ?thesis
      using assms p by (cases xs) (fastforce simp: sched_step_def split: prod.splits sum.splits)+
  qed
qed

text \<open>
  C34. The event log is append-only, in a system with any number of schedulers: whatever the
  processes do, events are never changed, removed or reordered.
\<close>

theorem event_log_append_only:
  assumes "sys_steps jsonb x y"
  shows "prefix (db_events (tables (fst x))) (db_events (tables (fst y)))"
  using assms
proof (induction rule: sys_steps.induct)
  case (sys_more x y z)
  have "prefix (db_events (tables (fst y))) (db_events (tables (fst z)))"
    using sys_more(2)
  proof (cases rule: sys_step.cases)
    case (seed s ps uid t)
    obtain ts where "tables (snd (auto_stmt (insert_tool jsonb uid t) s)) = with_tools ts (tables s)"
      using seed_step_adds by blast
    then show ?thesis using seed by (simp add: with_tools_def)
  qed (auto simp: perform_log dest: sched_step_log)
  with sys_more.IH show ?case by (rule prefix_order.trans)
qed simp

section \<open>Concrete runs, and two schedulers\<close>

text \<open>
  A tool is registered, a call submitted and claimed, and the first worker's lease lapses;
  then two schedulers query at the same time, and the second acts after the call was
  claimed again and completed.
\<close>

definition tw_claimed :: st where
  "tw_claimed = perform Some (Claim [] ''w1'' 30)
     (perform Some (Submit ''a'' ''ns'' ''slow_compute'' ''k'' (Some ''{}''))
       (snd (auto_stmt (insert_tool Some ''t1'' demo_tool) (fst (sys_init 0 0)))))"

definition tw_lapsed :: st where
  "tw_lapsed = tw_claimed\<lparr>clock := 31000000, net := []\<rparr>"

definition tw_reaped :: st where
  "tw_reaped = snd (sched_step (Expiring [(''a'', 1, 3)]) tw_lapsed)"

definition tw_done :: st where
  "tw_done = perform Some (Complete ''a'' 2 ''w2'' (Some ''1'')) (perform Some (Claim [] ''w2'' 30) tw_reaped)"

definition tw_undone :: st where
  "tw_undone = snd (sched_step (Expiring [(''a'', 1, 3)]) tw_done)"

definition tw_again :: st where
  "tw_again = perform Some (Complete ''a'' 3 ''w3'' (Some ''2'')) (perform Some (Claim [] ''w3'' 30) tw_undone)"

lemma reach_more: "sys_reach jsonb n x \<Longrightarrow> sys_step jsonb x y \<Longrightarrow> sys_reach jsonb n y"
  by (blast intro: sys_more)

lemma reach_claimed: "sys_reach Some n (tw_claimed, replicate n Idle)"
proof -
  have "sys_reach Some n (fst (sys_init 0 0), replicate n Idle)"
    by (intro exI [of _ 0]) (simp add: sys_init_def sys_refl)
  from reach_more [OF reach_more [OF reach_more [OF this seed] request] request]
  show ?thesis unfolding tw_claimed_def .
qed

lemma reach_lapsed: "sys_reach Some n (tw_lapsed, replicate n Idle)"
proof -
  have "clock tw_claimed \<le> 31000000" by code_simp
  from reach_more [OF reach_claimed passing [OF this]] show ?thesis unfolding tw_lapsed_def .
qed

lemma tw_query: "sched_step Idle tw_lapsed = (Expiring [(''a'', 1, 3)], tw_lapsed)"
  by code_simp

lemma tw_fst: "fst (sched_step (Expiring [(''a'', 1, 3)]) tw_lapsed) = Expiring []"
  "fst (sched_step (Expiring [(''a'', 1, 3)]) tw_done) = Expiring []"
  by code_simp+

lemma tw_expire:
  "sched_step (Expiring [(''a'', 1, 3)]) tw_lapsed = (Expiring [], tw_reaped)"
  "sched_step (Expiring [(''a'', 1, 3)]) tw_done = (Expiring [], tw_undone)"
  using tw_fst unfolding tw_reaped_def tw_undone_def by (metis prod.collapse)+

lemma sys_scheduler0: "sched_step p s = (p', s') \<Longrightarrow> sys_step jsonb (s, p # ps) (s', p' # ps)"
  using scheduler [of 0 "p # ps" s p' s'] by simp

lemma sys_scheduler1: "sched_step q s = (q', s') \<Longrightarrow> sys_step jsonb (s, p # q # ps) (s', p # q' # ps)"
  using scheduler [of 1 "p # q # ps" s q' s'] by simp

lemma reach_single_reaped: "sys_reach Some 1 (tw_reaped, [Expiring []])"
proof -
  have "sys_reach Some 1 (tw_lapsed, [Idle])" using reach_lapsed [of 1] by simp
  from reach_more [OF reach_more [OF this sys_scheduler0 [OF tw_query]] sys_scheduler0 [OF tw_expire(1)]]
  show ?thesis .
qed

lemma reach_single_done: "sys_reach Some 1 (tw_done, [Expiring []])"
  using reach_more [OF reach_more [OF reach_single_reaped request] request] unfolding tw_done_def .

lemma reach_double_done: "sys_reach Some 2 (tw_done, [Expiring [], Expiring [(''a'', 1, 3)]])"
proof -
  have "sys_reach Some 2 (tw_lapsed, [Idle, Idle])"
    using reach_lapsed [of 2] by (simp add: numeral_2_eq_2)
  from reach_more [OF reach_more [OF this sys_scheduler0 [OF tw_query]] sys_scheduler1 [OF tw_query]]
  have "sys_reach Some 2 (tw_lapsed, [Expiring [(''a'', 1, 3)], Expiring [(''a'', 1, 3)]])" .
  from reach_more [OF this sys_scheduler0 [OF tw_expire(1)]]
  have "sys_reach Some 2 (tw_reaped, [Expiring [], Expiring [(''a'', 1, 3)]])" .
  from reach_more [OF reach_more [OF this request] request] show ?thesis unfolding tw_done_def .
qed

text \<open>
  C7. With two schedulers done is not final: \<open>expireLease\<close> acts on the row its pass read
  earlier without looking again, so a completed execution can return to the queue, be
  claimed and run once more, and be completed a second time with another result.
\<close>

theorem two_schedulers_resurrect:
  "\<exists>x y z. sys_reach Some 2 x \<and> sys_steps Some x y \<and> sys_steps Some y z \<and>
    map_option (\<lambda>e. (e_status e, e_result e)) (exec_of (tables (fst x)) ''a'') = Some (Completed, Some ''1'') \<and>
    map_option e_status (exec_of (tables (fst y)) ''a'') = Some Ready \<and>
    map_option (\<lambda>e. (e_status e, e_result e)) (exec_of (tables (fst z)) ''a'') = Some (Completed, Some ''2'') \<and>
    count_ev Ev_completed (log_of (tables (fst z)) ''a'') = 2"
proof -
  have y: "sys_steps Some (tw_done, [Expiring [], Expiring [(''a'', 1, 3)]]) (tw_undone, [Expiring [], Expiring []])"
    by (rule sys_more [OF sys_refl sys_scheduler1 [OF tw_expire(2)]])
  have z: "sys_steps Some (tw_undone, [Expiring [], Expiring []]) (tw_again, [Expiring [], Expiring []])"
    unfolding tw_again_def by (rule sys_more [OF sys_more [OF sys_refl request] request])
  have v: "map_option (\<lambda>e. (e_status e, e_result e)) (exec_of (tables tw_done) ''a'') = Some (Completed, Some ''1'')"
    "map_option e_status (exec_of (tables tw_undone) ''a'') = Some Ready"
    "map_option (\<lambda>e. (e_status e, e_result e)) (exec_of (tables tw_again) ''a'') = Some (Completed, Some ''2'')"
    "count_ev Ev_completed (log_of (tables tw_again) ''a'') = 2"
    by code_simp+
  show ?thesis
    by (rule exI, rule exI, rule exI, rule conjI [OF reach_double_done], rule conjI [OF y],
        rule conjI [OF z]) (simp add: v)
qed




theorem event_log_append_only_witness:
  "prefix (db_events (tables tw_done)) (db_events (tables tw_undone)) \<and>
   length (db_events (tables tw_undone)) = Suc (length (db_events (tables tw_done)))"
proof -
  have y: "sys_steps Some (tw_done, [Expiring [], Expiring [(''a'', 1, 3)]]) (tw_undone, [Expiring [], Expiring []])"
    by (rule sys_more [OF sys_refl sys_scheduler1 [OF tw_expire(2)]])
  have "length (db_events (tables tw_undone)) = Suc (length (db_events (tables tw_done)))" by code_simp
  with event_log_append_only [OF y] show ?thesis by simp
qed

end
