(* ===== verification/Rows_Kept.thy ===== *)
theory Rows_Kept
  imports System
begin

text \<open>
  What no step of the system ever does. \<open>kept\<close> is the interface: a relation between two
  states of the data that every effect of an operation meets and that composes; then every
  run meets it. \<open>rows_kept\<close> is one: no execution is removed or gets another identifier or
  key, no registered tool is removed or changed.
\<close>

section \<open>Relations every run meets\<close>

locale kept =
  fixes K :: "db \<Rightarrow> db \<Rightarrow> bool"
  assumes same: "same_data d d' \<Longrightarrow> K d d'"
    and trans: "K d d' \<Longrightarrow> K d' d'' \<Longrightarrow> K d d''"
    and tools: "K d (with_tools ts d)"
    and submits: "K d (snd (submit_effect jsonb uid ns name key args now d))"
    and claims: "K d (snd (claim_effect locked w secs now d))"
    and beats: "K d (snd (heartbeat_effect eid tok secs now d))"
    and completes: "K d (snd (complete_effect jsonb eid tok w res now d))"
    and fails: "K d (snd (fail_effect eid tok w msg now d))"
    and expires: "K d (snd (expire_effect eid n m now d))"
    and promotes: "K d (snd (promote_effect eid now d))"
begin

lemma refl: "K d d"
  by (rule same) simp

lemma request_kept: "K (tables s) (tables (perform jsonb q s))"
  using perform_atomic [of s jsonb q]
proof
  assume "\<exists>now. clock s \<le> now \<and> now \<le> clock (perform jsonb q s) \<and>
      tables (perform jsonb q s) = request_effect jsonb q now (tables s)"
  then obtain now where "tables (perform jsonb q s) = request_effect jsonb q now (tables s)" by blast
  then show ?thesis
    by (cases q) (simp_all add: submits claims beats completes fails)
qed (rule same)

lemma expire_kept: "expire_lease eid n m s = (r, s') \<Longrightarrow> K (tables s) (tables s')"
  using expiring.atomic [of s eid n m] expires same by (metis snd_conv)

lemma promote_kept: "promote_retry eid s = (r, s') \<Longrightarrow> K (tables s) (tables s')"
  using promoting.atomic [of s eid] promotes same by (metis snd_conv)

lemma query_kept: "query_rows q s = (r, s') \<Longrightarrow> K (tables s) (tables s')"
  using query_rows_step(1) refl by metis

lemma sched_kept:
  assumes "sched_step p s = (p', s')"
  shows "K (tables s) (tables s')"
proof (cases p)
  case Idle
  with assms show ?thesis
    by (auto simp: sched_step_def split: prod.splits sum.splits dest: query_kept)
next
  case (Expiring xs)
  with assms show ?thesis
    by (cases xs) (auto simp: sched_step_def split: prod.splits sum.splits dest: query_kept expire_kept)
next
  case (Promoting xs)
  with assms refl show ?thesis
    by (cases xs) (auto simp: sched_step_def split: prod.splits sum.splits dest: promote_kept)
qed

lemma step_kept: "sys_step jsonb x y \<Longrightarrow> K (tables (fst x)) (tables (fst y))"
proof (induction rule: sys_step.induct)
  case (seed s ps uid t)
  obtain ts where "tables (snd (auto_stmt (insert_tool jsonb uid t) s)) = with_tools ts (tables s)"
    using seed_step_adds by blast
  then show ?case by (simp add: tools)
qed (auto simp: request_kept refl dest: sched_kept)

lemma steps_kept: "sys_steps jsonb x y \<Longrightarrow> K (tables (fst x)) (tables (fst y))"
  by (induction rule: sys_steps.induct) (auto intro: refl trans dest: step_kept)

end

section \<open>Rows keep their names\<close>

definition row_name :: "execution \<Rightarrow> exec_id \<times> string \<times> string \<times> string" where
  "row_name e = (e_id e, e_key e)"

definition rows_kept :: "db \<Rightarrow> db \<Rightarrow> bool" where
  "rows_kept d d' \<longleftrightarrow> prefix (map row_name (db_executions d)) (map row_name (db_executions d')) \<and>
     prefix (db_tools d) (db_tools d')"

lemma rows_kept_trans: "rows_kept d d' \<Longrightarrow> rows_kept d' d'' \<Longrightarrow> rows_kept d d''"
  unfolding rows_kept_def by (meson prefix_order.order_trans)

lemma rows_kept_same_data: "same_data d d' \<Longrightarrow> rows_kept d d'"
  using same_dataD(1,2) [of d d'] by (simp add: rows_kept_def)

lemma row_name_upd [simp]:
  assumes "\<And>e. row_name (f e) = row_name e"
  shows "map row_name (upd_where p f es) = map row_name es"
  using assms by (simp add: upd_where_def)

lemma row_name_updates [simp]:
  "row_name (e\<lparr>e_status := v\<rparr>) = row_name e" "row_name (e\<lparr>e_updated_at := t\<rparr>) = row_name e"
  "row_name (e\<lparr>e_error_message := m\<rparr>) = row_name e" "row_name (e\<lparr>e_attempts := n\<rparr>) = row_name e"
  "row_name (e\<lparr>e_result := x\<rparr>) = row_name e"
  by (simp_all add: row_name_def e_key_def)

section \<open>Effects\<close>

lemma submit_rows: "rows_kept d (snd (submit_effect jsonb uid ns name key args now d))"
  by (simp add: rows_kept_def submit_effect_def set_status_def touch_execution_def split: option.split)

lemma claim_rows: "rows_kept d (snd (claim_effect locked w secs now d))"
  by (simp add: rows_kept_def claim_effect_def claimed_db_def claimed_row_def split: option.split)

lemma heartbeat_rows: "rows_kept d (snd (heartbeat_effect eid tok secs now d))"
  by (simp add: rows_kept_def heartbeat_effect_def extended_db_def)

lemma complete_rows: "rows_kept d (snd (complete_effect jsonb eid tok w res now d))"
  by (simp add: rows_kept_def complete_effect_def completed_db_def completed_row_def rejected_db_def
      split: option.split)

lemma fail_rows: "rows_kept d (snd (fail_effect eid tok w msg now d))"
  by (simp add: rows_kept_def fail_effect_def failed_db_def failed_row_def rejected_db_def Let_def
      split: option.split)

lemma expire_rows: "rows_kept d (snd (expire_effect eid n m now d))"
  by (simp add: rows_kept_def expire_effect_def expired_db_def fail_execution_def set_status_def Let_def)

lemma promote_rows: "rows_kept d (snd (promote_effect eid now d))"
  by (simp add: rows_kept_def promote_effect_def promoted_db_def delete_retry_def set_status_def)

interpretation rows: kept rows_kept
  by unfold_locales
     (fact rows_kept_same_data rows_kept_trans submit_rows claim_rows heartbeat_rows complete_rows
        fail_rows expire_rows promote_rows | simp add: rows_kept_def with_tools_def)+

section \<open>Look-ups\<close>

lemma row_of_map_name:
  "map_option e_id (row_of e_key es k) = map_option fst (row_of snd (map row_name es) k)"
  by (induction es) (auto simp: row_of_Cons row_name_def)

lemma rows_kept_key:
  assumes "rows_kept d d'" and "row_of e_key (db_executions d) k = Some e"
  shows "\<exists>e'. row_of e_key (db_executions d') k = Some e' \<and> e_id e' = e_id e"
proof -
  obtain zs where z: "map row_name (db_executions d') = map row_name (db_executions d) @ zs"
    using assms(1) by (auto simp: rows_kept_def prefix_def)
  have "map_option fst (row_of snd (map row_name (db_executions d)) k) = Some (e_id e)"
    using row_of_map_name [of "db_executions d" k] assms(2) by simp
  then have "map_option e_id (row_of e_key (db_executions d') k) = Some (e_id e)"
    unfolding row_of_map_name z by (auto simp: row_of_append)
  then show ?thesis by auto
qed

lemma rows_kept_tool:
  assumes "rows_kept d d'" and "row_of t_name (db_tools d) n = Some t"
  shows "row_of t_name (db_tools d') n = Some t"
  using assms by (auto simp: rows_kept_def prefix_def row_of_append)

lemma exec_of_names: "exec_of d k \<noteq> None \<longleftrightarrow> k \<in> set (map fst (map row_name (db_executions d)))"
  by (simp add: exec_of_def row_of_None_iff row_name_def image_image)

lemma rows_kept_exec:
  assumes "rows_kept d d'" and "exec_of d k \<noteq> None"
  shows "exec_of d' k \<noteq> None"
proof -
  obtain zs where z: "map row_name (db_executions d') = map row_name (db_executions d) @ zs"
    using assms(1) by (auto simp: rows_kept_def prefix_def)
  show ?thesis using assms(2) unfolding exec_of_names z by simp
qed

end
