(* ===== verification/Fenced_Later.thy ===== *)
theory Fenced_Later
  imports Fencing Rows_Kept
begin

text \<open>
  What a logged fencing token means from then on, in every later state of a system with any
  number of schedulers: a token that a claim has superseded stays fenced, and a token that a
  rejected report presented still counts when the next one is drawn.
\<close>

section \<open>The lease of an execution after each effect\<close>

lemma log_prefixI: "prefix (db_events d) (db_events d') \<Longrightarrow> prefix (log_of d k) (log_of d' k)"
  unfolding log_of_def by (rule filter_prefix)

lemma submit_lease: "lease_of (snd (submit_effect jsonb uid ns name key args now d)) k = lease_of d k"
  by (simp add: submit_effect_def lease_of_def split: option.split)

lemma claim_lease:
  "lease_of (snd (claim_effect locked w secs now d)) k = lease_of d k \<or>
    pred_option (\<lambda>l. l_fencing_token l = next_token d k) (lease_of (snd (claim_effect locked w secs now d)) k)"
  by (auto simp: claim_effect_def effect_simps split: option.split)

lemma removing_leases:
  "lease_of (snd (complete_effect jsonb eid tok w res now d)) k \<in> {None, lease_of d k}"
  "lease_of (snd (fail_effect eid tok w msg now d)) k \<in> {None, lease_of d k}"
  "lease_of (snd (expire_effect eid n m now d)) k \<in> {None, lease_of d k}"
  "lease_of (snd (promote_effect eid now d)) k \<in> {None, lease_of d k}"
  by (auto simp: complete_effect_def fail_effect_def expire_effect_def promote_effect_def effect_simps
      split: option.split)

section \<open>Fenced tokens\<close>

definition lease_tokens :: "db \<Rightarrow> (exec_id \<times> int) set" where
  "lease_tokens d = (\<lambda>l. (l_execution_id l, l_fencing_token l)) ` set (db_leases d)"

text \<open>A token of the log that no lease of its execution carries.\<close>

definition fenced :: "exec_id \<Rightarrow> int \<Rightarrow> db \<Rightarrow> bool" where
  "fenced k t d \<longleftrightarrow> t \<in> set (tokens (log_of d k)) \<and> (k, t) \<notin> lease_tokens d"

lemma fenced_not_live: "fenced k t d \<Longrightarrow> \<not> live_lease now d k t"
  by (auto simp: fenced_def lease_tokens_def live_lease_def image_iff)

lemma no_lease_token:
  assumes "\<And>l. l \<in> set (db_leases d) \<Longrightarrow> l_execution_id l = k \<Longrightarrow> l_fencing_token l \<noteq> t"
  shows "(k, t) \<notin> lease_tokens d"
  using assms unfolding lease_tokens_def by blast

lemma tokens_prefix:
  "prefix (db_events d) (db_events d') \<Longrightarrow> set (tokens (log_of d k)) \<subseteq> set (tokens (log_of d' k))"
  using log_prefixI [of d d' k] by (auto simp: prefix_def tokens_append)

lemma fencedI:
  assumes "fenced k t d" and "prefix (db_events d) (db_events d')"
    and "(k, t) \<in> lease_tokens d' \<Longrightarrow> (k, t) \<in> lease_tokens d"
  shows "fenced k t d'"
  using assms tokens_prefix [OF assms(2), of k] by (auto simp: fenced_def)

lemma lease_tokens_upd:
  assumes "\<And>l. l_execution_id (f l) = l_execution_id l \<and> l_fencing_token (f l) = l_fencing_token l"
  shows "lease_tokens (d\<lparr>db_leases := upd_where p f (db_leases d)\<rparr>) = lease_tokens d"
proof -
  have "map (\<lambda>l. (l_execution_id l, l_fencing_token l)) (upd_where p f xs) =
      map (\<lambda>l. (l_execution_id l, l_fencing_token l)) xs" for xs
    using assms by (simp add: upd_where_def)
  then show ?thesis by (simp add: lease_tokens_def flip: set_map)
qed

lemma lease_tokens_log [simp]: "lease_tokens (log_event now eid ty w tok pl d) = lease_tokens d"
  by (simp add: lease_tokens_def)

lemma lease_tokens_put:
  "lease_tokens (put_lease now eid w tok secs d) \<subseteq> insert (eid, tok) (lease_tokens d)"
  by (auto simp: lease_tokens_def put_lease_def upd_where_def)

lemma claim_lease_tokens:
  "lease_tokens (snd (claim_effect locked w secs now d)) \<subseteq> lease_tokens d \<union> {(k, t). t = next_token d k}"
proof (cases "claim_effect locked w secs now d")
  case (Pair r d')
  then show ?thesis
    using lease_tokens_put
    by (force simp: claim_effect_def claimed_db_def lease_tokens_def split: option.splits if_splits)
qed

lemma submit_lease_tokens:
  "lease_tokens (snd (submit_effect jsonb uid ns name key args now d)) = lease_tokens d"
  by (simp add: submit_effect_def lease_tokens_def touch_execution_def split: option.split)

lemma heartbeat_lease_tokens: "lease_tokens (snd (heartbeat_effect eid tok secs now d)) = lease_tokens d"
  by (simp add: heartbeat_effect_def extended_db_def lease_tokens_upd) (simp add: lease_tokens_def)

lemma removed_lease_tokens:
  "lease_tokens (snd (complete_effect jsonb eid tok w res now d)) \<subseteq> lease_tokens d"
  "lease_tokens (snd (fail_effect eid tok w msg now d)) \<subseteq> lease_tokens d"
  "lease_tokens (snd (expire_effect eid n m now d)) \<subseteq> lease_tokens d"
  "lease_tokens (snd (promote_effect eid now d)) \<subseteq> lease_tokens d"
  by (auto simp: lease_tokens_def complete_effect_def completed_db_def rejected_db_def fail_effect_def
      failed_db_def expire_effect_def expired_db_def fail_execution_def promote_effect_def promoted_db_def
      delete_lease_def del_where_def put_retry_def set_status_def delete_retry_def Let_def log_event_def
      split: option.split)

lemma fenced_claim: "fenced k t d \<Longrightarrow> fenced k t (snd (claim_effect locked w secs now d))"
proof (rule fencedI)
  assume f: "fenced k t d"
  then have "t < next_token d k" using log_tokens_below_next by (simp add: fenced_def)
  then show "(k, t) \<in> lease_tokens d" if "(k, t) \<in> lease_tokens (snd (claim_effect locked w secs now d))"
    using that claim_lease_tokens by fastforce
qed (assumption | rule claim_op.appends)+

lemma fenced_same: "same_data d d' \<Longrightarrow> fenced k t d \<Longrightarrow> fenced k t d'"
  by (erule fencedI) (simp_all add: lease_tokens_def same_dataD)

interpretation fences: kept "\<lambda>d d'. fenced k t d \<longrightarrow> fenced k t d'" for k t
proof
  fix d :: db and jsonb uid ns name key args and eid tok secs and now :: time
  show "fenced k t d \<longrightarrow> fenced k t (snd (submit_effect jsonb uid ns name key args now d))"
    by (rule impI, erule fencedI) (simp_all add: submit_op.appends submit_lease_tokens)
  show "fenced k t d \<longrightarrow> fenced k t (snd (heartbeat_effect eid tok secs now d))"
    by (rule impI, erule fencedI) (simp_all add: heartbeat_op.appends heartbeat_lease_tokens)
  show "fenced k t d \<longrightarrow> fenced k t (with_tools ts d)" for ts
    by (rule impI, erule fencedI) (simp_all add: with_tools_def lease_tokens_def)
qed (auto intro: fenced_same fenced_claim elim: fencedI
      simp: complete_op.appends fail_op.appends expire_op.appends promote_op.appends
      dest: removed_lease_tokens [THEN subsetD])

interpretation logs: kept "\<lambda>d d'. prefix (db_events d) (db_events d')"
  by unfold_locales
    (simp_all add: same_dataD submit_op.appends claim_op.appends heartbeat_op.appends complete_op.appends
      fail_op.appends expire_op.appends promote_op.appends with_tools_def)

section \<open>A claim fences every earlier token for good\<close>

lemma claim_fences:
  assumes "wf_db (tables s)" and "claim locked w secs s = (Inr c, s')"
    and "t \<in> set (tokens (log_of (tables s) (c_execution_id c)))"
  shows "fenced (c_execution_id c) t (tables s')" and "exec_of (tables s') (c_execution_id c) \<noteq> None"
proof -
  obtain now e where a: "exec_of (tables s) (e_id e) = Some e"
    "c = claim_of now e (next_token (tables s) (e_id e)) secs"
    "tables s' = claimed_db now e w (next_token (tables s) (e_id e)) secs (tables s)"
    using claim_answer [OF assms(1,2)] by metis
  have id: "c_execution_id c = e_id e" by (simp add: a(2) claim_of_def)
  have "t < next_token (tables s) (e_id e)" using assms(3) log_tokens_below_next by (simp add: id)
  moreover have wf: "wf_db (tables s')" using claim_op.wf_run [OF assms(1), of locked w secs] assms(2) by simp
  moreover have "lease_of (tables s') (e_id e) = Some \<lparr>l_execution_id = e_id e, l_worker_id = w,
      l_fencing_token = next_token (tables s) (e_id e), l_lease_expires = lease_until now secs, l_claimed_at = now\<rparr>"
    by (simp add: a(3) effect_simps)
  moreover have "distinct (map l_execution_id (db_leases (tables s')))"
    using wf_dbD(1) [OF wf] by (simp add: wf_keys_def)
  ultimately have "l_fencing_token l \<noteq> t" if "l \<in> set (db_leases (tables s'))" "l_execution_id l = e_id e" for l
    using that row_of_in [of l_execution_id "db_leases (tables s')" l] by (auto simp: lease_of_def)
  then have "(e_id e, t) \<notin> lease_tokens (tables s')" by (rule no_lease_token)
  moreover have "t \<in> set (tokens (log_of (tables s') (e_id e)))"
    using assms(3) by (simp add: id a(3) effect_simps tokens_append)
  ultimately show "fenced (c_execution_id c) t (tables s')" by (simp add: fenced_def id)
  show "exec_of (tables s') (c_execution_id c) \<noteq> None" by (simp add: id a(1,3) effect_simps)
qed

text \<open>What becomes of the reports of a fenced token.\<close>

lemma fenced_complete:
  assumes "fenced k t (tables s)" and "exec_of (tables s) k \<noteq> None"
  shows "fst (complete jsonb k t w res s) \<noteq> Inr () \<and>
    rows_unchanged (tables s) (tables (snd (complete jsonb k t w res s))) \<and>
    (net s = [] \<and> json_param jsonb res \<noteq> None \<longrightarrow> fst (complete jsonb k t w res s) = Inl ErrStale)"
  using fenced_not_live [OF assms(1)] assms(2) completing.outcome [of jsonb k t w res s]
    completing.atomic [of s jsonb k t w res] completing.quiet [of s jsonb k t w res]
  by (fastforce simp: outcome_def complete_effect_def rows_unchanged_same_data split: option.splits)

lemma fenced_fail:
  assumes "fenced k t (tables s)" and "exec_of (tables s) k \<noteq> None"
  shows "fst (fail k t w msg s) \<noteq> Inr () \<and>
    rows_unchanged (tables s) (tables (snd (fail k t w msg s))) \<and>
    (net s = [] \<longrightarrow> fst (fail k t w msg s) = Inl ErrStale)"
  using fenced_not_live [OF assms(1)] assms(2) failing.outcome [of k t w msg s]
    failing.atomic [of s k t w msg] failing.quiet [of s k t w msg]
  by (fastforce simp: outcome_def fail_effect_def rows_unchanged_same_data split: option.splits)

lemma fenced_heartbeat:
  assumes "fenced k t (tables s)"
  shows "fst (heartbeat k t secs s) \<noteq> Inr () \<and>
    rows_unchanged (tables s) (tables (snd (heartbeat k t secs s))) \<and>
    (net s = [] \<longrightarrow> heartbeat k t secs s = (Inl ErrStale, s))"
  using fenced_not_live [OF assms(1)] heartbeating.outcome [of k t secs s]
    heartbeating.atomic [of s k t secs] heartbeating.quiet [of s k t secs]
  by (fastforce simp: outcome_def heartbeat_effect_def rows_unchanged_same_data)

text \<open>
  C3. After a claim is granted, no token the execution's log recorded before it can complete,
  fail or extend the execution any more: in every later state of a system with any number of
  schedulers, whatever the processes did in between and whatever the connection does, such a
  report does not succeed and leaves executions, leases and the retry schedule alone; over a
  working connection it is answered \<open>ErrStale\<close>.
\<close>

theorem reclaim_fences_older_tokens:
  assumes "wf_db (tables s)" and "claim locked w secs s = (Inr c, s')"
    and "t \<in> set (tokens (log_of (tables s) (c_execution_id c)))"
    and "sys_steps jsonb (s', ps) (s2, ps')"
  shows "fst (complete jsonb (c_execution_id c) t w' res s2) \<noteq> Inr () \<and>
    rows_unchanged (tables s2) (tables (snd (complete jsonb (c_execution_id c) t w' res s2))) \<and>
    fst (fail (c_execution_id c) t w' msg s2) \<noteq> Inr () \<and>
    rows_unchanged (tables s2) (tables (snd (fail (c_execution_id c) t w' msg s2))) \<and>
    fst (heartbeat (c_execution_id c) t secs' s2) \<noteq> Inr () \<and>
    rows_unchanged (tables s2) (tables (snd (heartbeat (c_execution_id c) t secs' s2))) \<and>
    (net s2 = [] \<longrightarrow>
      (json_param jsonb res \<noteq> None \<longrightarrow> fst (complete jsonb (c_execution_id c) t w' res s2) = Inl ErrStale) \<and>
      fst (fail (c_execution_id c) t w' msg s2) = Inl ErrStale \<and>
      heartbeat (c_execution_id c) t secs' s2 = (Inl ErrStale, s2))"
proof -
  note f = claim_fences [OF assms(1-3)]
  have f2: "fenced (c_execution_id c) t (tables s2)"
    using fences.steps_kept [OF assms(4)] f(1) by simp
  have x2: "exec_of (tables s2) (c_execution_id c) \<noteq> None"
    using rows.steps_kept [OF assms(4)] rows_kept_exec f(2) by auto
  from fenced_complete [OF f2 x2] fenced_fail [OF f2 x2] fenced_heartbeat [OF f2]
  show ?thesis by blast
qed

theorem reclaim_fences_older_tokens_witness:
  "fst (complete Some ''a'' 1 ''w1'' (Some ''0'') sc_completed) = Inl ErrStale \<and>
   rows_unchanged (tables sc_completed) (tables (snd (complete Some ''a'' 1 ''w1'' (Some ''0'') sc_completed)))"
proof -
  let ?c = "\<lparr>c_execution_id = ''a'', c_tool_name = ''slow_compute'', c_input_args = ''{}'',
     c_attempts = 2, c_max_attempts = 3, c_fencing_token = 2, c_lease_expires = 61000000\<rparr>"
  have run: "claim [] ''w2'' 30 sc_reaped = (Inr ?c, sc_reclaimed)" by code_simp
  have t: "1 \<in> set (tokens (log_of (tables sc_reaped) (c_execution_id ?c)))" by code_simp
  have st: "sys_steps Some (sc_reclaimed, []) (sc_completed, [])"
    unfolding sc_completed_def by (rule steps_complete [OF sys_refl])
  have q: "net sc_completed = []" by code_simp
  show ?thesis
    using reclaim_fences_older_tokens [OF wf_sc_reaped run t st, of "''w1''" "Some ''0''"] q
    by (simp add: json_param_def)
qed

section \<open>Tokens supplied by callers count\<close>

lemma token_out_of_range:
  assumes "int64_max \<in> set (tokens (log_of d (e_id e)))" and "select_ready locked d = Some e2" and "e_id e2 = e_id e"
  shows "claim_effect locked w secs now d = (Inl (DbError (SqlState ''22003'')), d)"
proof -
  have "int64_max < next_token d (e_id e2)" using assms(1,3) log_tokens_below_next by simp
  moreover have "exec_of d (e_id e2) \<noteq> None"
    using select_readyD(1) [OF assms(2)] exec_of_member by force
  ultimately show ?thesis by (auto simp: claim_effect_def assms(2) split: option.split dest: exec_of_id)
qed

text \<open>
  C35. A rejected report is logged with the token its caller presented, and the next claim
  takes the maximum over the whole log. So after one rejected completion that presents the
  largest \<open>BIGINT\<close> for a ready execution the token of its next claim is out of range for
  good: the execution is still there to be claimed, and in every later state of a system with
  any number of schedulers in which it is the ready row a claim would take, \<open>Claim\<close> hands out
  no work to anybody, and over a working connection fails and changes nothing.
\<close>

theorem presented_token_blocks_queue:
  assumes "wf_db (tables s)" and "net s = []" and "json_param jsonb res \<noteq> None"
    and "select_ready locked (tables s) = Some e"
    and "s' = snd (complete jsonb (e_id e) int64_max w res s)"
    and "sys_steps jsonb (s', ps) (s2, ps')"
    and "select_ready locked2 (tables s2) = Some e2" and "e_id e2 = e_id e"
  shows "fst (complete jsonb (e_id e) int64_max w res s) = Inl ErrStale \<and>
    select_ready locked (tables s') = Some e \<and>
    (\<forall>c. fst (claim locked2 w' secs s2) \<noteq> Inr c) \<and>
    (net s2 = [] \<longrightarrow> claim locked2 w' secs s2 = (Inl (DbError (SqlState ''22003'')), s2))"
proof -
  note row = select_ready_row [OF assms(1,4)]
  have "lease_of (tables s) (e_id e) = None"
    using wf_db_row [OF assms(1) row] select_readyD(2) [OF assms(4)] by (auto simp: coherent_row_def)
  then have sup: "superseded s (e_id e) int64_max" by (simp add: superseded_def)
  have dead: "\<not> live_lease (clock s) (tables s) (e_id e) int64_max"
    using superseded_not_live [OF assms(1) sup] by simp
  let ?d = "rejected_db (clock s) (e_id e) w int64_max
      ''completion rejected: fencing token superseded or lease expired'' (tables s)"
  have r: "complete jsonb (e_id e) int64_max w res s = (Inl ErrStale, s\<lparr>tables := ?d\<rparr>)"
    using assms(3) row dead by (auto simp: completing.quiet [OF assms(2)] complete_effect_def)
  have sel: "select_ready locked ?d = Some e"
    using assms(4) by (simp add: select_ready_def rejected_db_def)
  have "int64_max \<in> set (tokens (log_of ?d (e_id e)))"
    by (simp add: effect_simps tokens_append tokens_single)
  then have "int64_max \<in> set (tokens (log_of (tables s2) (e_id e)))"
    using tokens_prefix [of "tables s'" "tables s2"] logs.steps_kept [OF assms(6)] r assms(5) by fastforce
  then have eff: "claim_effect locked2 w' secs now (tables s2) = (Inl (DbError (SqlState ''22003'')), tables s2)" for now
    using token_out_of_range assms(7,8) by blast
  have "fst (claim locked2 w' secs s2) \<noteq> Inr c" for c
    using claiming.outcome [of locked2 w' secs s2] by (auto simp: outcome_def eff)
  moreover have "claim locked2 w' secs s2 = (Inl (DbError (SqlState ''22003'')), s2)" if "net s2 = []"
    using claiming.quiet [OF that] by (simp add: eff)
  ultimately show ?thesis using r sel assms(5) by simp
qed

text \<open>An hour later, over a connection that broke in between, the queue is still blocked.\<close>

theorem presented_token_blocks_queue_witness:
  "fst (claim [] ''w2'' 30 ((snd (complete Some ''a'' int64_max ''x'' (Some ''1'') sc_submitted))\<lparr>clock := 3600000000\<rparr>)) =
    Inl (DbError (SqlState ''22003''))"
proof -
  let ?s1 = "snd (complete Some ''a'' int64_max ''x'' (Some ''1'') sc_submitted)"
  let ?s2 = "?s1\<lparr>clock := 3600000000\<rparr>"
  have q: "net sc_submitted = []" "net ?s2 = []" by code_simp+
  have j: "json_param Some (Some ''1'') \<noteq> None" by code_simp
  have "map_option e_id (select_ready [] (tables sc_submitted)) = Some ''a''" by code_simp
  then obtain e where e: "select_ready [] (tables sc_submitted) = Some e" "e_id e = ''a''" by auto
  have "map_option e_id (select_ready [] (tables ?s2)) = Some ''a''" by code_simp
  then obtain e2 where e2: "select_ready [] (tables ?s2) = Some e2" "e_id e2 = e_id e" using e(2) by auto
  have c: "clock ?s1 \<le> clock ?s2" by code_simp
  have st: "sys_steps Some (snd (complete Some (e_id e) int64_max ''x'' (Some ''1'') sc_submitted), []) (?s2, [])"
    unfolding e(2) by (rule steps_read [OF sys_refl _ c]) simp
  show ?thesis
    using presented_token_blocks_queue [OF wf_sc_submitted q(1) j e(1) refl st e2, of "''w2''" 30] q(2)
    by simp
qed

end
