(* ===== verification/Dedup.thy ===== *)
theory Dedup
  imports Scenario
begin

text \<open>
  Submission is idempotent per (namespace, tool, key): the first call accepts the work, every
  repetition is answered with the same execution, and a caller that lost the reply can
  simply submit again.
\<close>

lemma submit_answer:
  assumes "submit jsonb uid ns name key args s = (Inr r, s')"
  shows "\<exists>now. clock s \<le> now \<and> now \<le> clock s' \<and>
    submit_effect jsonb uid ns name key args now (tables s) = (Inr r, tables s')"
  using submitting.answer [OF assms] by blast

lemma filter_key_append_new:
  "row_of e_key es k = None \<Longrightarrow> e_key e = k \<Longrightarrow> filter (\<lambda>x. e_key x = k) (es @ [e]) = [e]"
  by (induction es) (auto simp: row_of_Cons split: if_splits)

lemma e_key_updates [simp]:
  "e_key (e\<lparr>e_updated_at := t\<rparr>) = e_key e"
  "e_key (e\<lparr>e_status := v\<rparr>) = e_key e"
  by (simp_all add: e_key_def)

lemma exec_fields_new [simp]:
  "e_key (new_execution now uid ns name key args n) = (ns, name, key)"
  by (simp add: e_key_def new_execution_def)

lemma row_of_key_upd:
  assumes "\<And>e. e_key (f e) = e_key e"
  shows "row_of e_key (upd_where p f es) k =
    map_option (\<lambda>e. if p e then f e else e) (row_of e_key es k)"
  using assms by (induction es) (auto simp: upd_where_def row_of_Cons row_of_def)


lemma log_of_frames [simp]:
  "log_of (set_status now eid v d) = log_of d" "log_of (touch_execution now eid d) = log_of d"
  "log_of (d\<lparr>db_executions := es\<rparr>) = log_of d"
  by (simp_all add: log_of_def fun_eq_iff)

lemma new_event_type [simp]: "v_event_type (new_event now eid ty w tok pl n) = ty"
  by (simp add: new_event_def)

lemma wf_db_no_log: "wf_db d \<Longrightarrow> exec_of d k = None \<Longrightarrow> log_of d k = []"
  unfolding wf_db_def coherent_at_def by (metis coherent_None)

section \<open>The first submission\<close>

text \<open>
  C13. A submission of a new key that succeeds accepts the work: it adds exactly one row,
  ready, with no attempts used, the tool's limit of attempts and the submitted arguments
  (an empty object when there are none), logs that it was submitted and made ready, and
  changes no other execution, lease or retry.
\<close>

theorem submit_accepts:
  assumes "wf_db (tables s)" and "submit jsonb uid ns name key args s = (Inr r, s')"
    and "row_of e_key (db_executions (tables s)) (ns, name, key) = None"
  shows "\<exists>now t doc. clock s \<le> now \<and> now \<le> clock s' \<and>
    row_of t_name (db_tools (tables s)) name = Some t \<and> jsonb (args_or_empty args) = Some doc \<and>
    r = \<lparr>s_execution_id = uid, s_status = ''accepted'', s_result = None, s_duplicate = False\<rparr> \<and>
    exec_of (tables s) uid = None \<and>
    exec_of (tables s') = (exec_of (tables s))(uid \<mapsto>
      \<lparr>e_id = uid, e_namespace = ns, e_tool_name = name, e_idempotency_key = key,
       e_input_args = doc, e_status = Ready, e_attempts = 0, e_max_attempts = t_max_attempts t,
       e_result = None, e_error_message = None, e_created_at = now, e_updated_at = now\<rparr>) \<and>
    length (db_executions (tables s')) = length (db_executions (tables s)) + 1 \<and>
    map v_event_type (log_of (tables s') uid) = [Ev_submitted, Ev_ready] \<and>
    db_leases (tables s') = db_leases (tables s) \<and> db_retries (tables s') = db_retries (tables s)"
proof -
  from submit_answer [OF assms(2)] obtain now
    where n: "clock s \<le> now" "now \<le> clock s'"
      and eff: "submit_effect jsonb uid ns name key args now (tables s) = (Inr r, tables s')" by blast
  from eff assms(3) obtain t doc where t: "row_of t_name (db_tools (tables s)) name = Some t"
    and doc: "jsonb (args_or_empty args) = Some doc" and new: "exec_of (tables s) uid = None"
    and r: "r = \<lparr>s_execution_id = uid, s_status = ''accepted'', s_result = None, s_duplicate = False\<rparr>"
    and d: "tables s' = log_event now uid Ev_ready [] None None
         (set_status now uid Ready
           (log_event now uid Ev_submitted [] None
             (Some [(''tool'', PStr name), (''namespace'', PStr ns)])
             ((tables s)\<lparr>db_executions := db_executions (tables s) @
                  [new_execution now uid ns name key doc (t_max_attempts t)]\<rparr>)))"
    by (auto simp: submit_effect_def split: option.splits if_splits)
  have ex: "exec_of (tables s') = (exec_of (tables s))(uid \<mapsto>
      \<lparr>e_id = uid, e_namespace = ns, e_tool_name = name, e_idempotency_key = key,
       e_input_args = doc, e_status = Ready, e_attempts = 0, e_max_attempts = t_max_attempts t,
       e_result = None, e_error_message = None, e_created_at = now, e_updated_at = now\<rparr>)"
    by (rule ext) (simp add: d exec_of_insert new new_execution_def split: option.split)
  have len: "length (db_executions (tables s')) = length (db_executions (tables s)) + 1"
    by (simp add: d set_status_def upd_where_def)
  have lg: "map v_event_type (log_of (tables s') uid) = [Ev_submitted, Ev_ready]"
    by (simp add: d wf_db_no_log [OF assms(1) new])
  show ?thesis
    by (intro exI [of _ now] exI [of _ t] exI [of _ doc] conjI n t doc r new ex len lg)
       (simp_all add: d)
qed

theorem submit_accepts_witness:
  "exec_of (tables sc_submitted) ''a'' = Some
    \<lparr>e_id = ''a'', e_namespace = ''ns'', e_tool_name = ''slow_compute'', e_idempotency_key = ''k'',
     e_input_args = ''{}'', e_status = Ready, e_attempts = 0, e_max_attempts = 3,
     e_result = None, e_error_message = None, e_created_at = 0, e_updated_at = 0\<rparr>"
proof -
  have run: "submit Some ''a'' ''ns'' ''slow_compute'' ''k'' (Some ''{}'') sc_start =
    (Inr \<lparr>s_execution_id = ''a'', s_status = ''accepted'', s_result = None, s_duplicate = False\<rparr>,
     sc_submitted)" by code_simp
  have key: "row_of e_key (db_executions (tables sc_start)) (''ns'', ''slow_compute'', ''k'') = None"
    by code_simp
  have c: "clock sc_start = 0" "clock sc_submitted = 0"
    "map_option t_max_attempts (row_of t_name (db_tools (tables sc_start)) ''slow_compute'') = Some 3"
    "args_or_empty (Some ''{}'') = ''{}''" by code_simp+
  obtain now t doc where h: "clock sc_start \<le> now" "now \<le> clock sc_submitted"
    "row_of t_name (db_tools (tables sc_start)) ''slow_compute'' = Some t"
    "Some (args_or_empty (Some ''{}'')) = Some doc"
    "exec_of (tables sc_submitted) = (exec_of (tables sc_start))(''a'' \<mapsto>
      \<lparr>e_id = ''a'', e_namespace = ''ns'', e_tool_name = ''slow_compute'', e_idempotency_key = ''k'',
       e_input_args = doc, e_status = Ready, e_attempts = 0, e_max_attempts = t_max_attempts t,
       e_result = None, e_error_message = None, e_created_at = now, e_updated_at = now\<rparr>)"
    using submit_accepts [OF wf_sc_start run key] by blast
  with c have "now = 0" "t_max_attempts t = 3" "doc = ''{}''" by auto
  with h(5) show ?thesis by simp
qed

section \<open>Repetitions\<close>

text \<open>
  C14. A submission of a key that is already there never starts work again: it is answered
  as a duplicate with the original execution's identifier and status, and with its result
  exactly when it completed; of the stored data only that row's time of update changes, and
  one event records the repetition.
\<close>

theorem resubmit_returns_original:
  assumes "wf_db (tables s)" and "submit jsonb uid ns name key args s = (Inr r, s')"
    and "row_of e_key (db_executions (tables s)) (ns, name, key) = Some e"
  shows "\<exists>now. clock s \<le> now \<and> now \<le> clock s' \<and>
    r = \<lparr>s_execution_id = e_id e, s_status = status_text (e_status e),
         s_result = (if e_status e = Completed then e_result e else None), s_duplicate = True\<rparr> \<and>
    exec_of (tables s') = (exec_of (tables s))(e_id e \<mapsto> e\<lparr>e_updated_at := now\<rparr>) \<and>
    length (db_executions (tables s')) = length (db_executions (tables s)) \<and>
    db_leases (tables s') = db_leases (tables s) \<and> db_retries (tables s') = db_retries (tables s) \<and>
    map v_event_type (log_of (tables s') (e_id e)) =
      map v_event_type (log_of (tables s) (e_id e)) @ [Ev_duplicate_detected]"
proof -
  from submit_answer [OF assms(2)] obtain now
    where n: "clock s \<le> now" "now \<le> clock s'"
      and eff: "submit_effect jsonb uid ns name key args now (tables s) = (Inr r, tables s')" by blast
  from eff assms(3) have
        r: "r = \<lparr>s_execution_id = e_id e, s_status = status_text (e_status e),
         s_result = (if e_status e = Completed then e_result e else None), s_duplicate = True\<rparr>"
    and d: "tables s' = log_event now (e_id e) Ev_duplicate_detected [] None
                       (Some [(''idempotency_key'', PStr key)]) (touch_execution now (e_id e) (tables s))"
    by (auto simp: submit_effect_def split: option.splits if_splits)
  have "e \<in> set (db_executions (tables s))" using row_of_SomeD [OF assms(3)] by simp
  then have row: "exec_of (tables s) (e_id e) = Some e"
    using assms(1) by (simp add: wf_db_def wf_keys_def exec_of_def row_of_in)
  have ex: "exec_of (tables s') = (exec_of (tables s))(e_id e \<mapsto> e\<lparr>e_updated_at := now\<rparr>)"
    by (rule ext) (simp add: d row)
  show ?thesis
    by (intro exI [of _ now] conjI n r ex)
       (simp_all add: d touch_execution_def upd_where_def)
qed

theorem resubmit_returns_original_witness:
  "fst (submit Some ''b'' ''ns'' ''slow_compute'' ''k'' None sc_completed) =
     Inr \<lparr>s_execution_id = ''a'', s_status = ''completed'', s_result = Some ''1'', s_duplicate = True\<rparr> \<and>
   exec_of (tables (snd (submit Some ''b'' ''ns'' ''slow_compute'' ''k'' None sc_completed))) ''b'' =
     exec_of (tables sc_completed) ''b''"
proof -
  let ?r = "\<lparr>s_execution_id = ''a'', s_status = ''completed'', s_result = Some ''1'', s_duplicate = True\<rparr>"
  let ?s = "snd (submit Some ''b'' ''ns'' ''slow_compute'' ''k'' None sc_completed)"
  have fst: "fst (submit Some ''b'' ''ns'' ''slow_compute'' ''k'' None sc_completed) = Inr ?r"
    by code_simp
  then have run: "submit Some ''b'' ''ns'' ''slow_compute'' ''k'' None sc_completed = (Inr ?r, ?s)"
    by (metis prod.collapse)
  have "map_option e_id (row_of e_key (db_executions (tables sc_completed)) (''ns'', ''slow_compute'', ''k''))
      = Some ''a''" by code_simp
  then obtain e where e: "row_of e_key (db_executions (tables sc_completed)) (''ns'', ''slow_compute'', ''k'')
      = Some e" "e_id e = ''a''" by auto
  obtain now where "exec_of (tables ?s) = (exec_of (tables sc_completed))(e_id e \<mapsto> e\<lparr>e_updated_at := now\<rparr>)"
    using resubmit_returns_original [OF wf_sc_completed run e(1)] by blast
  then have "exec_of (tables ?s) ''b'' = exec_of (tables sc_completed) ''b''" by (simp add: e(2))
  with fst show ?thesis by blast
qed

section \<open>Submitting again after a lost reply\<close>

lemma submit_keeps_key:
  assumes "wf_db d"
  shows "length (filter (\<lambda>e. e_key e = (ns, name, key)) (db_executions (snd (submit_effect jsonb uid ns name key args now d)))) =
    (if row_of e_key (db_executions d) (ns, name, key) \<noteq> None
        \<or> (\<exists>r. fst (submit_effect jsonb uid ns name key args now d) = Inr r) then 1 else 0)"
proof -
  have d: "distinct (map e_key (db_executions d))" using assms by (simp add: wf_db_def wf_keys_def)
  have upd: "filter (\<lambda>e. e_key e = k) (upd_where p f es) = upd_where p f (filter (\<lambda>e. e_key e = k) es)"
    if "\<And>e. e_key (f e) = e_key e" for p f es and k :: "string \<times> string \<times> string"
    using that by (induction es) (auto simp: upd_where_def)
  have len: "length (upd_where p f es) = length es" for p es and f :: "execution \<Rightarrow> execution"
    by (simp add: upd_where_def)
  show ?thesis
    by (auto simp: submit_effect_def touch_execution_def set_status_def upd len
        filter_key [OF d] split: option.split)
qed

lemma submit_effect_tools:
  "db_tools (snd (submit_effect jsonb uid ns name key args now d)) = db_tools d"
  by (simp add: submit_effect_def split: option.split)

text \<open>
  C8. A caller that loses the reply can submit again: whatever happened to the first call
  (answered, refused on the way, or carried out without a reply), a second submission of the
  same key over a working connection succeeds and leaves exactly one execution with that key.
\<close>

theorem submit_retry_single_execution:
  assumes "wf_db (tables s)" and "row_of t_name (db_tools (tables s)) name = Some t"
    and "jsonb (args_or_empty args) = Some doc"
    and "s1 = snd (submit jsonb uid ns name key args s)"
    and "net s1 = []" and "exec_of (tables s1) uid2 = None"
  shows "\<exists>r s2. submit jsonb uid2 ns name key args s1 = (Inr r, s2) \<and>
    length (filter (\<lambda>e. e_key e = (ns, name, key)) (db_executions (tables s2))) = 1"
proof -
  have wf1: "wf_db (tables s1)" unfolding assms(4) by (rule submit_op.wf_run [OF assms(1)])
  have tools: "db_tools (tables s1) = db_tools (tables s)"
    using submitting.atomic [of s jsonb uid ns name key args] unfolding assms(4)
    by (auto simp: same_dataD submit_effect_tools)
  let ?f = "submit_effect jsonb uid2 ns name key args (clock s1) (tables s1)"
  obtain r where r: "fst ?f = Inr r"
    using assms(2,3,6) tools
    by (cases "row_of e_key (db_executions (tables s1)) (ns, name, key)") (auto simp: submit_effect_def)
  have "submit jsonb uid2 ns name key args s1 = (Inr r, s1\<lparr>tables := snd ?f\<rparr>)"
    using submitting.quiet [OF assms(5)] r by simp
  moreover have "length (filter (\<lambda>e. e_key e = (ns, name, key)) (db_executions (snd ?f))) = 1"
    using submit_keeps_key [OF wf1] r by auto
  ultimately show ?thesis by auto
qed

theorem submit_retry_single_execution_witness:
  "fst (submit Some ''a'' ''ns'' ''slow_compute'' ''k'' (Some ''{}'')
      (sc_start\<lparr>net := replicate 6 (0, Fine) @ [(0, Unacked ''reset'')]\<rparr>)) =
    Inl (DbError (Transport ''reset'')) \<and>
   (\<exists>r s2. submit Some ''b'' ''ns'' ''slow_compute'' ''k'' (Some ''{}'')
      (snd (submit Some ''a'' ''ns'' ''slow_compute'' ''k'' (Some ''{}'')
        (sc_start\<lparr>net := replicate 6 (0, Fine) @ [(0, Unacked ''reset'')]\<rparr>))) = (Inr r, s2) \<and>
    length (filter (\<lambda>e. e_key e = (''ns'', ''slow_compute'', ''k'')) (db_executions (tables s2))) = 1)"
proof -
  let ?s = "sc_start\<lparr>net := replicate 6 (0, Fine) @ [(0, Unacked ''reset'')]\<rparr>"
  let ?s1 = "snd (submit Some ''a'' ''ns'' ''slow_compute'' ''k'' (Some ''{}'') ?s)"
  have wf: "wf_db (tables ?s)" using wf_sc_start by simp
  have t: "row_of t_name (db_tools (tables ?s)) ''slow_compute'' = Some demo_tool" by code_simp
  have j: "Some (args_or_empty (Some ''{}'')) = Some ''{}''" by code_simp
  have n: "net ?s1 = []" by code_simp
  have f: "exec_of (tables ?s1) ''b'' = None" by code_simp
  have first: "fst (submit Some ''a'' ''ns'' ''slow_compute'' ''k'' (Some ''{}'') ?s) =
      Inl (DbError (Transport ''reset''))" by code_simp
  show ?thesis
    using first submit_retry_single_execution [OF wf t j refl n f] by blast
qed

end
