(* ===== verification/Queries.thy ===== *)
theory Queries
  imports Store_Safety Scenario "HOL-Library.List_Lexorder" "HOL-Library.Char_ord" "HOL-Library.Multiset"
begin

text \<open>
  The read side of the store, \<open>internal/store/query.go\<close>: statistics, listings and single
  look-ups. A query that fails part of the way returns its error; the callers discard the
  rows that came with it. \<open>coll\<close> is the database's collation, as the sort key of a text.
  Executions with equal \<open>created_at\<close> are listed in any order, which may be another for every
  query: \<open>tie\<close> ranks the rows among their equals.
\<close>

section \<open>Results\<close>

record stats_view =
  n_total :: nat
  n_ready :: nat
  n_running :: nat
  n_completed :: nat
  n_failed :: nat
  n_active_leases :: nat

record execution_view =
  x_id :: string
  x_namespace :: string
  x_tool_name :: string
  x_idempotency_key :: string
  x_input_args :: string
  x_status :: string
  x_attempts :: int
  x_max_attempts :: int
  x_result :: raw_message
  x_error_message :: string
  x_created_at :: time
  x_updated_at :: time
  x_lease :: "lease option"

record event_view =
  u_id :: int
  u_execution_id :: string
  u_event_type :: string
  u_worker_id :: string
  u_fencing_token :: "int option"
  u_payload :: "payload option"
  u_occurred_at :: time

text \<open>The age of the oldest claim, in microseconds.\<close>

record worker_view =
  y_worker_id :: string
  y_claimed :: nat
  y_oldest_claim_age :: int

fun event_type_text :: "event_type \<Rightarrow> string" where
  "event_type_text Ev_submitted = ''submitted''"
| "event_type_text Ev_ready = ''ready''"
| "event_type_text Ev_claimed = ''claimed''"
| "event_type_text Ev_heartbeat = ''heartbeat''"
| "event_type_text Ev_completed = ''completed''"
| "event_type_text Ev_failed = ''failed''"
| "event_type_text Ev_lease_expired = ''lease_expired''"
| "event_type_text Ev_stale_rejected = ''stale_rejected''"
| "event_type_text Ev_retry_scheduled = ''retry_scheduled''"
| "event_type_text Ev_cancelled = ''cancelled''"
| "event_type_text Ev_duplicate_detected = ''duplicate_detected''"

section \<open>scanExecution\<close>

definition scan_execution :: "execution \<times> lease option \<Rightarrow> execution_view" where
  "scan_execution row = (case row of (e, l) \<Rightarrow>
     \<lparr>x_id = e_id e, x_namespace = e_namespace e, x_tool_name = e_tool_name e,
      x_idempotency_key = e_idempotency_key e, x_input_args = e_input_args e,
      x_status = status_text (e_status e), x_attempts = e_attempts e,
      x_max_attempts = e_max_attempts e,
      x_result = (case e_result e of None \<Rightarrow> None | Some t \<Rightarrow> if t = [] then None else Some t),
      x_error_message = (case e_error_message e of None \<Rightarrow> [] | Some m \<Rightarrow> m),
      x_created_at = e_created_at e, x_updated_at = e_updated_at e, x_lease = l\<rparr>)"

text \<open>\<open>executions e LEFT JOIN execution_leases l ON l.execution_id = e.id\<close>\<close>

definition with_lease :: "db \<Rightarrow> execution \<Rightarrow> execution \<times> lease option" where
  "with_lease d e = (e, lease_of d (e_id e))"

section \<open>Queries\<close>

definition read_stmt :: "(time \<Rightarrow> db \<Rightarrow> 'a) \<Rightarrow> 'a prog" where
  "read_stmt q = auto_stmt (\<lambda>now d. (Inr (q now d), d))"

text \<open>\<open>return list, rows.Err()\<close>\<close>

definition read_rows :: "(time \<Rightarrow> db \<Rightarrow> 'r list) \<Rightarrow> 'r list prog" where
  "read_rows q = prog_bind (query_rows q)
     (\<lambda>(rows, err). case err of Some e \<Rightarrow> prog_fail (DbError e) | None \<Rightarrow> prog_return rows)"

definition count_status :: "status \<Rightarrow> db \<Rightarrow> nat" where
  "count_status v d = length (filter (\<lambda>e. e_status e = v) (db_executions d))"

definition live_leases :: "time \<Rightarrow> db \<Rightarrow> lease list" where
  "live_leases now d = filter (\<lambda>l. now < l_lease_expires l) (db_leases d)"

definition stats :: "stats_view prog" where
  "stats = prog_bind
     (read_stmt (\<lambda>now d. (length (db_executions d), count_status Ready d, count_status Running d,
        count_status Completed d, count_status Failed d)))
     (\<lambda>(total, ready, running, completed, failed).
        prog_bind (read_stmt (\<lambda>now d. length (live_leases now d)))
          (\<lambda>active. prog_return \<lparr>n_total = total, n_ready = ready, n_running = running,
             n_completed = completed, n_failed = failed, n_active_leases = active\<rparr>))"

definition list_tools :: "(string \<Rightarrow> string) \<Rightarrow> tool list prog" where
  "list_tools coll = read_rows (\<lambda>now d. sort_key (\<lambda>t. coll (t_name t)) (db_tools d))"

definition clamp_limit :: "int \<Rightarrow> nat" where
  "clamp_limit limit = (if limit \<le> 0 \<or> limit > 200 then 50 else nat limit)"

definition clamp_offset :: "int \<Rightarrow> nat" where
  "clamp_offset off = (if off < 0 then 0 else nat off)"

definition matching :: "(execution \<Rightarrow> nat) \<Rightarrow> string \<Rightarrow> string \<Rightarrow> db \<Rightarrow> execution list" where
  "matching tie status tool d = sort_key (\<lambda>e. - e_created_at e) (sort_key tie
     (filter (\<lambda>e. (status = [] \<or> status_text (e_status e) = status) \<and>
                  (tool = [] \<or> e_tool_name e = tool)) (db_executions d)))"

definition list_executions ::
  "(execution \<Rightarrow> nat) \<Rightarrow> string \<Rightarrow> string \<Rightarrow> int \<Rightarrow> int \<Rightarrow> execution_view list prog" where
  "list_executions tie status tool limit off =
     read_rows (\<lambda>now d. map (\<lambda>e. scan_execution (with_lease d e))
       (take (clamp_limit limit) (drop (clamp_offset off) (matching tie status tool d))))"

text \<open>
  \<open>uuid_in\<close> is the driver's reading of a text as a UUID: its canonical text, or the error.
  \<open>(nil, nil)\<close>, no such execution, is \<open>None\<close>.
\<close>

definition get_execution :: "(string \<Rightarrow> dberr + exec_id) \<Rightarrow> string \<Rightarrow> (execution_view option) prog" where
  "get_execution uuid_in i = (case uuid_in i of
       Inl e \<Rightarrow> prog_fail (DbError e)
     | Inr eid \<Rightarrow> read_stmt (\<lambda>now d. map_option (\<lambda>e. scan_execution (with_lease d e)) (exec_of d eid)))"

definition scan_event :: "event \<Rightarrow> event_view" where
  "scan_event v = \<lparr>u_id = v_id v, u_execution_id = v_execution_id v,
     u_event_type = event_type_text (v_event_type v),
     u_worker_id = (case v_worker_id v of None \<Rightarrow> [] | Some w \<Rightarrow> w),
     u_fencing_token = v_fencing_token v, u_payload = v_payload v, u_occurred_at = v_occurred_at v\<rparr>"

definition events_ordered :: "event list \<Rightarrow> event list" where
  "events_ordered vs = sort_key v_occurred_at (sort_key v_id vs)"

definition list_events :: "(string \<Rightarrow> dberr + exec_id) \<Rightarrow> string \<Rightarrow> event_view list prog" where
  "list_events uuid_in i = (case uuid_in i of
       Inl e \<Rightarrow> prog_fail (DbError e)
     | Inr eid \<Rightarrow> read_rows (\<lambda>now d. map scan_event (events_ordered (log_of d eid))))"

definition worker_row :: "time \<Rightarrow> lease list \<Rightarrow> string \<Rightarrow> worker_view" where
  "worker_row now ls w =
     (let mine = filter (\<lambda>l. l_worker_id l = w) ls
      in \<lparr>y_worker_id = w, y_claimed = length mine,
          y_oldest_claim_age = now - Min (set (map l_claimed_at mine))\<rparr>)"

definition list_workers :: "(string \<Rightarrow> string) \<Rightarrow> worker_view list prog" where
  "list_workers coll = read_rows (\<lambda>now d.
     map (worker_row now (live_leases now d))
       (sort_key coll (remdups (map l_worker_id (live_leases now d)))))"

section \<open>Reads answer from one state, or fail\<close>

lemma read_stmt_ok:
  assumes "read_stmt q s = (r, s')"
  shows "tables s' = tables s" and "clock s \<le> clock s'"
    and "(\<exists>e. r = Inl (DbError e)) \<or> r = Inr (q (clock s') (tables s))"
proof -
  obtain f s1 where a: "arrive s = (f, s1)" by force
  have t: "tables s1 = tables s" "clock s \<le> clock s1"
    using arrive_tables [of s] arrive_clock [of s] by (simp_all add: a)
  show "tables s' = tables s" "clock s \<le> clock s'"
    "(\<exists>e. r = Inl (DbError e)) \<or> r = Inr (q (clock s') (tables s))"
    using assms t by (cases f; auto simp: read_stmt_def auto_stmt_def exec_stmt_def a)+
qed

lemma read_rows_ok:
  assumes "read_rows q s = (r, s')"
  shows "tables s' = tables s" and "clock s \<le> clock s'"
    and "(\<exists>e. r = Inl (DbError e)) \<or> r = Inr (q (clock s') (tables s))"
proof -
  obtain f s1 where a: "arrive s = (f, s1)" by force
  have t: "tables s1 = tables s" "clock s \<le> clock s1"
    using arrive_tables [of s] arrive_clock [of s] by (simp_all add: a)
  show "tables s' = tables s" "clock s \<le> clock s'"
    "(\<exists>e. r = Inl (DbError e)) \<or> r = Inr (q (clock s') (tables s))"
    using assms t
    by (cases f; auto simp: read_rows_def query_rows_def prog_bind_def prog_fail_def prog_return_def a)+
qed

lemma read_rows_Inr:
  "read_rows q s = (Inr rows, s') \<Longrightarrow> clock s \<le> clock s' \<and> rows = q (clock s') (tables s)"
  using read_rows_ok [of q s "Inr rows" s'] by auto

lemma read_stmt_Inr:
  "read_stmt q s = (Inr v, s') \<Longrightarrow> tables s' = tables s \<and> clock s \<le> clock s' \<and> v = q (clock s') (tables s)"
  using read_stmt_ok [of q s "Inr v" s'] by auto

section \<open>Properties\<close>

lemma concat_pages:
  "length xs \<le> n * k \<Longrightarrow> concat (map (\<lambda>i. take k (drop (i * k) xs)) [0..<n]) = xs"
proof (induction n arbitrary: xs)
  case (Suc n)
  have "map (\<lambda>i. take k (drop (i * k) xs)) [0..<Suc n] =
      take k xs # map (\<lambda>i. take k (drop (i * k) (drop k xs))) [0..<n]"
    by (subst map_upt_Suc) (simp add: add.commute)
  moreover have "concat (map (\<lambda>i. take k (drop (i * k) (drop k xs))) [0..<n]) = drop k xs"
    using Suc.prems by (intro Suc.IH) simp
  ultimately show ?case by simp
qed simp

lemma read_rows_quiet: "net s = [] \<Longrightarrow> read_rows q s = (Inr (q (clock s) (tables s)), s)"
  by (simp add: read_rows_def query_rows_def prog_bind_def prog_return_def)

lemma fst_pair: "fst p = v \<Longrightarrow> p = (v, snd p)"
  by (cases p) simp

text \<open>The order of ties decides which row comes where, but never the times of the rows.\<close>

definition wanted :: "string \<Rightarrow> string \<Rightarrow> execution \<Rightarrow> bool" where
  "wanted status tool e \<longleftrightarrow> (status = [] \<or> status_text (e_status e) = status) \<and> (tool = [] \<or> e_tool_name e = tool)"

lemma matching_rows: "mset (matching tie status tool d) = filter_mset (wanted status tool) (mset (db_executions d))"
  by (simp add: matching_def wanted_def [abs_def])

lemma matching_sorted: "sorted (map (\<lambda>e. - e_created_at e) (matching tie status tool d))"
  unfolding matching_def by (rule sorted_sort_key)

lemma matching_newest_first: "sorted_wrt (\<lambda>a b. e_created_at b \<le> e_created_at a) (matching tie status tool d)"
  using matching_sorted [of tie status tool d] by (simp add: sorted_map)

lemma matching_times: "map e_created_at (matching t1 status tool d) = map e_created_at (matching t2 status tool d)"
proof -
  let ?f = "\<lambda>e. - e_created_at e"
  have "image_mset ?f (mset (matching t1 status tool d)) = image_mset ?f (mset (matching t2 status tool d))"
    by (simp add: matching_rows)
  then have "map ?f (matching t1 status tool d) = map ?f (matching t2 status tool d)"
    by (metis mset_map properties_for_sort matching_sorted sorted_sort_id)
  from arg_cong [OF this, of "map uminus"] show ?thesis by (simp add: comp_def)
qed

lemma matching_apart:
  assumes "distinct (map e_created_at (matching t1 status tool d))"
  shows "matching t2 status tool d = matching t1 status tool d"
proof -
  let ?f = "\<lambda>e. - e_created_at e"
  have f: "distinct (map ?f es) \<longleftrightarrow> distinct (map e_created_at es)" for es
    using distinct_map [of uminus "map e_created_at es"] by (simp add: comp_def inj_on_def)
  have d: "distinct (map ?f (matching t1 status tool d))" "distinct (map ?f (matching t2 status tool d))"
    using assms matching_times [of t1 status tool d t2] by (simp_all only: f)
  have "set (matching t2 status tool d) = set (matching t1 status tool d)"
    using matching_rows by (metis set_mset_mset)
  moreover from this have "inj_on ?f (set (matching t2 status tool d) \<union> set (matching t1 status tool d))"
    using d(1) by (simp add: distinct_map)
  ultimately show ?thesis by (intro map_sorted_distinct_set_unique) (use d matching_sorted in simp_all)
qed

text \<open>The pages a client fetches one after the other; \<open>ties i\<close> is the order of ties of the \<open>i\<close>-th query.\<close>

definition pages :: "(nat \<Rightarrow> execution \<Rightarrow> nat) \<Rightarrow> string \<Rightarrow> string \<Rightarrow> int \<Rightarrow> nat \<Rightarrow> st \<Rightarrow> execution_view list" where
  "pages ties status tool L n s = concat (map (\<lambda>i.
     case fst (list_executions (ties i) status tool L (int i * L) s) of Inr p \<Rightarrow> p | Inl _ \<Rightarrow> []) [0..<n])"

lemma page_rows:
  assumes "net s = []" and "0 < L" and "L \<le> 200"
  shows "(case fst (list_executions tie status tool L (int i * L) s) of Inr p \<Rightarrow> p | Inl _ \<Rightarrow> []) =
    take (nat L) (drop (i * nat L)
      (map (\<lambda>e. scan_execution (with_lease (tables s) e)) (matching tie status tool (tables s))))"
proof -
  have "clamp_limit L = nat L" using assms(2,3) by (simp add: clamp_limit_def)
  moreover have "clamp_offset (int i * L) = i * nat L"
    using assms(2) by (simp add: clamp_offset_def nat_mult_distrib mult_less_0_iff)
  ultimately show ?thesis
    by (simp add: list_executions_def read_rows_quiet [OF assms(1)] take_map drop_map)
qed

text \<open>
  C37. Paging through an unchanged store, with a limit the code accepts and enough pages: the
  rows of every page are matching executions with their current leases, and the times of the
  rows on all pages together are those of the matching executions, newest first, whatever
  order the database gives to ties in each query; and when no two matching executions have
  the same \<open>created_at\<close> nothing is lost or repeated: the pages together are exactly the
  matching executions.
\<close>

theorem pages_cover_matches:
  assumes "net s = []" and "0 < L" and "L \<le> 200"
    and "size (filter_mset (wanted status tool) (mset (db_executions (tables s)))) \<le> n * nat L"
  shows "map x_created_at (pages ties status tool L n s) = map e_created_at (matching tie status tool (tables s)) \<and>
    set (pages ties status tool L n s) \<subseteq> (\<lambda>e. scan_execution (with_lease (tables s) e)) `
      {e \<in> set (db_executions (tables s)). wanted status tool e} \<and>
    mset (matching tie status tool (tables s)) = filter_mset (wanted status tool) (mset (db_executions (tables s))) \<and>
    sorted_wrt (\<lambda>a b. e_created_at b \<le> e_created_at a) (matching tie status tool (tables s)) \<and>
    (distinct (map e_created_at (matching tie status tool (tables s))) \<longrightarrow>
      pages ties status tool L n s =
        map (\<lambda>e. scan_execution (with_lease (tables s) e)) (matching tie status tool (tables s)))"
proof -
  let ?g = "\<lambda>e. scan_execution (with_lease (tables s) e)"
  let ?m = "\<lambda>t. matching t status tool (tables s)"
  have p: "pages ties status tool L n s =
      concat (map (\<lambda>i. take (nat L) (drop (i * nat L) (map ?g (?m (ties i))))) [0..<n])"
    unfolding pages_def page_rows [OF assms(1-3)] ..
  have len: "length (?m tie) \<le> n * nat L" using assms(4) by (simp add: matching_rows flip: size_mset)
  have page: "map x_created_at (take k (drop j (map ?g (?m (ties i))))) = take k (drop j (map e_created_at (?m tie)))" for i j k
    by (simp add: comp_def scan_execution_def with_lease_def
        matching_times [of "ties i" status tool "tables s" tie] flip: take_map drop_map)
  have "map x_created_at (pages ties status tool L n s) =
      concat (map (\<lambda>i. take (nat L) (drop (i * nat L) (map e_created_at (?m tie)))) [0..<n])"
    unfolding p map_concat map_map comp_def page ..
  then have times: "map x_created_at (pages ties status tool L n s) = map e_created_at (?m tie)"
    using len by (simp add: concat_pages)
  have "set (?m t) = {e \<in> set (db_executions (tables s)). wanted status tool e}" for t
    using matching_rows [of t status tool "tables s"] by (metis set_mset_filter set_mset_mset)
  then have rows: "set (pages ties status tool L n s) \<subseteq> ?g ` {e \<in> set (db_executions (tables s)). wanted status tool e}"
    unfolding p by (fastforce dest!: in_set_takeD in_set_dropD)
  have "pages ties status tool L n s = map ?g (?m tie)" if d: "distinct (map e_created_at (?m tie))"
  proof -
    have "?m (ties i) = ?m tie" for i by (rule matching_apart [OF d])
    then show ?thesis unfolding p using len by (simp add: concat_pages)
  qed
  with times rows show ?thesis by (simp add: matching_rows matching_newest_first)
qed

text \<open>Two executions submitted one second apart.\<close>

definition sc_two :: st where
  "sc_two = snd (submit Some ''b'' ''ns'' ''slow_compute'' ''k2'' None (sc_submitted\<lparr>clock := 1000000\<rparr>))"

definition first_of :: "exec_id \<Rightarrow> execution \<Rightarrow> nat" where
  "first_of k e = (if e_id e = k then 0 else 1)"

theorem pages_cover_matches_witness:
  "pages (\<lambda>i. first_of ''a'') ''ready'' [] 1 2 sc_two =
    map (\<lambda>e. scan_execution (with_lease (tables sc_two) e)) (matching (first_of ''b'') ''ready'' [] (tables sc_two)) \<and>
   map x_id (pages (\<lambda>i. first_of ''a'') ''ready'' [] 1 2 sc_two) = [''b'', ''a'']"
proof -
  have n: "net sc_two = []" by code_simp
  have l: "size (filter_mset (wanted ''ready'' []) (mset (db_executions (tables sc_two)))) \<le> 2 * nat 1" by code_simp
  have d: "distinct (map e_created_at (matching (first_of ''b'') ''ready'' [] (tables sc_two)))" by code_simp
  have "map e_id (matching (first_of ''b'') ''ready'' [] (tables sc_two)) = [''b'', ''a'']" by code_simp
  then show ?thesis
    using pages_cover_matches [OF n _ _ l, of "\<lambda>i. first_of ''a''" "first_of ''b''"] d
    by (simp add: comp_def scan_execution_def with_lease_def)
qed

text \<open>
  With equal times it can happen that a row is on two pages and another on none: two
  executions submitted at the same time, listed one by one, the database choosing another
  order of the two for each query.
\<close>

definition sc_tied :: st where
  "sc_tied = snd (submit Some ''b'' ''ns'' ''slow_compute'' ''k2'' None sc_submitted)"

theorem tied_pages_lose_rows:
  "net sc_tied = [] \<and> map e_id (db_executions (tables sc_tied)) = [''a'', ''b''] \<and>
   map x_id (pages (\<lambda>i. first_of (if i = 0 then ''a'' else ''b'')) [] [] 1 2 sc_tied) = [''a'', ''a'']"
proof (intro conjI)
  show "net sc_tied = []" by code_simp
  show "map e_id (db_executions (tables sc_tied)) = [''a'', ''b'']" by code_simp
  show "map x_id (pages (\<lambda>i. first_of (if i = 0 then ''a'' else ''b'')) [] [] 1 2 sc_tied) = [''a'', ''a'']" by code_simp
qed

lemma count_partition:
  "length es = length (filter (\<lambda>e. e_status e = Pending) es) + length (filter (\<lambda>e. e_status e = Ready) es) +
    length (filter (\<lambda>e. e_status e = Running) es) + length (filter (\<lambda>e. e_status e = Completed) es) +
    length (filter (\<lambda>e. e_status e = Failed) es) + length (filter (\<lambda>e. e_status e = Cancelled) es)"
proof (induction es)
  case (Cons e es)
  then show ?case by (cases "e_status e") simp_all
qed simp

lemma no_cancelled: "wf_db d \<Longrightarrow> count_status Cancelled d = 0"
proof -
  assume wf: "wf_db d"
  have "e_status e \<noteq> Cancelled" if "e \<in> set (db_executions d)" for e
  proof -
    have "exec_of d (e_id e) = Some e"
      using wf that by (simp add: wf_db_def wf_keys_def exec_of_def row_of_in)
    from wf_db_row [OF wf this] show ?thesis by (simp add: coherent_row_def)
  qed
  then show ?thesis by (simp add: count_status_def filter_empty_conv)
qed

lemma live_leases_running:
  assumes "wf_db d"
  shows "length (live_leases now d) \<le> count_status Running d"
proof -
  have d: "distinct (map l_execution_id (db_leases d))" "distinct (map e_id (db_executions d))"
    using assms by (simp_all add: wf_db_def wf_keys_def)
  have sub: "l_execution_id ` set (live_leases now d) \<subseteq>
      e_id ` set (filter (\<lambda>e. e_status e = Running) (db_executions d))"
  proof
    fix k
    assume "k \<in> l_execution_id ` set (live_leases now d)"
    then obtain l where "l \<in> set (db_leases d)" "k = l_execution_id l" by (auto simp: live_leases_def)
    then have "lease_of d k = Some l" using d(1) by (simp add: lease_of_def row_of_in)
    then obtain e where e: "exec_of d k = Some e" "e_status e = Running"
      using running_row [OF assms] by blast
    then have "e \<in> set (db_executions d)" "e_id e = k"
      by (auto simp: exec_of_def dest: row_of_SomeD)
    with e(2) show "k \<in> e_id ` set (filter (\<lambda>e. e_status e = Running) (db_executions d))" by auto
  qed
  have "length (live_leases now d) = card (l_execution_id ` set (live_leases now d))"
    using distinct_card [of "map l_execution_id (live_leases now d)"] d(1)
    by (simp add: live_leases_def distinct_map_filter)
  also have "\<dots> \<le> card (e_id ` set (filter (\<lambda>e. e_status e = Running) (db_executions d)))"
    using sub by (intro card_mono) auto
  also have "\<dots> \<le> count_status Running d"
    unfolding count_status_def
    using card_length [of "filter (\<lambda>e. e_status e = Running) (db_executions d)"]
    by (intro order_trans [OF card_image_le]) auto
  finally show ?thesis .
qed

text \<open>
  The statistics account for every execution: the total is the sum of the four counts
  and of the pending executions, which the overview does not show; and there are never more
  active leases than running executions.
\<close>

theorem stats_account_for_all:
  assumes "wf_db (tables s)" and "stats s = (Inr v, s')"
  shows "n_total v = n_ready v + n_running v + n_completed v + n_failed v + count_status Pending (tables s) \<and>
    n_active_leases v \<le> n_running v \<and> tables s' = tables s"
proof -
  let ?q = "\<lambda>(now::time) d. (length (db_executions d), count_status Ready d, count_status Running d,
        count_status Completed d, count_status Failed d)"
  obtain c s1 where c: "read_stmt ?q s = (Inr c, s1)"
    using assms(2) by (auto simp: stats_def prog_bind_def split: prod.splits sum.splits)
  note r1 = read_stmt_Inr [OF c]
  obtain n where n: "read_stmt (\<lambda>now d. length (live_leases now d)) s1 = (Inr n, s')"
    and v: "v = \<lparr>n_total = fst c, n_ready = fst (snd c), n_running = fst (snd (snd c)),
       n_completed = fst (snd (snd (snd c))), n_failed = snd (snd (snd (snd c))), n_active_leases = n\<rparr>"
    using assms(2) c
    by (auto simp: stats_def prog_bind_def prog_return_def split: prod.splits sum.splits)
  note r2 = read_stmt_Inr [OF n]
  show ?thesis
    using r1 r2 no_cancelled [OF assms(1)] count_partition [of "db_executions (tables s)"]
      live_leases_running [OF assms(1)]
    by (simp add: v count_status_def)
qed

theorem stats_account_for_all_witness:
  "fst (stats sc_failed) = Inr \<lparr>n_total = 1, n_ready = 0, n_running = 0, n_completed = 0, n_failed = 0,
     n_active_leases = 0\<rparr> \<and> count_status Pending (tables sc_failed) = 1"
proof -
  let ?v = "\<lparr>n_total = 1, n_ready = 0, n_running = 0, n_completed = 0, n_failed = 0, n_active_leases = 0\<rparr>"
  have v: "fst (stats sc_failed) = Inr ?v" by code_simp
  then have run: "stats sc_failed = (Inr ?v, snd (stats sc_failed))" by (rule fst_pair)
  have "count_status Pending (tables sc_failed) = 1"
    using stats_account_for_all [OF wf_sc_failed run] by simp
  with v show ?thesis by blast
qed

lemma sum_groups:
  assumes "distinct ks" and "set (map f ls) \<subseteq> set ks"
  shows "sum_list (map (\<lambda>w. length (filter (\<lambda>l. f l = w) ls)) ks) = length ls"
  using assms
proof (induction ls)
  case (Cons l ls)
  have "sum_list (map (\<lambda>w. length (filter (\<lambda>l. f l = w) (l # ls))) ks) =
      sum_list (map (\<lambda>w. (if f l = w then 1 else 0) + length (filter (\<lambda>l. f l = w) ls)) ks)"
    by (intro arg_cong [of _ _ sum_list]) simp
  also have "\<dots> = sum_list (map (\<lambda>w. if f l = w then 1 else 0) ks) + length ls"
    using Cons by (simp add: sum_list_addf)
  also have "sum_list (map (\<lambda>w. if f l = w then 1 else 0) ks) = (1::nat)"
  proof -
    have "sum_list (map (\<lambda>w. if f l = w then 1 else (0::nat)) us) = (if f l \<in> set us then 1 else 0)"
      if "distinct us" for us
      using that by (induction us) auto
    then show ?thesis using Cons.prems by simp
  qed
  finally show ?case by simp
qed simp

text \<open>
  The workers view lists each worker that holds a live lease exactly once, and their
  claims add up to the live leases of the instant of the query: nothing is counted twice
  and expired claims are not counted.
\<close>

theorem workers_share_live_leases:
  assumes "list_workers coll s = (Inr ws, s')"
  shows "sum_list (map y_claimed ws) = length (live_leases (clock s') (tables s)) \<and>
    distinct (map y_worker_id ws) \<and>
    set (map y_worker_id ws) = l_worker_id ` set (live_leases (clock s') (tables s)) \<and>
    (\<forall>w\<in>set ws. 1 \<le> y_claimed w)"
proof -
  let ?ls = "live_leases (clock s') (tables s)"
  let ?ks = "sort_key coll (remdups (map l_worker_id ?ls))"
  have ws: "ws = map (worker_row (clock s') ?ls) ?ks"
    using read_rows_Inr [OF assms [unfolded list_workers_def]] by simp
  have ids: "map y_worker_id ws = ?ks"
    by (simp add: ws worker_row_def Let_def comp_def)
  have "sum_list (map y_claimed ws) = sum_list (map (\<lambda>w. length (filter (\<lambda>l. l_worker_id l = w) ?ls)) ?ks)"
    by (simp add: ws worker_row_def Let_def comp_def)
  also have "\<dots> = length ?ls" by (rule sum_groups) auto
  finally have sum: "sum_list (map y_claimed ws) = length ?ls" .
  have "1 \<le> y_claimed w" if "w \<in> set ws" for w
    using that by (auto simp: ws worker_row_def Let_def Suc_le_eq filter_empty_conv)
  then show ?thesis unfolding ids using sum by simp
qed

theorem workers_share_live_leases_witness:
  "length (live_leases 0 (tables sc_claimed)) = 1 \<and>
   fst (list_workers id sc_claimed) = Inr [\<lparr>y_worker_id = ''w1'', y_claimed = 1, y_oldest_claim_age = 0\<rparr>]"
proof -
  let ?ws = "[\<lparr>y_worker_id = ''w1'', y_claimed = 1, y_oldest_claim_age = 0\<rparr>]"
  have r: "list_workers id sc_claimed = (Inr ?ws, sc_claimed)" by code_simp
  have c: "clock sc_claimed = 0" by code_simp
  show ?thesis using workers_share_live_leases [OF r] r by (simp add: c)
qed

text \<open>
  The history of an execution is complete and ordered: it has exactly the events of
  the log for that execution, by time and, within one instant, by sequence number.
\<close>

theorem history_complete_and_ordered:
  assumes "list_events uuid_in i s = (Inr us, s')" and "uuid_in i = Inr eid" and "wf_db (tables s)"
  shows "mset us = image_mset scan_event (mset (log_of (tables s) eid)) \<and>
    sorted_wrt (\<lambda>a b. u_occurred_at a < u_occurred_at b \<or> (u_occurred_at a = u_occurred_at b \<and> u_id a < u_id b)) us"
proof -
  let ?vs = "log_of (tables s) eid"
  have us: "us = map scan_event (events_ordered ?vs)"
    using read_rows_Inr [of _ s us s'] assms(1,2) by (auto simp: list_events_def)
  have ids: "sorted_wrt (<) (map v_id ?vs)"
    using assms(3) by (simp add: wf_db_def wf_log_def log_of_def sorted_wrt_map sorted_wrt_filter)
  then have "sort_key v_id ?vs = ?vs"
    by (intro sort_key_id_if_sorted) (simp add: strict_sorted_iff)
  then have eo: "events_ordered ?vs = sort_key v_occurred_at ?vs" by (simp add: events_ordered_def)
  have "sorted_wrt (\<lambda>a b. v_occurred_at a < v_occurred_at b \<or>
      (v_occurred_at a = v_occurred_at b \<and> v_id a < v_id b)) (sort_key v_occurred_at vs)"
    if "sorted_wrt (<) (map v_id vs)" for vs
    using that
  proof (induction vs)
    case (Cons v vs)
    have ih: "sorted_wrt (\<lambda>a b. v_occurred_at a < v_occurred_at b \<or>
        (v_occurred_at a = v_occurred_at b \<and> v_id a < v_id b)) (sort_key v_occurred_at vs)"
      using Cons by simp
    have small: "\<forall>u\<in>set (sort_key v_occurred_at vs). v_id v < v_id u" using Cons.prems by simp
    have ins: "sorted_wrt (\<lambda>a b. v_occurred_at a < v_occurred_at b \<or>
        (v_occurred_at a = v_occurred_at b \<and> v_id a < v_id b)) (insort_key v_occurred_at v xs)"
      if "sorted_wrt (\<lambda>a b. v_occurred_at a < v_occurred_at b \<or>
        (v_occurred_at a = v_occurred_at b \<and> v_id a < v_id b)) xs" "\<forall>u\<in>set xs. v_id v < v_id u" for xs
      using that by (induction xs) (auto simp: set_insort_key)
    show ?case using ins [OF ih small] by simp
  qed simp
  from this [OF ids] show ?thesis
    by (simp add: us eo sorted_wrt_map scan_event_def)
qed

theorem history_complete_and_ordered_witness:
  "\<exists>us. fst (list_events Inr ''a'' sc_completed) = Inr us \<and>
     map u_event_type us = [''submitted'', ''ready'', ''claimed'', ''lease_expired'', ''claimed'', ''completed''] \<and>
     size (mset us) = length (log_of (tables sc_completed) ''a'')"
proof -
  have "map_sum id (map u_event_type) (fst (list_events Inr ''a'' sc_completed)) =
    Inr [''submitted'', ''ready'', ''claimed'', ''lease_expired'', ''claimed'', ''completed'']" by code_simp
  then obtain us where us: "fst (list_events Inr ''a'' sc_completed) = Inr us"
    "map u_event_type us = [''submitted'', ''ready'', ''claimed'', ''lease_expired'', ''claimed'', ''completed'']"
    by (cases "fst (list_events Inr ''a'' sc_completed)") auto
  from us(1) have run: "list_events Inr ''a'' sc_completed = (Inr us, snd (list_events Inr ''a'' sc_completed))"
    by (rule fst_pair)
  have "mset us = image_mset scan_event (mset (log_of (tables sc_completed) ''a''))"
    by (rule conjunct1 [OF history_complete_and_ordered [OF run refl wf_sc_completed]])
  then have "size (mset us) = length (log_of (tables sc_completed) ''a'')"
    by (simp only: size_image_mset size_mset)
  with us show ?thesis by (intro exI [of _ us] conjI)
qed

text \<open>
  Looking up one execution shows a lease exactly while it runs and a result only when
  it completed; an identifier nobody has is no error but no execution.
\<close>

theorem look_up_shows_lease_while_running:
  assumes "wf_db (tables s)" and "get_execution uuid_in i s = (Inr r, s')" and "uuid_in i = Inr eid"
  shows "(r = None \<longleftrightarrow> exec_of (tables s) eid = None) \<and>
    (\<forall>x. r = Some x \<longrightarrow> x_id x = eid \<and> (x_lease x \<noteq> None \<longleftrightarrow> x_status x = ''running'') \<and>
       (x_result x \<noteq> None \<longrightarrow> x_status x = ''completed''))"
proof -
  have r: "r = map_option (\<lambda>e. scan_execution (with_lease (tables s) e)) (exec_of (tables s) eid)"
    using read_stmt_Inr [of _ s r s'] assms(2,3) by (auto simp: get_execution_def)
  show ?thesis
  proof (cases "exec_of (tables s) eid")
    case (Some e)
    have run: "status_text (e_status e) = ''running'' \<longleftrightarrow> e_status e = Running"
      and comp: "status_text (e_status e) = ''completed'' \<longleftrightarrow> e_status e = Completed"
      by (cases "e_status e"; simp)+
    note eid = exec_of_id [OF Some]
    have "e_status e = Running \<longleftrightarrow> lease_of (tables s) eid \<noteq> None"
      and res: "e_status e \<noteq> Completed \<Longrightarrow> e_result e = None"
      using wf_db_row [OF assms(1) Some] by (simp_all add: coherent_row_def)
    then have lease: "(lease_of (tables s) eid \<noteq> None) = (e_status e = Running)" by blast
    have result: "(case e_result e of None \<Rightarrow> None | Some t \<Rightarrow> if t = [] then None else Some t) \<noteq> None \<longrightarrow>
        e_status e = Completed"
      using res by (cases "e_result e") auto
    show ?thesis
      using result by (auto simp only: r Some eid option.map scan_execution_def with_lease_def
          execution_view.select_convs prod.case run comp lease option.simps simp_thms)
  qed (simp add: r)
qed

theorem look_up_shows_lease_while_running_witness:
  "\<exists>x. fst (get_execution Inr ''a'' sc_claimed) = Inr (Some x) \<and> x_status x = ''running'' \<and> x_lease x \<noteq> None"
proof -
  have "map_sum id (map_option x_status) (fst (get_execution Inr ''a'' sc_claimed)) = Inr (Some ''running'')"
    by code_simp
  then obtain x where x: "fst (get_execution Inr ''a'' sc_claimed) = Inr (Some x)" "x_status x = ''running''"
    by (cases "fst (get_execution Inr ''a'' sc_claimed)") auto
  from x(1) have run: "get_execution Inr ''a'' sc_claimed = (Inr (Some x), snd (get_execution Inr ''a'' sc_claimed))"
    by (rule fst_pair)
  from look_up_shows_lease_while_running [OF wf_sc_claimed run refl] x show ?thesis by simp
qed

end
