(* ===== verification/Engine.thy ===== *)
theory Engine
  imports System Fencing Config
begin

text \<open>
  The executor, \<open>internal/executor/engine.go\<close>: the poll loop \<open>Run\<close>, one \<open>execute\<close> with
  its \<open>heartbeat\<close> goroutine, and \<open>sleep\<close>. A worker is a state machine: \<open>Run\<close> and the
  goroutine interleave at the points where they wait, and what they wait for (a tick, the
  return of a handler, the end of a pause, the cancellation of the process) is the input of
  a step. The tools' handlers run in the outside world: a step is given what one returned.
\<close>

section \<open>Runtime\<close>

text \<open>
  \<open>Runtime\<close> after the defaults \<open>Run\<close> fills in; \<open>rt_handlers\<close> lists the tools that have a
  handler.
\<close>

record runtime =
  rt_worker :: string
  rt_handlers :: "string list"
  rt_poll_interval :: int
  rt_lease_seconds :: int
  rt_heartbeat_timeout :: int

definition with_defaults :: "runtime \<Rightarrow> runtime" where
  "with_defaults r =
     \<lparr>rt_worker = rt_worker r, rt_handlers = rt_handlers r,
      rt_poll_interval = (if rt_poll_interval r \<le> 0 then 500 * millisecond else rt_poll_interval r),
      rt_lease_seconds = (if rt_lease_seconds r \<le> 0 then 30 else rt_lease_seconds r),
      rt_heartbeat_timeout =
        (if rt_heartbeat_timeout r \<le> 0 then 10 * second else rt_heartbeat_timeout r)\<rparr>"

text \<open>\<open>time.Duration(r.LeaseSeconds) * time.Second / 3\<close>, the period of the heartbeat.\<close>

definition heartbeat_interval :: "runtime \<Rightarrow> int" where
  "heartbeat_interval r =
     (let interval = wrap64 (rt_lease_seconds r * second) sdiv 3
      in if interval \<le> 0 then 10 * second else interval)"

section \<open>A worker\<close>

text \<open>
  \<open>Working c cancelled beating\<close>: the handler runs under the claim \<open>c\<close>; \<open>cancelled\<close> says
  that its context is done because the lease was lost, \<open>beating\<close> that the goroutine is
  still there. \<open>Stopped\<close>: \<open>Run\<close> has returned.
\<close>

datatype phase =
    Polling
  | Pausing
  | Working claim_result bool bool
  | Stopped

record worker =
  wk_phase :: phase
  wk_done :: bool

text \<open>What a worker may be told: a handler returns a result or an error text.\<close>

datatype input =
    Proceed "exec_id list"          \<comment> \<open>the loop goes on; rows locked by others\<close>
  | Tick                            \<comment> \<open>the heartbeat ticker\<close>
  | Returned "raw_message + string"
  | Cancelled_ctx                   \<comment> \<open>SIGINT or SIGTERM\<close>
  | Beat_ends                       \<comment> \<open>the goroutine sees its context done\<close>

text \<open>A store call under a context that is done fails before it sends anything.\<close>

definition under_ctx :: "bool \<Rightarrow> 'a prog \<Rightarrow> 'a prog" where
  "under_ctx is_done m = (if is_done then prog_fail (DbError (Transport ''context canceled'')) else m)"

text \<open>One turn of the loop in \<open>Run\<close>: the claim, and the early part of \<open>execute\<close>.\<close>

definition poll :: "runtime \<Rightarrow> bool \<Rightarrow> exec_id list \<Rightarrow> st \<Rightarrow> phase \<times> st" where
  "poll r ctx_done locked s =
     (if ctx_done then (Stopped, s)
      else case claim locked (rt_worker r) (rt_lease_seconds r) s of
        (Inl e, s') \<Rightarrow> (Pausing, s')
      | (Inr c, s') \<Rightarrow>
          if c_tool_name c \<notin> set (rt_handlers r)
          then (Polling, snd (fail (c_execution_id c) (c_fencing_token c) (rt_worker r)
                        (''no handler registered for tool '' @ c_tool_name c) s'))
          else (Working c False True, s'))"

text \<open>The rest of \<open>execute\<close>, when the handler has returned.\<close>

definition finish :: "(string \<Rightarrow> string option) \<Rightarrow> runtime \<Rightarrow> claim_result \<Rightarrow> bool \<Rightarrow> bool \<Rightarrow>
    raw_message + string \<Rightarrow> st \<Rightarrow> st" where
  "finish jsonb r c cancelled ctx_done out s =
     (case out of
        Inr msg \<Rightarrow>
          if cancelled \<or> ctx_done then s
          else snd (fail (c_execution_id c) (c_fencing_token c) (rt_worker r) msg s)
      | Inl result \<Rightarrow>
          snd (under_ctx ctx_done
                (complete jsonb (c_execution_id c) (c_fencing_token c) (rt_worker r) result) s))"

text \<open>One beat of the goroutine: \<open>ErrStale\<close> cancels the work and ends it.\<close>

definition beat :: "runtime \<Rightarrow> claim_result \<Rightarrow> bool \<Rightarrow> st \<Rightarrow> phase \<times> st" where
  "beat r c cancelled s =
     (case heartbeat (c_execution_id c) (c_fencing_token c) (rt_lease_seconds r) s of
        (Inl ErrStale, s') \<Rightarrow> (Working c True False, s')
      | (_, s') \<Rightarrow> (Working c cancelled True, s'))"

definition worker_step :: "(string \<Rightarrow> string option) \<Rightarrow> runtime \<Rightarrow> input \<Rightarrow> worker \<Rightarrow> st \<Rightarrow>
    worker \<times> st" where
  "worker_step jsonb r i w s =
     (case (wk_phase w, i) of
        (Polling, Proceed locked) \<Rightarrow> (case poll r (wk_done w) locked s of (p, s') \<Rightarrow> (w\<lparr>wk_phase := p\<rparr>, s'))
      | (Pausing, Proceed _) \<Rightarrow> (w\<lparr>wk_phase := (if wk_done w then Stopped else Polling)\<rparr>, s)
      | (Working c cancelled beating, Tick) \<Rightarrow>
          if beating then (case beat r c cancelled s of (p, s') \<Rightarrow> (w\<lparr>wk_phase := p\<rparr>, s')) else (w, s)
      | (Working c cancelled beating, Beat_ends) \<Rightarrow>
          if cancelled \<or> wk_done w then (w\<lparr>wk_phase := Working c cancelled False\<rparr>, s) else (w, s)
      | (Working c cancelled beating, Returned out) \<Rightarrow>
          (w\<lparr>wk_phase := Polling\<rparr>, finish jsonb r c cancelled (wk_done w) out s)
      | (_, Cancelled_ctx) \<Rightarrow> (w\<lparr>wk_done := True\<rparr>, s)
      | _ \<Rightarrow> (w, s))"

text \<open>
  The loop, over what it meets: before each input come the actions of other processes and the
  passing of time, as a function on the state.
\<close>

fun worker_run :: "(string \<Rightarrow> string option) \<Rightarrow> runtime \<Rightarrow> ((st \<Rightarrow> st) \<times> input) list \<Rightarrow> worker \<times> st \<Rightarrow> worker \<times> st" where
  "worker_run jsonb r [] ws = ws"
| "worker_run jsonb r ((others, i) # is) (w, s) = worker_run jsonb r is (worker_step jsonb r i w (others s))"

section \<open>cmd/executor\<close>

text \<open>The runtime \<open>main\<close> builds from the configuration, as \<open>Run\<close> uses it.\<close>

definition executor_runtime :: "config \<Rightarrow> string list \<Rightarrow> runtime" where
  "executor_runtime cfg tools = with_defaults
     \<lparr>rt_worker = cf_worker_id cfg, rt_handlers = tools, rt_poll_interval = cf_poll_interval cfg,
      rt_lease_seconds = cf_lease_seconds cfg, rt_heartbeat_timeout = cf_heartbeat_timeout cfg\<rparr>"

lemma heartbeat_interval_pos: "0 < heartbeat_interval r"
  by (simp add: heartbeat_interval_def Let_def second_def)

lemma heartbeat_third:
  assumes "1 \<le> rt_lease_seconds r" and "rt_lease_seconds r \<le> 9223372036"
  shows "3 * heartbeat_interval r \<le> rt_lease_seconds r * second \<and>
    rt_lease_seconds r * second < 3 * heartbeat_interval r + 3"
proof -
  let ?n = "rt_lease_seconds r * second"
  have n: "1 * second \<le> ?n" "?n \<le> 9223372036 * second"
    using assms by (simp_all add: second_def)
  then have w: "wrap64 ?n = ?n" by (intro wrap64_id) (simp_all add: second_def)
  have d: "?n sdiv 3 = ?n div 3"
    using n(1) by (simp add: signed_divide_int_def second_def)
  have "0 < ?n div 3" using n(1) by (simp add: second_def)
  then have "heartbeat_interval r = ?n div 3"
    by (simp add: heartbeat_interval_def Let_def w d)
  then show ?thesis by linarith
qed

text \<open>
  The executor's timers are sound for every environment: its worker has a name, its
  pause, lease and heartbeat timeout are positive, its ticker never panics, and with a lease
  of up to 9223372036 seconds three beats fit in one lease, so two beats in a row may be
  lost before it lapses.
\<close>

theorem executor_timers_sound:
  "let r = executor_runtime (load_config env hn) tools in
     rt_worker r \<noteq> [] \<and> 0 < rt_poll_interval r \<and> 0 < rt_lease_seconds r \<and>
     0 < rt_heartbeat_timeout r \<and> 0 < heartbeat_interval r \<and>
     (rt_lease_seconds r \<le> 9223372036 \<longrightarrow>
        3 * heartbeat_interval r \<le> rt_lease_seconds r * second \<and>
        rt_lease_seconds r * second < 3 * heartbeat_interval r + 3)"
proof -
  define r where "r = executor_runtime (load_config env hn) tools"
  have w: "rt_worker r \<noteq> []"
    by (simp add: r_def executor_runtime_def with_defaults_def load_config_def worker_id_def split: option.split)
  have pos: "0 < rt_poll_interval r" "0 < rt_lease_seconds r" "0 < rt_heartbeat_timeout r"
    by (simp_all add: r_def executor_runtime_def with_defaults_def second_def millisecond_def)
  show ?thesis unfolding r_def [symmetric] Let_def
    using w pos heartbeat_interval_pos [of r] heartbeat_third [of r] by simp
qed

theorem executor_timers_sound_witness:
  "3 * heartbeat_interval (executor_runtime (load_config (\<lambda>_. []) (Some ''h'')) []) \<le> 30 * second"
proof -
  have "rt_lease_seconds (executor_runtime (load_config (\<lambda>_. []) (Some ''h'')) []) = 30"
    by (simp add: executor_runtime_def with_defaults_def load_config_def env_int_def)
  then show ?thesis
    using executor_timers_sound [of "\<lambda>_. []" "Some ''h''" "[]"] by (simp add: Let_def)
qed

section \<open>A worker is part of the system\<close>

lemma poll_steps:
  assumes "sys_steps jsonb x (s, ps)"
  shows "sys_steps jsonb x (snd (poll r ctx_done locked s), ps)"
proof (cases "claim locked (rt_worker r) (rt_lease_seconds r) s")
  case (Pair a s')
  have c: "sys_steps jsonb x (s', ps)"
    using steps_claim [OF assms, of locked "rt_worker r" "rt_lease_seconds r"] Pair by simp
  show ?thesis
    using assms c steps_fail [OF c] by (cases a) (simp_all add: poll_def Pair)
qed

lemma beat_steps:
  assumes "sys_steps jsonb x (s, ps)"
  shows "sys_steps jsonb x (snd (beat r c cancelled s), ps)"
proof (cases "heartbeat (c_execution_id c) (c_fencing_token c) (rt_lease_seconds r) s")
  case (Pair a s')
  have "sys_steps jsonb x (s', ps)"
    using steps_heartbeat [OF assms, of "c_execution_id c" "c_fencing_token c" "rt_lease_seconds r"] Pair
    by simp
  then show ?thesis by (cases a) (simp_all add: beat_def Pair split: error.split)
qed

lemma finish_steps:
  assumes "sys_steps jsonb x (s, ps)"
  shows "sys_steps jsonb x (finish jsonb r c cancelled ctx_done out s, ps)"
  using assms steps_fail [OF assms] steps_complete [OF assms]
  by (cases out) (simp_all add: finish_def under_ctx_def prog_fail_def)

lemma worker_step_steps:
  assumes "sys_steps jsonb x (s, ps)"
  shows "sys_steps jsonb x (snd (worker_step jsonb r i w s), ps)"
  using assms poll_steps [OF assms] beat_steps [OF assms] finish_steps [OF assms]
  by (cases "wk_phase w"; cases i)
     (simp_all add: worker_step_def split_beta)

text \<open>
  Whatever happens to it, a worker acts on the store only as the system allows: every run of
  the executor's loop, with any ticks, results, cancellations and failures, and any runs of the
  system in between, continues any run of the system.
\<close>

lemma worker_run_steps:
  "sys_steps jsonb x (s, ps) \<Longrightarrow> \<forall>(f, i)\<in>set is. \<forall>s. sys_steps jsonb (s, ps) (f s, ps) \<Longrightarrow>
    sys_steps jsonb x (snd (worker_run jsonb r is (w, s)), ps)"
proof (induction "is" arbitrary: w s)
  case (Cons e "is")
  obtain f i where e: "e = (f, i)" by force
  have "sys_steps jsonb (s, ps) (f s, ps)" using Cons.prems(2) by (auto simp: e)
  from steps_trans [OF this Cons.prems(1)] have "sys_steps jsonb x (f s, ps)" .
  from worker_step_steps [OF this, of r i w] Cons.IH Cons.prems(2) show ?case
    by (cases "worker_step jsonb r i w (f s)") (simp add: e)
qed simp

section \<open>A worker that lost its lease\<close>

lemma superseded_complete:
  assumes "wf_db (tables s)" and "superseded s k t"
  shows "rows_unchanged (tables s) (tables (snd (complete jsonb k t w res s)))"
  using superseded_not_live [OF assms] completing.atomic [of s jsonb k t w res]
  by (auto simp: complete_effect_def rows_unchanged_same_data split: option.splits)

lemma superseded_fail:
  assumes "wf_db (tables s)" and "superseded s k t"
  shows "rows_unchanged (tables s) (tables (snd (fail k t w msg s)))"
  using superseded_not_live [OF assms] failing.atomic [of s k t w msg]
  by (auto simp: fail_effect_def rows_unchanged_same_data split: option.splits)

lemma superseded_heartbeat:
  assumes "wf_db (tables s)" and "superseded s k t"
  shows "rows_unchanged (tables s) (tables (snd (heartbeat k t secs s)))"
    and "net s = [] \<Longrightarrow> fst (heartbeat k t secs s) = Inl ErrStale"
  using superseded_not_live [OF assms] heartbeating.atomic [of s k t secs] heartbeating.quiet [of s k t secs]
  by (auto simp: heartbeat_effect_def rows_unchanged_same_data)

text \<open>
  C28. A worker whose lease lapsed or was taken over can do no harm while it works on:
  whatever it is told next, a result and an error included, executions, leases and retries
  stay as they are; and over a working connection its next beat cancels the handler's
  context, after which an error is not reported at all.
\<close>

theorem lost_lease_is_harmless:
  assumes "wf_db (tables s)" and "superseded s (c_execution_id c) (c_fencing_token c)"
    and "wk_phase w = Working c cancelled beating" and "worker_step jsonb r i w s = (w', s')"
  shows "rows_unchanged (tables s) (tables s') \<and>
    (net s = [] \<and> i = Tick \<and> beating \<longrightarrow> wk_phase w' = Working c True False) \<and>
    (cancelled \<and> i = Returned (Inr msg) \<longrightarrow> s' = s)"
proof -
  note harmless = superseded_complete [OF assms(1,2)] superseded_fail [OF assms(1,2)]
    superseded_heartbeat(1) [OF assms(1,2)]
  have beat: "rows_unchanged (tables s) (tables (snd (beat r c cancelled s)))"
    using harmless(3) [of "rt_lease_seconds r"]
    by (auto simp: beat_def split: prod.split sum.split error.split)
  have stale: "fst (beat r c cancelled s) = Working c True False" if "net s = []"
    using superseded_heartbeat(2) [OF assms(1,2) that, of "rt_lease_seconds r"]
    by (auto simp: beat_def split: prod.split sum.split error.split)
  have fin: "rows_unchanged (tables s) (tables (finish jsonb r c cancelled d out s))" for d out
    using harmless(1,2) by (auto simp: finish_def under_ctx_def prog_fail_def split: sum.split)
  show ?thesis
    using assms(3,4) beat stale fin
    by (cases i) (auto simp: worker_step_def split_beta finish_def split: if_splits)
qed

theorem lost_lease_is_harmless_witness:
  "wk_phase (fst (worker_step Some \<lparr>rt_worker = ''w1'', rt_handlers = [''slow_compute''], rt_poll_interval = 1,
      rt_lease_seconds = 30, rt_heartbeat_timeout = 1\<rparr> Tick
    \<lparr>wk_phase = Working \<lparr>c_execution_id = ''a'', c_tool_name = ''slow_compute'', c_input_args = ''{}'',
       c_attempts = 1, c_max_attempts = 3, c_fencing_token = 1, c_lease_expires = 30000000\<rparr> False True,
     wk_done = False\<rparr> sc_reclaimed)) =
   Working \<lparr>c_execution_id = ''a'', c_tool_name = ''slow_compute'', c_input_args = ''{}'',
       c_attempts = 1, c_max_attempts = 3, c_fencing_token = 1, c_lease_expires = 30000000\<rparr> True False"
proof -
  let ?c = "\<lparr>c_execution_id = ''a'', c_tool_name = ''slow_compute'', c_input_args = ''{}'',
       c_attempts = 1, c_max_attempts = 3, c_fencing_token = 1, c_lease_expires = 30000000\<rparr>"
  let ?w = "\<lparr>wk_phase = Working ?c False True, wk_done = False\<rparr>"
  let ?r = "\<lparr>rt_worker = ''w1'', rt_handlers = [''slow_compute''], rt_poll_interval = 1,
      rt_lease_seconds = 30, rt_heartbeat_timeout = 1\<rparr>"
  have sup: "superseded sc_reclaimed (c_execution_id ?c) (c_fencing_token ?c)" by code_simp
  have n: "net sc_reclaimed = []" by code_simp
  have p: "wk_phase ?w = Working ?c False True" by simp
  have run: "worker_step Some ?r Tick ?w sc_reclaimed =
      (fst (worker_step Some ?r Tick ?w sc_reclaimed), snd (worker_step Some ?r Tick ?w sc_reclaimed))"
    by (rule prod.collapse [symmetric])
  show ?thesis
    using lost_lease_is_harmless [OF wf_sc_reclaimed sup p run] n by blast
qed

section \<open>From the queue to the result\<close>

lemma claim_quiet:
  assumes "wf_db (tables s)" and "net s = []" and "select_ready locked (tables s) = Some e"
    and "e_attempts e < int32_max" and "next_token (tables s) (e_id e) \<le> int64_max"
  shows "claim locked w secs s =
    (Inr (claim_of (clock s) e (next_token (tables s) (e_id e)) secs),
     s\<lparr>tables := claimed_db (clock s) e w (next_token (tables s) (e_id e)) secs (tables s)\<rparr>)"
  using claiming.quiet [OF assms(2), of locked w secs] select_ready_row [OF assms(1,3)] assms(3-5)
  by (simp add: claim_effect_def)

text \<open>Two steps of a worker that finish an execution, and the tables they leave.\<close>

lemma worker_completes:
  assumes "wf_db (tables s)" and "net s = []" and "select_ready locked (tables s) = Some e"
    and "e_attempts e < int32_max" and "next_token (tables s) (e_id e) \<le> int64_max"
    and "e_tool_name e \<in> set (rt_handlers r)" and "jsonb result = Some doc"
    and "clock s \<le> t" and "t < clock s + rt_lease_seconds r * 1000000"
    and "worker_step jsonb r (Proceed locked) \<lparr>wk_phase = Polling, wk_done = False\<rparr> s = (w1, s1)"
    and "worker_step jsonb r (Returned (Inl (Some result))) w1 (s1\<lparr>clock := t\<rparr>) = (w2, s2)"
  shows "w2 = \<lparr>wk_phase = Polling, wk_done = False\<rparr> \<and> clock s1 = clock s \<and> s2 = s\<lparr>clock := t, tables := completed_db t (e_id e) (rt_worker r)
      (next_token (tables s) (e_id e)) (Some doc)
      (claimed_db (clock s) e (rt_worker r) (next_token (tables s) (e_id e)) (rt_lease_seconds r) (tables s))\<rparr>"
proof -
  let ?k = "next_token (tables s) (e_id e)"
  let ?d = "claimed_db (clock s) e (rt_worker r) ?k (rt_lease_seconds r) (tables s)"
  let ?c = "claim_of (clock s) e ?k (rt_lease_seconds r)"
  have cl: "claim locked (rt_worker r) (rt_lease_seconds r) s = (Inr ?c, s\<lparr>tables := ?d\<rparr>)"
    by (rule claim_quiet [OF assms(1-5)])
  have row: "exec_of (tables s) (e_id e) = Some e" by (rule select_ready_row [OF assms(1,3)])
  have w1: "w1 = \<lparr>wk_phase = Working ?c False True, wk_done = False\<rparr>" and s1: "s1 = s\<lparr>tables := ?d\<rparr>"
    using assms(6,10) by (simp_all add: worker_step_def poll_def cl claim_of_def)
  let ?s = "s1\<lparr>clock := t\<rparr>"
  have wf: "wf_db ?d"
    using claim_op.wf_run [OF assms(1), of locked "rt_worker r" "rt_lease_seconds r"] cl by simp
  have live: "live_lease t ?d (e_id e) ?k"
    unfolding live_lease_iff [OF wf] using assms(9) by (simp add: effect_simps lease_until_def)
  have n: "net ?s = []" using assms(2) by (simp add: s1)
  have ex: "exec_of ?d (e_id e) = Some (claimed_row (clock s) e)" by (simp add: effect_simps row)
  have "s2 = ?s\<lparr>tables := completed_db t (e_id e) (rt_worker r) ?k (Some doc) ?d\<rparr> \<and>
      w2 = \<lparr>wk_phase = Polling, wk_done = False\<rparr>"
    using assms(11) completing.quiet [OF n, of jsonb "e_id e" ?k "rt_worker r" "Some result"] assms(7) ex live
    by (simp add: worker_step_def w1 finish_def under_ctx_def claim_of_def complete_effect_def json_param_def s1)
  then show ?thesis by (simp add: s1)
qed

text \<open>
  C27. The executor carries work to its end: over a working connection, a polling worker
  takes the oldest ready execution whose tool it has a handler for, and when the handler
  returns a JSON result before the lease runs out, the execution is completed with that
  result under that attempt, the lease is gone, and the worker polls again.
\<close>

theorem executor_completes_ready_work:
  assumes "wf_db (tables s)" and "net s = []" and "select_ready locked (tables s) = Some e"
    and "e_attempts e < int32_max" and "next_token (tables s) (e_id e) \<le> int64_max"
    and "e_tool_name e \<in> set (rt_handlers r)" and "jsonb result = Some doc"
    and "clock s \<le> t" and "t < clock s + rt_lease_seconds r * 1000000"
    and "worker_step jsonb r (Proceed locked) \<lparr>wk_phase = Polling, wk_done = False\<rparr> s = (w1, s1)"
    and "worker_step jsonb r (Returned (Inl (Some result))) w1 (s1\<lparr>clock := t\<rparr>) = (w2, s2)"
  shows "w2 = \<lparr>wk_phase = Polling, wk_done = False\<rparr> \<and> lease_of (tables s2) (e_id e) = None \<and>
    exec_of (tables s2) (e_id e) = Some (e\<lparr>e_status := Completed, e_attempts := e_attempts e + 1,
      e_result := Some doc, e_error_message := None, e_updated_at := t\<rparr>)"
  using worker_completes [OF assms] select_ready_row [OF assms(1,3)]
  by (simp add: effect_simps claimed_row_def completed_row_def)

theorem executor_completes_ready_work_witness:
  "\<exists>e. exec_of (tables (snd (worker_run Some \<lparr>rt_worker = ''w1'', rt_handlers = [''slow_compute''],
      rt_poll_interval = 1, rt_lease_seconds = 30, rt_heartbeat_timeout = 1\<rparr>
      [(id, Proceed []), (id, Returned (Inl (Some ''7'')))] (\<lparr>wk_phase = Polling, wk_done = False\<rparr>, sc_submitted)))) ''a'' =
    Some e \<and> e_status e = Completed \<and> e_result e = Some ''7''"
proof -
  let ?r = "\<lparr>rt_worker = ''w1'', rt_handlers = [''slow_compute''],
      rt_poll_interval = 1, rt_lease_seconds = 30, rt_heartbeat_timeout = 1\<rparr>"
  let ?w0 = "\<lparr>wk_phase = Polling, wk_done = False\<rparr>"
  have n: "net sc_submitted = []" "clock sc_submitted = 0" by code_simp+
  have "map_option (\<lambda>e. (e_id e, e_attempts e, e_tool_name e)) (select_ready [] (tables sc_submitted)) =
      Some (''a'', 0, ''slow_compute'')" by code_simp
  then obtain e where e: "select_ready [] (tables sc_submitted) = Some e" "e_id e = ''a''" "e_attempts e = 0"
    "e_tool_name e = ''slow_compute''" by auto
  have k: "next_token (tables sc_submitted) ''a'' = 1" by code_simp
  obtain w1 s1 where 1: "worker_step Some ?r (Proceed []) ?w0 sc_submitted = (w1, s1)"
    by (cases "worker_step Some ?r (Proceed []) ?w0 sc_submitted") auto
  obtain w2 s2 where 2: "worker_step Some ?r (Returned (Inl (Some ''7''))) w1 (s1\<lparr>clock := 0\<rparr>) = (w2, s2)"
    by (cases "worker_step Some ?r (Returned (Inl (Some ''7''))) w1 (s1\<lparr>clock := 0\<rparr>)") auto
  have "clock (snd (worker_step Some ?r (Proceed []) ?w0 sc_submitted)) = 0" by code_simp
  then have "s1\<lparr>clock := 0\<rparr> = s1" using 1 by (cases s1) simp
  with 1 2 have run: "worker_run Some ?r [(id, Proceed []), (id, Returned (Inl (Some ''7'')))] (?w0, sc_submitted) = (w2, s2)"
    by simp
  have "exec_of (tables s2) (e_id e) = Some (e\<lparr>e_status := Completed, e_attempts := e_attempts e + 1,
      e_result := Some ''7'', e_error_message := None, e_updated_at := 0\<rparr>)"
    using executor_completes_ready_work [OF wf_sc_submitted n(1) e(1) _ _ _ refl _ _ 1 2] e k n
    by (simp add: int32_max_def int64_max_def)
  then show ?thesis using e(2) unfolding run by simp
qed

section \<open>The queue is drained\<close>

lemma worker_run_append: "worker_run jsonb r (xs @ ys) ws = worker_run jsonb r ys (worker_run jsonb r xs ws)"
  by (induction jsonb r xs ws rule: worker_run.induct) simp_all

definition ready_ids :: "db \<Rightarrow> exec_id set" where
  "ready_ids d = {k. \<exists>e. exec_of d k = Some e \<and> e_status e = Ready}"

text \<open>The worker can start what is ready: it has the handler, and no counter is at its limit.\<close>

definition startable :: "runtime \<Rightarrow> db \<Rightarrow> bool" where
  "startable r d \<longleftrightarrow> (\<forall>k e. exec_of d k = Some e \<and> e_status e = Ready \<longrightarrow>
     e_tool_name e \<in> set (rt_handlers r) \<and> e_attempts e < int32_max \<and> next_token d k \<le> int64_max)"

text \<open>A round of the loop: a claim, and a handler that returns a text after some time.\<close>

abbreviation polling :: worker where
  "polling \<equiv> \<lparr>wk_phase = Polling, wk_done = False\<rparr>"

definition handled :: "string \<times> int \<Rightarrow> ((st \<Rightarrow> st) \<times> input) list" where
  "handled x = [(id, Proceed []), (\<lambda>s. s\<lparr>clock := clock s + snd x\<rparr>, Returned (Inl (Some (fst x))))]"

lemma finite_ready_ids: "finite (ready_ids d)"
proof (rule finite_subset)
  show "ready_ids d \<subseteq> e_id ` set (db_executions d)"
    by (auto simp: ready_ids_def exec_of_def dest!: row_of_SomeD)
qed simp

lemma select_ready_exists:
  assumes "wf_db d" and "ready_ids d \<noteq> {}"
  shows "\<exists>e. select_ready [] d = Some e \<and> exec_of d (e_id e) = Some e \<and> e_status e = Ready"
proof -
  obtain e where "e \<in> set (db_executions d)" "e_status e = Ready"
    using assms(2) by (auto simp: ready_ids_def exec_of_def dest!: row_of_SomeD)
  then have "select_ready [] d \<noteq> None" by (auto simp: select_ready_def first_by_None filter_empty_conv)
  with select_ready_row [OF assms(1)] select_readyD(2) show ?thesis by blast
qed

lemma worker_round:
  assumes "wf_db (tables s)" and "net s = []" and "startable r (tables s)" and "ready_ids (tables s) \<noteq> {}"
    and "jsonb (fst x) \<noteq> None" and "0 \<le> snd x" and "snd x < rt_lease_seconds r * 1000000"
  shows "\<exists>e e' s2. worker_run jsonb r (handled x) (polling, s) = (polling, s2) \<and> wf_db (tables s2) \<and> net s2 = [] \<and>
    exec_of (tables s) (e_id e) = Some e \<and> e_status e = Ready \<and>
    exec_of (tables s2) (e_id e) = Some e' \<and> e_status e' = Completed \<and> e_attempts e' = e_attempts e + 1 \<and>
    (\<forall>k. k \<noteq> e_id e \<longrightarrow> exec_of (tables s2) k = exec_of (tables s) k \<and> next_token (tables s2) k = next_token (tables s) k)"
proof -
  obtain e where e: "select_ready [] (tables s) = Some e" "exec_of (tables s) (e_id e) = Some e" "e_status e = Ready"
    using select_ready_exists [OF assms(1,4)] by blast
  have st: "e_tool_name e \<in> set (rt_handlers r)" "e_attempts e < int32_max" "next_token (tables s) (e_id e) \<le> int64_max"
    using assms(3) e(2,3) by (simp_all add: startable_def)
  obtain doc where doc: "jsonb (fst x) = Some doc" using assms(5) by blast
  obtain w1 s1 where 1: "worker_step jsonb r (Proceed []) \<lparr>wk_phase = Polling, wk_done = False\<rparr> s = (w1, s1)" by force
  let ?t = "clock s + snd x"
  obtain w2 s2 where 2: "worker_step jsonb r (Returned (Inl (Some (fst x)))) w1 (s1\<lparr>clock := ?t\<rparr>) = (w2, s2)" by force
  have t: "clock s \<le> ?t" "?t < clock s + rt_lease_seconds r * 1000000" using assms(6,7) by simp_all
  let ?k = "next_token (tables s) (e_id e)"
  let ?d = "claimed_db (clock s) e (rt_worker r) ?k (rt_lease_seconds r) (tables s)"
  note c = worker_completes [OF assms(1,2) e(1) st(2,3,1) doc t 1 2]
  then have run: "worker_run jsonb r (handled x) (polling, s) = (polling, s2)"
    using 1 2 by (simp add: handled_def)
  have "wf_db ?d" by (rule wf_claimed [OF assms(1) e(2,3)])
  then have wf: "wf_db (tables s2)" using c wf_completed [of ?d "e_id e"] e(2) by (simp add: effect_simps)
  have "exec_of (tables s2) (e_id e) = Some (completed_row ?t (Some doc) (claimed_row (clock s) e))"
    using c e(2) by (simp add: effect_simps)
  moreover have "exec_of (tables s2) k = exec_of (tables s) k \<and> next_token (tables s2) k = next_token (tables s) k"
    if "k \<noteq> e_id e" for k
    using c that by (simp add: effect_simps next_token_def)
  ultimately show ?thesis
    using run wf c e(2,3) assms(2)
    by (intro exI [of _ e] exI [of _ "completed_row ?t (Some doc) (claimed_row (clock s) e)"] exI [of _ s2])
      (simp add: completed_row_def claimed_row_def)
qed

text \<open>What became of an execution when the queue is drained.\<close>

definition drained_row :: "execution \<Rightarrow> execution \<Rightarrow> bool" where
  "drained_row e e' \<longleftrightarrow> (if e_status e = Ready then e_status e' = Completed \<and> e_attempts e' = e_attempts e + 1 else e' = e)"

lemma drained:
  assumes "wf_db (tables s)" and "net s = []" and "startable r (tables s)"
    and "\<forall>x\<in>set xs. jsonb (fst x) \<noteq> None \<and> 0 \<le> snd x \<and> snd x < rt_lease_seconds r * 1000000"
    and "length xs = card (ready_ids (tables s))"
  shows "\<exists>s'. worker_run jsonb r (concat (map handled xs)) (polling, s) = (polling, s') \<and> wf_db (tables s') \<and> net s' = [] \<and>
    ready_ids (tables s') = {} \<and>
    (\<forall>k e. exec_of (tables s) k = Some e \<longrightarrow> (\<exists>e'. exec_of (tables s') k = Some e' \<and> drained_row e e'))"
  using assms
proof (induction xs arbitrary: s)
  case Nil
  then have "ready_ids (tables s) = {}" using finite_ready_ids by simp
  with Nil show ?case by (auto simp: drained_row_def ready_ids_def)
next
  case (Cons x xs)
  have ne: "ready_ids (tables s) \<noteq> {}" using Cons.prems(5) by auto
  obtain e e1 s2 where r: "worker_run jsonb r (handled x) (polling, s) = (polling, s2)" "wf_db (tables s2)" "net s2 = []"
    and e: "exec_of (tables s) (e_id e) = Some e" "e_status e = Ready"
    and e1: "exec_of (tables s2) (e_id e) = Some e1" "e_status e1 = Completed" "e_attempts e1 = e_attempts e + 1"
    and others: "\<forall>k. k \<noteq> e_id e \<longrightarrow> exec_of (tables s2) k = exec_of (tables s) k \<and> next_token (tables s2) k = next_token (tables s) k"
    using worker_round [OF Cons.prems(1-3) ne, of jsonb x] Cons.prems(4) by (metis list.set_intros(1))
  have "k \<in> ready_ids (tables s2) \<longleftrightarrow> k \<in> ready_ids (tables s) - {e_id e}" for k
    using e e1 others by (cases "k = e_id e") (simp_all add: ready_ids_def)
  then have "ready_ids (tables s2) = ready_ids (tables s) - {e_id e}" by blast
  moreover have "e_id e \<in> ready_ids (tables s)" using e by (simp add: ready_ids_def)
  ultimately have len: "length xs = card (ready_ids (tables s2))"
    using Cons.prems(5) finite_ready_ids by simp
  have st: "startable r (tables s2)" unfolding startable_def
  proof (intro allI impI)
    fix k f assume f: "exec_of (tables s2) k = Some f \<and> e_status f = Ready"
    with e1 have "k \<noteq> e_id e" by auto
    with f others have "exec_of (tables s) k = Some f \<and> e_status f = Ready" "next_token (tables s2) k = next_token (tables s) k"
      by simp_all
    with Cons.prems(3)
    show "e_tool_name f \<in> set (rt_handlers r) \<and> e_attempts f < int32_max \<and> next_token (tables s2) k \<le> int64_max"
      unfolding startable_def by metis
  qed
  obtain s' where s': "worker_run jsonb r (concat (map handled xs)) (polling, s2) = (polling, s')" "wf_db (tables s')"
    "net s' = []" "ready_ids (tables s') = {}"
    and rows: "\<forall>k e. exec_of (tables s2) k = Some e \<longrightarrow> (\<exists>e'. exec_of (tables s') k = Some e' \<and> drained_row e e')"
    using Cons.IH [OF r(2,3) st _ len] Cons.prems(4) by auto
  have "\<exists>f'. exec_of (tables s') k = Some f' \<and> drained_row f f'" if f: "exec_of (tables s) k = Some f" for k f
  proof (cases "k = e_id e")
    case True
    with rows e1 obtain f' where "exec_of (tables s') k = Some f'" "drained_row e1 f'" by blast
    with True f e e1 show ?thesis by (simp add: drained_row_def)
  next
    case False
    with f rows others show ?thesis by simp
  qed
  with s' show ?case by (simp add: worker_run_append r(1))
qed

text \<open>
  C39. A worker drains the queue: over a working connection, with handlers for the tools of all
  ready executions, counters below their limits, and every handler returning a JSON text before
  its lease runs out, as many rounds of the loop as there are ready executions complete all of
  them, each with one more attempt, leave every other execution as it was, and then the next
  claim finds no work.
\<close>

theorem queue_drains:
  assumes "wf_db (tables s)" and "net s = []" and "startable r (tables s)"
    and "\<forall>x\<in>set xs. jsonb (fst x) \<noteq> None \<and> 0 \<le> snd x \<and> snd x < rt_lease_seconds r * 1000000"
    and "length xs = card (ready_ids (tables s))"
  shows "\<exists>s'. worker_run jsonb r (concat (map handled xs)) (polling, s) = (polling, s') \<and>
    (\<forall>k e. exec_of (tables s) k = Some e \<longrightarrow> (\<exists>e'. exec_of (tables s') k = Some e' \<and>
      (if e_status e = Ready then e_status e' = Completed \<and> e_attempts e' = e_attempts e + 1 else e' = e))) \<and>
    claim locked w secs s' = (Inl ErrNoWork, s')"
proof -
  obtain s' where s': "worker_run jsonb r (concat (map handled xs)) (polling, s) = (polling, s')" "wf_db (tables s')"
    "net s' = []" "ready_ids (tables s') = {}"
    "\<forall>k e. exec_of (tables s) k = Some e \<longrightarrow> (\<exists>e'. exec_of (tables s') k = Some e' \<and> drained_row e e')"
    using drained [OF assms] by blast
  have "select_ready locked (tables s') = None"
  proof (cases "select_ready locked (tables s')")
    case (Some e)
    with select_ready_row [OF s'(2) Some] select_readyD(2) [OF Some] s'(4) show ?thesis by (auto simp: ready_ids_def)
  qed
  then have "claim locked w secs s' = (Inl ErrNoWork, s')"
    using claiming.quiet [OF s'(3)] by (simp add: claim_effect_def)
  with s'(1,5) show ?thesis by (auto simp: drained_row_def)
qed

text \<open>Two executions, ten seconds each.\<close>

definition sc_queue :: st where
  "sc_queue = snd (submit Some ''b'' ''ns'' ''slow_compute'' ''k2'' None sc_submitted)"

lemma wf_sc_queue: "wf_db (tables sc_queue)"
  unfolding sc_queue_def by (rule submit_op.wf_run, rule wf_sc_submitted)

theorem queue_drains_witness:
  "\<exists>s'. worker_run Some \<lparr>rt_worker = ''w1'', rt_handlers = [''slow_compute''], rt_poll_interval = 1,
      rt_lease_seconds = 30, rt_heartbeat_timeout = 1\<rparr>
      (concat (map handled [(''1'', 10000000), (''2'', 10000000)])) (polling, sc_queue) = (polling, s') \<and>
    map_option e_status (exec_of (tables s') ''b'') = Some Completed \<and> claim [] ''w2'' 30 s' = (Inl ErrNoWork, s')"
proof -
  let ?r = "\<lparr>rt_worker = ''w1'', rt_handlers = [''slow_compute''], rt_poll_interval = 1,
      rt_lease_seconds = 30, rt_heartbeat_timeout = 1\<rparr>"
  have q: "net sc_queue = []" by code_simp
  have ids: "map e_id (db_executions (tables sc_queue)) = [''a'', ''b'']" by code_simp
  have rows: "\<forall>k\<in>{''a'', ''b''}. \<exists>e. exec_of (tables sc_queue) k = Some e \<and> e_status e = Ready \<and>
      e_tool_name e = ''slow_compute'' \<and> e_attempts e = 0 \<and> next_token (tables sc_queue) k = 1"
  proof -
    have "\<forall>k\<in>{''a'', ''b''}. map_option (\<lambda>e. (e_status e, e_tool_name e, e_attempts e)) (exec_of (tables sc_queue) k) =
        Some (Ready, ''slow_compute'', 0) \<and> next_token (tables sc_queue) k = 1" by code_simp
    then show ?thesis by fastforce
  qed
  have only: "k \<in> {''a'', ''b''}" if "exec_of (tables sc_queue) k = Some e" for k e
    using that ids by (auto simp: exec_of_def dest!: row_of_SomeD)
  have ready: "ready_ids (tables sc_queue) = {''a'', ''b''}" using rows only by (fastforce simp: ready_ids_def)
  have st: "startable ?r (tables sc_queue)"
    using rows only unfolding startable_def by (fastforce simp: int32_max_def int64_max_def)
  have l: "length [(''1'', 10000000 :: int), (''2'', 10000000)] = card (ready_ids (tables sc_queue))" by (simp add: ready)
  show ?thesis
    using queue_drains [OF wf_sc_queue q st _ l, of Some "[]" "''w2''" 30] rows by fastforce
qed

end
