(* ===== verification/Json.thy ===== *)
theory Json
  imports Config Schema
begin

text \<open>
  What the program uses of \<open>encoding/json\<close>: the check and reading of a JSON text, with the
  raw text of every member for \<open>json.RawMessage\<close>, and \<open>json.Unmarshal\<close> into the fields of
  a struct. A text is its list of bytes; a decoded string is UTF-8, with the replacement
  character where the input was not.
\<close>

section \<open>Values\<close>

text \<open>A number keeps its literal; a member of an object its name, its raw text and its value.\<close>

datatype json =
    J_null
  | J_bool bool
  | J_num string
  | J_str string
  | J_arr "json list"
  | J_obj "(string \<times> string \<times> json) list"

section \<open>UTF-8\<close>

abbreviation code :: "char \<Rightarrow> int" where "code c \<equiv> of_char c"

definition between :: "int \<Rightarrow> char \<Rightarrow> int \<Rightarrow> bool" where
  "between a c b \<longleftrightarrow> a \<le> code c \<and> code c \<le> b"

text \<open>\<open>utf8.DecodeRune\<close>: the length of the valid sequence a text starts with, or \<open>None\<close>.\<close>

definition rune_length :: "string \<Rightarrow> nat option" where
  "rune_length s = (case s of
       [] \<Rightarrow> None
     | a # r \<Rightarrow>
         if code a < 128 then Some 1
         else if between 194 a 223 then
           (case r of b # _ \<Rightarrow> if between 128 b 191 then Some 2 else None | [] \<Rightarrow> None)
         else if between 224 a 239 then
           (case r of b # c # _ \<Rightarrow>
              if between (if code a = 224 then 160 else 128) b (if code a = 237 then 159 else 191)
                 \<and> between 128 c 191 then Some 3 else None | _ \<Rightarrow> None)
         else if between 240 a 244 then
           (case r of b # c # d # _ \<Rightarrow>
              if between (if code a = 240 then 144 else 128) b (if code a = 244 then 143 else 191)
                 \<and> between 128 c 191 \<and> between 128 d 191 then Some 4 else None | _ \<Rightarrow> None)
         else None)"

definition encode_rune :: "int \<Rightarrow> string" where
  "encode_rune n =
     (if n < 128 then [char_of n]
      else if n < 2048 then [char_of (192 + n div 64), char_of (128 + n mod 64)]
      else if n < 65536 then
        [char_of (224 + n div 4096), char_of (128 + n div 64 mod 64), char_of (128 + n mod 64)]
      else [char_of (240 + n div 262144), char_of (128 + n div 4096 mod 64),
            char_of (128 + n div 64 mod 64), char_of (128 + n mod 64)])"

definition replacement :: string where
  "replacement = encode_rune 65533"

section \<open>String literals\<close>

definition hex_digit :: "char \<Rightarrow> int option" where
  "hex_digit c = (if between 48 c 57 then Some (code c - 48)
     else if between 97 c 102 then Some (code c - 87)
     else if between 65 c 70 then Some (code c - 55) else None)"

definition hex4 :: "string \<Rightarrow> int option" where
  "hex4 s = (case s of
       a # b # c # d # _ \<Rightarrow>
         (case (hex_digit a, hex_digit b, hex_digit c, hex_digit d) of
            (Some w, Some x, Some y, Some z) \<Rightarrow> Some (((w * 16 + x) * 16 + y) * 16 + z)
          | _ \<Rightarrow> None)
     | _ \<Rightarrow> None)"

definition simple_escape :: "char \<Rightarrow> string option" where
  "simple_escape c =
     (if c \<in> set [CHR ''\"'', CHR 0x5C, CHR ''/''] then Some [c]
      else if c = CHR ''b'' then Some [CHR 0x08]
      else if c = CHR ''f'' then Some [CHR 0x0C]
      else if c = CHR ''n'' then Some [CHR 0x0A]
      else if c = CHR ''r'' then Some [CHR 0x0D]
      else if c = CHR ''t'' then Some [CHR 0x09]
      else None)"

text \<open>
  The two halves of a surrogate pair make one character; a half without its partner is
  replaced. \<open>unicode_escape s\<close> reads what follows \<open>\u\<close>.
\<close>

definition unicode_escape :: "string \<Rightarrow> (string \<times> string) option" where
  "unicode_escape s = (case hex4 s of
       None \<Rightarrow> None
     | Some n \<Rightarrow>
         (let r = drop 4 s in
          if n < 55296 \<or> 57343 < n then Some (encode_rune n, r)
          else if n < 56320 \<and> take 2 r = [CHR 0x5C, CHR ''u''] then
            (case hex4 (drop 2 r) of
               None \<Rightarrow> None
             | Some m \<Rightarrow>
                 if 56320 \<le> m \<and> m \<le> 57343
                 then Some (encode_rune (65536 + (n - 55296) * 1024 + (m - 56320)), drop 6 r)
                 else Some (replacement, r))
          else Some (replacement, r)))"

text \<open>The rest of a literal after its opening quote: its text, and what follows it.\<close>

fun string_body :: "nat \<Rightarrow> string \<Rightarrow> (string \<times> string) option" where
  "string_body 0 s = None"
| "string_body (Suc n) [] = None"
| "string_body (Suc n) (c # s) =
     (if c = CHR ''\"'' then Some ([], s)
      else if c = CHR 0x5C then
        (case s of
           [] \<Rightarrow> None
         | e # r \<Rightarrow>
             (case (if e = CHR ''u'' then unicode_escape r
                    else map_option (\<lambda>t. (t, r)) (simple_escape e)) of
                None \<Rightarrow> None
              | Some (t, r') \<Rightarrow> map_option (apfst ((@) t)) (string_body n r')))
      else if code c < 32 then None
      else
        (case rune_length (c # s) of
           None \<Rightarrow> map_option (apfst ((@) replacement)) (string_body n s)
         | Some k \<Rightarrow> map_option (apfst ((@) (take k (c # s)))) (string_body n (drop k (c # s)))))"

section \<open>Numbers\<close>

definition is_digit :: "char \<Rightarrow> bool" where
  "is_digit c \<longleftrightarrow> between 48 c 57"

definition digits_then :: "string \<Rightarrow> string \<times> string" where
  "digits_then s = (takeWhile is_digit s, dropWhile is_digit s)"

definition number_int :: "string \<Rightarrow> (string \<times> string) option" where
  "number_int s = (case s of
       [] \<Rightarrow> None
     | c # r \<Rightarrow> if c = CHR ''0'' then Some ([c], r)
         else if is_digit c then Some (digits_then s) else None)"

definition number_frac :: "string \<Rightarrow> (string \<times> string) option" where
  "number_frac s = (case s of
       c # r \<Rightarrow> if c = CHR ''.'' then
           (if fst (digits_then r) = [] then None else Some (c # fst (digits_then r), snd (digits_then r)))
         else Some ([], s)
     | [] \<Rightarrow> Some ([], s))"

definition number_exp :: "string \<Rightarrow> (string \<times> string) option" where
  "number_exp s = (case s of
       c # r \<Rightarrow> if c = CHR ''e'' \<or> c = CHR ''E'' then
           (let sg = (case r of x # _ \<Rightarrow> if x = CHR ''+'' \<or> x = CHR ''-'' then [x] else [] | [] \<Rightarrow> []);
                r' = drop (length sg) r
            in if fst (digits_then r') = [] then None
               else Some (c # sg @ fst (digits_then r'), snd (digits_then r')))
         else Some ([], s)
     | [] \<Rightarrow> Some ([], s))"

definition number_literal :: "string \<Rightarrow> (string \<times> string) option" where
  "number_literal s =
     (let sg = (case s of x # _ \<Rightarrow> if x = CHR ''-'' then [x] else [] | [] \<Rightarrow> [])
      in Option.bind (number_int (drop (length sg) s)) (\<lambda>(a, s1).
         Option.bind (number_frac s1) (\<lambda>(b, s2).
         Option.bind (number_exp s2) (\<lambda>(c, s3). Some (sg @ a @ b @ c, s3)))))"

section \<open>Values\<close>

definition is_space :: "char \<Rightarrow> bool" where
  "is_space c \<longleftrightarrow> code c = 32 \<or> code c = 9 \<or> code c = 10 \<or> code c = 13"

definition skip :: "string \<Rightarrow> string" where
  "skip s = dropWhile is_space s"

text \<open>The part of \<open>s\<close> before its rest \<open>r\<close>.\<close>

definition before :: "string \<Rightarrow> string \<Rightarrow> string" where
  "before s r = take (length s - length r) s"

text \<open>
  One value at the start of a text without leading space. The first argument bounds the
  number of calls, the second the nesting (10000 in \<open>encoding/json\<close>).
\<close>

function (sequential) parse_value :: "nat \<Rightarrow> int \<Rightarrow> string \<Rightarrow> (json \<times> string) option"
  and parse_items :: "nat \<Rightarrow> int \<Rightarrow> string \<Rightarrow> (json list \<times> string) option"
  and parse_members :: "nat \<Rightarrow> int \<Rightarrow> string \<Rightarrow> ((string \<times> string \<times> json) list \<times> string) option" where
  "parse_value 0 d s = None"
| "parse_value (Suc n) d s = (case s of
       [] \<Rightarrow> None
     | c # r \<Rightarrow>
         if take 4 s = ''null'' then Some (J_null, drop 4 s)
         else if take 4 s = ''true'' then Some (J_bool True, drop 4 s)
         else if take 5 s = ''false'' then Some (J_bool False, drop 5 s)
         else if c = CHR ''\"'' then map_option (apfst J_str) (string_body (length s) r)
         else if c = CHR ''['' then
           (if d = 0 then None
            else case skip r of
              x # r' \<Rightarrow> if x = CHR '']'' then Some (J_arr [], r')
                else map_option (apfst J_arr) (parse_items n (d - 1) (skip r))
            | [] \<Rightarrow> None)
         else if c = CHR ''{'' then
           (if d = 0 then None
            else case skip r of
              x # r' \<Rightarrow> if x = CHR ''}'' then Some (J_obj [], r')
                else map_option (apfst J_obj) (parse_members n (d - 1) (skip r))
            | [] \<Rightarrow> None)
         else map_option (apfst J_num) (number_literal s))"
| "parse_items 0 d s = None"
| "parse_items (Suc n) d s = (case parse_value n d s of
       None \<Rightarrow> None
     | Some (v, s1) \<Rightarrow> (case skip s1 of
         x # s2 \<Rightarrow> if x = CHR '']'' then Some ([v], s2)
           else if x = CHR '','' then map_option (apfst ((#) v)) (parse_items n d (skip s2))
           else None
       | [] \<Rightarrow> None))"
| "parse_members 0 d s = None"
| "parse_members (Suc n) d s = (case s of
       q # r \<Rightarrow> if q \<noteq> CHR ''\"'' then None
         else (case string_body (length s) r of
           None \<Rightarrow> None
         | Some (name, s1) \<Rightarrow> (case skip s1 of
             x # s2 \<Rightarrow> if x \<noteq> CHR '':'' then None
               else (case parse_value n d (skip s2) of
                 None \<Rightarrow> None
               | Some (v, s3) \<Rightarrow>
                   (let m = (name, before (skip s2) s3, v) in case skip s3 of
                      y # s4 \<Rightarrow> if y = CHR ''}'' then Some ([m], s4)
                        else if y = CHR '','' then map_option (apfst ((#) m)) (parse_members n d (skip s4))
                        else None
                    | [] \<Rightarrow> None))
           | [] \<Rightarrow> None))
     | [] \<Rightarrow> None)"
  by pat_completeness auto
termination
  by (relation "measure (\<lambda>x. case x of Inl (n, d, s) \<Rightarrow> n | Inr (Inl (n, d, s)) \<Rightarrow> n | Inr (Inr (n, d, s)) \<Rightarrow> n)") auto

text \<open>A whole text: one value, with space around it and nothing else.\<close>

definition parse_json :: "string \<Rightarrow> json option" where
  "parse_json s = (case parse_value (2 * length s + 1) 10000 (skip s) of
       Some (v, r) \<Rightarrow> if skip r = [] then Some v else None
     | None \<Rightarrow> None)"

section \<open>json.Unmarshal into a struct\<close>

text \<open>
  A member sets the field whose name equals its own up to case folding; besides the ASCII
  letters, U+017F folds to S and U+212A to K. Later members win. \<open>null\<close> leaves a string, a
  number or a boolean as it was, but a \<open>RawMessage\<close> receives the text \<open>null\<close>. A value of
  the wrong type leaves the field and is an error in the end.
\<close>

type_synonym members = "(string \<times> string \<times> json) list"

definition upper_char :: "char \<Rightarrow> char" where
  "upper_char c = (if between 97 c 122 then char_of (code c - 32) else c)"

fun fold_name :: "string \<Rightarrow> string" where
  "fold_name [] = []"
| "fold_name [a] = [upper_char a]"
| "fold_name [a, b] =
     (if code a = 197 \<and> code b = 191 then ''S'' else [upper_char a, upper_char b])"
| "fold_name (a # b # c # r) =
     (if code a = 197 \<and> code b = 191 then CHR ''S'' # fold_name (c # r)
      else if code a = 226 \<and> code b = 132 \<and> code c = 170 then CHR ''K'' # fold_name r
      else upper_char a # fold_name (b # c # r))"

definition values_of :: "string \<Rightarrow> members \<Rightarrow> (string \<times> json) list" where
  "values_of name ms = map snd (filter (\<lambda>m. fold_name (fst m) = fold_name name) ms)"

fun take_string :: "(string \<times> json) list \<Rightarrow> string \<Rightarrow> string \<times> bool" where
  "take_string [] cur = (cur, False)"
| "take_string ((_, J_str t) # vs) cur = take_string vs t"
| "take_string ((_, J_null) # vs) cur = take_string vs cur"
| "take_string (_ # vs) cur = (fst (take_string vs cur), True)"

fun take_bool :: "(string \<times> json) list \<Rightarrow> bool \<Rightarrow> bool \<times> bool" where
  "take_bool [] cur = (cur, False)"
| "take_bool ((_, J_bool b) # vs) cur = take_bool vs b"
| "take_bool ((_, J_null) # vs) cur = take_bool vs cur"
| "take_bool (_ # vs) cur = (fst (take_bool vs cur), True)"

fun take_int :: "(string \<times> json) list \<Rightarrow> int \<Rightarrow> int \<times> bool" where
  "take_int [] cur = (cur, False)"
| "take_int ((_, J_num l) # vs) cur =
     (case atoi l of Some n \<Rightarrow> take_int vs n | None \<Rightarrow> (fst (take_int vs cur), True))"
| "take_int ((_, J_null) # vs) cur = take_int vs cur"
| "take_int (_ # vs) cur = (fst (take_int vs cur), True)"

definition take_raw :: "(string \<times> json) list \<Rightarrow> raw_message" where
  "take_raw vs = (if vs = [] then None else Some (fst (last vs)))"

text \<open>A nested struct collects the members of every object given for it.\<close>

fun take_struct :: "(string \<times> json) list \<Rightarrow> members \<times> bool" where
  "take_struct [] = ([], False)"
| "take_struct ((_, J_obj ms) # vs) = apfst ((@) ms) (take_struct vs)"
| "take_struct ((_, J_null) # vs) = take_struct vs"
| "take_struct (_ # vs) = apsnd (\<lambda>_. True) (take_struct vs)"

text \<open>
  The members of a text decoded into a struct and whether its type was wrong; \<open>None\<close> for a
  text that is not JSON.
\<close>

definition top_members :: "string \<Rightarrow> (members \<times> bool) option" where
  "top_members s = map_option (\<lambda>v. take_struct [([], v)]) (parse_json s)"

end
