(* ===== verification/Json_Facts.thy ===== *)
theory Json_Facts
  imports Json
begin

text \<open>
  The reader of JSON texts consumes its input, so the bound on its calls that \<open>parse_json\<close>
  gives it is never what stops it: any larger bound gives the same answer.
\<close>

lemma unicode_escape_shorter: "unicode_escape s = Some (t, r) \<Longrightarrow> length r \<le> length s"
  by (auto simp: unicode_escape_def Let_def split: option.splits if_splits)

lemma rune_length_pos: "rune_length s = Some k \<Longrightarrow> 0 < k"
  by (auto simp: rune_length_def split: list.splits if_splits)

lemma string_body_shorter: "string_body n s = Some (t, r) \<Longrightarrow> length r < length s"
proof (induction n s arbitrary: t r rule: string_body.induct)
  case (3 n c s)
  show ?case
  proof (cases "c = CHR ''\"''")
    case True
    with 3(4) show ?thesis by simp
  next
    case q: False
    show ?thesis
    proof (cases "c = CHR 0x5C")
      case True
      then obtain e r0 t0 r' t1 where s: "s = e # r0"
        "(if e = CHR ''u'' then unicode_escape r0 else map_option (\<lambda>t. (t, r0)) (simple_escape e)) = Some (t0, r')"
        "string_body n r' = Some (t1, r)"
        using 3(4) q by (auto split: list.splits option.splits)
      from s(2) have "length r' \<le> length r0" by (auto dest: unicode_escape_shorter split: if_splits)
      with 3(1) [OF q True s(1,2) refl s(3)] s(1) show ?thesis by simp
    next
      case b: False
      show ?thesis
      proof (cases "rune_length (c # s)")
        case None
        with 3(4) q b obtain t1 where "string_body n s = Some (t1, r)" by (auto split: if_splits)
        with 3(2) [OF q b _ None] 3(4) q b show ?thesis by (fastforce split: if_splits)
      next
        case (Some k)
        with 3(4) q b obtain t1 where "string_body n (drop k (c # s)) = Some (t1, r)"
          by (auto split: if_splits)
        with 3(3) [OF q b _ Some] 3(4) q b rune_length_pos [OF Some] show ?thesis
          by (fastforce split: if_splits)
      qed
    qed
  qed
qed simp_all

lemma string_body_fuel:
  "length s < n \<Longrightarrow> length s < m \<Longrightarrow> string_body n s = string_body m s"
proof (induction n s arbitrary: m rule: string_body.induct)
  case (2 n)
  then show ?case by (cases m) simp_all
next
  case (3 n c s)
  from 3(5) obtain m' where m: "m = Suc m'" by (cases m) auto
  have esc: "string_body n r' = string_body m' r'" if "c = CHR 0x5C" "c \<noteq> CHR ''\"''" "s = e # r0"
    "(if e = CHR ''u'' then unicode_escape r0 else map_option (\<lambda>t. (t, r0)) (simple_escape e)) = Some (t0, r')"
    for e r0 t0 r'
  proof -
    from that(4) have "length r' \<le> length r0" by (auto dest: unicode_escape_shorter split: if_splits)
    then have "length r' < n" "length r' < m'" using 3(4,5) m that(3) by simp_all
    then show ?thesis by (rule 3(1) [OF that(2,1,3,4) refl])
  qed
  have plain: "string_body n s = string_body m' s" if "c \<noteq> CHR ''\"''" "c \<noteq> CHR 0x5C" "\<not> code c < 32" "rune_length (c # s) = None"
    by (rule 3(2) [OF that]) (use 3(4,5) m in simp_all)
  have rune: "string_body n (drop k (c # s)) = string_body m' (drop k (c # s))"
    if "c \<noteq> CHR ''\"''" "c \<noteq> CHR 0x5C" "\<not> code c < 32" "rune_length (c # s) = Some k" for k
  proof (rule 3(3) [OF that])
    have "0 < k" by (rule rune_length_pos [OF that(4)])
    then have "length (drop k (c # s)) \<le> length s" by (cases k) simp_all
    then show "length (drop k (c # s)) < n" "length (drop k (c # s)) < m'" using 3(4,5) m by simp_all
  qed
  show ?case
  proof (cases "c = CHR ''\"'' \<or> (c \<noteq> CHR 0x5C \<and> code c < 32)")
    case True
    then show ?thesis by (auto simp: m)
  next
    case q: False
    show ?thesis
    proof (cases "c = CHR 0x5C")
      case True
      show ?thesis
      proof (cases s)
        case (Cons e r0)
        let ?o = "if e = CHR ''u'' then unicode_escape r0 else map_option (\<lambda>t. (t, r0)) (simple_escape e)"
        show ?thesis
        proof (cases ?o)
          case (Some p)
          obtain t0 r' where p: "p = (t0, r')" by force
          have "string_body n r' = string_body m' r'" using esc [OF True _ Cons Some [unfolded p]] q by blast
          moreover have "(CHR 0x5C = CHR 0x22) = False" by simp
          ultimately show ?thesis using True Cons Some p unfolding m string_body.simps
            by (simp only: list.case option.case prod.case if_False if_True simp_thms)
        qed (use True Cons in \<open>simp add: m\<close>)
      qed (use True in \<open>simp add: m\<close>)
    next
      case b: False
      with q have u: "\<not> code c < 32" "c \<noteq> CHR ''\"''" by auto
      show ?thesis
      proof (cases "rune_length (c # s)")
        case None
        with plain [OF u(2) b u(1) None] b u show ?thesis by (simp add: m)
      next
        case (Some k)
        from rune [OF u(2) b u(1) Some] b u Some show ?thesis
          unfolding m string_body.simps by (simp only: option.case if_False)
      qed
    qed
  qed
qed simp

lemma digits_then_shorter: "length (snd (digits_then s)) \<le> length s"
  by (simp add: digits_then_def length_dropWhile_le)

lemma number_int_shorter: "number_int s = Some (l, r) \<Longrightarrow> length r < length s"
  using length_dropWhile_le [of is_digit]
  by (auto simp: number_int_def digits_then_def less_Suc_eq_le split: list.splits if_splits)

lemma number_frac_shorter: "number_frac s = Some (l, r) \<Longrightarrow> length r \<le> length s"
  using digits_then_shorter by (auto simp: number_frac_def le_SucI split: list.splits if_splits)

lemma number_exp_shorter: "number_exp s = Some (l, r) \<Longrightarrow> length r \<le> length s"
proof (cases s)
  case (Cons c x)
  assume e: "number_exp s = Some (l, r)"
  have "length (snd (digits_then (drop k x))) \<le> length x" for k
    using digits_then_shorter [of "drop k x"] by simp
  with e Cons show ?thesis by (auto simp: number_exp_def Let_def le_SucI split: if_splits)
qed (simp add: number_exp_def)

lemma number_literal_shorter:
  assumes "number_literal s = Some (l, r)"
  shows "length r < length s"
proof -
  define k where "k = length (case s of x # _ \<Rightarrow> if x = CHR ''-'' then [x] else [] | [] \<Rightarrow> [])"
  from assms obtain a s1 b s2 c where "number_int (drop k s) = Some (a, s1)"
    "number_frac s1 = Some (b, s2)" "number_exp s2 = Some (c, r)"
    by (auto simp: number_literal_def Let_def k_def bind_eq_Some_conv)
  then have "length r < length (drop k s)"
    using number_int_shorter number_frac_shorter number_exp_shorter by fastforce
  then show ?thesis by simp
qed

lemma skip_shorter: "length (skip s) \<le> length s"
  by (simp add: skip_def length_dropWhile_le)

text \<open>The three kinds of value that take a recursive call, and the others.\<close>

definition opens :: "string \<Rightarrow> char \<Rightarrow> bool" where
  "opens s c \<longleftrightarrow> (\<exists>t. s = c # t)"

lemma opens_not_word: "opens s c \<Longrightarrow> c \<in> {CHR ''['', CHR ''{''} \<Longrightarrow>
  take 4 s \<noteq> ''null'' \<and> take 4 s \<noteq> ''true'' \<and> take 5 s \<noteq> ''false''"
  by (auto simp: opens_def)

lemma parse_value_array:
  "parse_value (Suc n) d (CHR ''['' # t) =
    (if d = 0 then None
     else case skip t of
       x # r' \<Rightarrow> if x = CHR '']'' then Some (J_arr [], r')
         else map_option (apfst J_arr) (parse_items n (d - 1) (skip t))
     | [] \<Rightarrow> None)"
  by simp

lemma parse_value_object:
  "parse_value (Suc n) d (CHR ''{'' # t) =
    (if d = 0 then None
     else case skip t of
       x # r' \<Rightarrow> if x = CHR ''}'' then Some (J_obj [], r')
         else map_option (apfst J_obj) (parse_members n (d - 1) (skip t))
     | [] \<Rightarrow> None)"
  by simp

definition scalar :: "string \<Rightarrow> (json \<times> string) option" where
  "scalar s = (case s of
       [] \<Rightarrow> None
     | c # r \<Rightarrow>
         if take 4 s = ''null'' then Some (J_null, drop 4 s)
         else if take 4 s = ''true'' then Some (J_bool True, drop 4 s)
         else if take 5 s = ''false'' then Some (J_bool False, drop 5 s)
         else if c = CHR ''\"'' then map_option (apfst J_str) (string_body (length s) r)
         else map_option (apfst J_num) (number_literal s))"

lemma parse_value_scalar:
  "c \<noteq> CHR ''['' \<Longrightarrow> c \<noteq> CHR ''{'' \<Longrightarrow> parse_value (Suc n) d (c # t) = scalar (c # t)"
  by (simp add: scalar_def)

lemma scalar_shorter:
  assumes "scalar s = Some (v, r)"
  shows "length r < length s"
proof -
  obtain c t where s: "s = c # t" using assms by (cases s) (auto simp: scalar_def)
  have d: "length (drop (Suc k) s) < length s" for k by (simp add: s)
  show ?thesis
  proof (cases "take 4 s = ''null'' \<or> take 4 s = ''true'' \<or> take 5 s = ''false''")
    case True
    with assms have "r = drop 4 s \<or> r = drop 5 s"
      by (cases "take 4 s = ''null''"; cases "take 4 s = ''true''")
        (simp_all add: scalar_def s del: take_Suc_Cons drop_Suc_Cons take_Cons_numeral drop_Cons_numeral)
    with d [of 3] d [of 4] show ?thesis by (auto simp del: drop_Suc_Cons drop_Cons_numeral)
  next
    case False
    with assms consider "map_option (apfst J_str) (string_body (length s) t) = Some (v, r)"
      | "map_option (apfst J_num) (number_literal s) = Some (v, r)"
      by (auto simp: scalar_def s simp del: take_Suc_Cons drop_Suc_Cons take_Cons_numeral drop_Cons_numeral
          split: if_splits)
    then show ?thesis
    proof cases
      case 1
      then show ?thesis by (auto simp: s dest: string_body_shorter)
    next
      case 2
      then show ?thesis by (auto dest: number_literal_shorter)
    qed
  qed
qed

definition shortens :: "('a \<times> string) option \<Rightarrow> string \<Rightarrow> bool" where
  "shortens res s \<longleftrightarrow> (\<forall>v r. res = Some (v, r) \<longrightarrow> length r < length s)"

lemma shortens_step:
  "shortens res s \<Longrightarrow> length s \<le> length s' \<Longrightarrow> shortens (map_option (apfst f) res) s'"
  by (fastforce simp: shortens_def)

lemma parse_shorter_all:
  "(\<forall>d s. shortens (parse_value n d s) s) \<and> (\<forall>d s. shortens (parse_items n d s) s) \<and>
   (\<forall>d s. shortens (parse_members n d s) s)"
proof (induction n)
  case (Suc n)
  have items: "shortens (map_option (apfst f) (parse_items n d (skip t))) (c # t)" for d t c and f :: "json list \<Rightarrow> 'a"
    using Suc skip_shorter [of t] by (intro shortens_step) auto
  have mems: "shortens (map_option (apfst f) (parse_members n d (skip t))) (c # t)" for d t c and f :: "(string \<times> string \<times> json) list \<Rightarrow> 'a"
    using Suc skip_shorter [of t] by (intro shortens_step) auto
  have v: "shortens (parse_value (Suc n) d s) s" for d s
  proof (cases s)
    case (Cons c t)
    have sk: "skip t = x # r' \<Longrightarrow> length r' < Suc (length t)" for x r'
      using skip_shorter [of t] by simp
    consider "c = CHR ''[''" | "c = CHR ''{''" | "c \<noteq> CHR ''[''" "c \<noteq> CHR ''{''" by blast
    then show ?thesis
    proof cases
      case 1
      show ?thesis unfolding Cons 1 parse_value_array
        using items [of J_arr "d - 1" t c] sk
        by (cases "skip t") (simp_all add: shortens_def 1)
    next
      case 2
      show ?thesis unfolding Cons 2 parse_value_object
        using mems [of J_obj "d - 1" t c] sk
        by (cases "skip t") (simp_all add: shortens_def 2)
    next
      case 3
      show ?thesis unfolding Cons parse_value_scalar [OF 3] unfolding shortens_def using scalar_shorter by blast
    qed
  qed (simp add: shortens_def)
  have i: "shortens (parse_items (Suc n) d s) s" for d s
  proof (cases "parse_value n d s")
    case (Some p)
    obtain w s1 where p: "p = (w, s1)" by force
    with Some Suc have l1: "length s1 < length s" by (auto simp: shortens_def)
    show ?thesis
    proof (cases "skip s1")
      case (Cons x s2)
      have "length s2 < length s" using skip_shorter [of s1] l1 Cons by simp
      moreover have "shortens (map_option (apfst ((#) w)) (parse_items n d (skip s2))) s"
        using Suc skip_shorter [of s2] calculation by (intro shortens_step) auto
      ultimately show ?thesis using Some p Cons by (simp add: shortens_def)
    qed (use Some p in \<open>simp add: shortens_def\<close>)
  qed (simp add: shortens_def)
  have m: "shortens (parse_members (Suc n) d s) s" for d s
  proof (cases s)
    case (Cons q r)
    show ?thesis
    proof (cases "string_body (length s) r")
      case (Some p)
      obtain name s1 where p: "p = (name, s1)" by force
      have l1: "length s1 < length s" using string_body_shorter [of _ r name s1] Some p Cons by fastforce
      show ?thesis
      proof (cases "skip s1")
        case c1: (Cons x s2)
        have l2: "length s2 < length s" using skip_shorter [of s1] l1 c1 by simp
        show ?thesis
        proof (cases "parse_value n d (skip s2)")
          case v3: (Some p3)
          obtain w s3 where p3: "p3 = (w, s3)" by force
          have l3: "length s3 < length s"
            using Suc v3 p3 l2 skip_shorter [of s2] by (fastforce simp: shortens_def)
          show ?thesis
          proof (cases "skip s3")
            case c4: (Cons y s4)
            have l4: "length s4 < length s" using skip_shorter [of s3] l3 c4 by simp
            have "shortens (map_option (apfst ((#) mm)) (parse_members n d (skip s4))) s" for mm
              using Suc skip_shorter [of s4] l4 by (intro shortens_step) auto
            with l4 show ?thesis using Some p Cons c1 v3 p3 c4 by (simp add: shortens_def Let_def)
          qed (use Some p Cons c1 v3 p3 in \<open>simp add: shortens_def\<close>)
        qed (use Some p Cons c1 in \<open>simp add: shortens_def\<close>)
      qed (use Some p Cons in \<open>simp add: shortens_def\<close>)
    qed (use Cons in \<open>simp add: shortens_def\<close>)
  qed (simp add: shortens_def)
  from v i m show ?case by blast
qed (simp add: shortens_def)

section \<open>The bound on the calls is enough\<close>

lemma parse_value_shorter: "parse_value n d s = Some (v, r) \<Longrightarrow> length r < length s"
  using parse_shorter_all [of n] by (simp add: shortens_def)

text \<open>
  \<open>settled n b\<close>: with a bound of \<open>n\<close> calls or any larger one, texts of up to \<open>b\<close> characters
  are read alike.
\<close>

definition settled :: "nat \<Rightarrow> nat \<Rightarrow> bool" where
  "settled n b \<longleftrightarrow> (\<forall>m\<ge>n. \<forall>d s. length s \<le> b \<longrightarrow>
     parse_value m d s = parse_value n d s)"

definition settled_items :: "nat \<Rightarrow> nat \<Rightarrow> bool" where
  "settled_items n b \<longleftrightarrow> (\<forall>m\<ge>n. \<forall>d s. length s \<le> b \<longrightarrow>
     parse_items m d s = parse_items n d s \<and> parse_members m d s = parse_members n d s)"

lemma settledD: "settled n b \<Longrightarrow> n \<le> m \<Longrightarrow> length s \<le> b \<Longrightarrow> parse_value m d s = parse_value n d s"
  unfolding settled_def by blast

lemma settled_itemsD:
  assumes "settled_items n b" and "n \<le> m" and "length s \<le> b"
  shows "parse_items m d s = parse_items n d s" and "parse_members m d s = parse_members n d s"
  using assms unfolding settled_items_def by blast+

lemma settled_value:
  assumes "settled_items n b"
  shows "settled (Suc n) (Suc b)"
  unfolding settled_def
proof (intro allI impI)
  fix m :: nat and d :: int and s :: string
  assume "Suc n \<le> m" and l: "length s \<le> Suc b"
  then obtain m' where m: "m = Suc m'" "n \<le> m'" by (cases m) auto
  show "parse_value m d s = parse_value (Suc n) d s"
  proof (cases s)
    case (Cons c t)
    have "length (skip t) \<le> b" using skip_shorter [of t] l Cons by simp
    then have e: "parse_items m' k (skip t) = parse_items n k (skip t)"
      "parse_members m' k (skip t) = parse_members n k (skip t)" for k
      using settled_itemsD [OF assms m(2)] by blast+
    consider "c = CHR ''[''" | "c = CHR ''{''" | "c \<noteq> CHR ''[''" "c \<noteq> CHR ''{''" by blast
    then show ?thesis
    proof cases
      case 1
      show ?thesis unfolding Cons 1 m(1) parse_value_array e ..
    next
      case 2
      show ?thesis unfolding Cons 2 m(1) parse_value_object e ..
    next
      case 3
      show ?thesis unfolding Cons m(1) parse_value_scalar [OF 3] ..
    qed
  qed (simp add: m)
qed

lemma settled_more: "settled n b \<Longrightarrow> n \<le> n' \<Longrightarrow> settled n' b"
  unfolding settled_def by (metis order_trans)

lemma settled_items_step:
  assumes "settled n b" and "\<And>b'. b = Suc b' \<Longrightarrow> settled_items n b'"
  shows "settled_items (Suc n) b"
  unfolding settled_items_def
proof (intro allI impI)
  fix m :: nat and d :: int and s :: string
  assume "Suc n \<le> m" and l: "length s \<le> b"
  then obtain m' where m: "m = Suc m'" "n \<le> m'" by (cases m) auto
  have val: "parse_value m' k u = parse_value n k u" if "length u \<le> b" for k u
    by (rule settledD [OF assms(1) m(2) that])
  have rest: "parse_items m' k u = parse_items n k u" "parse_members m' k u = parse_members n k u"
    if "length u < length s" for k u
  proof -
    from that l obtain b' where b': "b = Suc b'" by (cases b) auto
    have "length u \<le> b'" using that l b' by simp
    from settled_itemsD [OF assms(2) [OF b'] m(2) this] show "parse_items m' k u = parse_items n k u"
      "parse_members m' k u = parse_members n k u" .
  qed
  have items: "parse_items m d s = parse_items (Suc n) d s"
  proof (cases "parse_value n d s")
    case (Some p)
    obtain v s1 where p: "p = (v, s1)" by force
    show ?thesis
    proof (cases "skip s1")
      case (Cons x s2)
      have "length (skip s2) < length s"
        using skip_shorter [of s1] skip_shorter [of s2] parse_value_shorter [of n d s v s1] Some p Cons by simp
      from rest(1) [OF this] show ?thesis using val [OF l, of d] Some p Cons by (simp add: m)
    qed (use val [OF l, of d] Some p in \<open>simp add: m\<close>)
  qed (use val [OF l, of d] in \<open>simp add: m\<close>)
  moreover have "parse_members m d s = parse_members (Suc n) d s"
  proof (cases s)
    case (Cons q r)
    show ?thesis
    proof (cases "string_body (length s) r")
      case (Some p)
      obtain name s1 where p: "p = (name, s1)" by force
      have l1: "length s1 < length s" using string_body_shorter [of _ r name s1] Some p Cons by fastforce
      show ?thesis
      proof (cases "skip s1")
        case c1: (Cons x s2)
        have l2: "length (skip s2) < length s" using skip_shorter [of s1] skip_shorter [of s2] l1 c1 by simp
        then have v: "parse_value m' d (skip s2) = parse_value n d (skip s2)" using l by (intro val) simp
        show ?thesis
        proof (cases "parse_value n d (skip s2)")
          case v3: (Some p3)
          obtain w s3 where p3: "p3 = (w, s3)" by force
          have l3: "length s3 < length s" using parse_value_shorter [of n d "skip s2" w s3] v3 p3 l2 by simp
          show ?thesis
          proof (cases "skip s3")
            case c4: (Cons y s4)
            have "length (skip s4) < length s"
              using skip_shorter [of s3] skip_shorter [of s4] l3 c4 by simp
            from rest(2) [OF this] show ?thesis using Some p Cons c1 v v3 p3 c4 by (simp add: m Let_def)
          qed (use Some p Cons c1 v v3 p3 in \<open>simp add: m\<close>)
        qed (use Some p Cons c1 v in \<open>simp add: m\<close>)
      qed (use Some p Cons in \<open>simp add: m\<close>)
    qed (use Cons in \<open>simp add: m\<close>)
  qed (simp add: m)
  ultimately show "parse_items m d s = parse_items (Suc n) d s \<and>
    parse_members m d s = parse_members (Suc n) d s" ..
qed

lemma settled_all: "settled (2 * b + 1) b \<and> settled_items (2 * b + 2) b"
proof (induction b)
  case 0
  have v: "settled 1 0"
    unfolding settled_def
  proof (intro allI impI)
    fix m :: nat and d :: int and s :: string
    assume "1 \<le> m" "length s \<le> 0"
    then show "parse_value m d s = parse_value 1 d s" by (cases m) simp_all
  qed
  moreover have "settled_items (Suc 1) 0" by (rule settled_items_step [OF v]) simp
  ultimately show ?case by simp
next
  case (Suc b)
  have v: "settled (2 * Suc b + 1) (Suc b)"
    using settled_value [OF conjunct2 [OF Suc]] by (simp add: numeral_3_eq_3)
  have "settled_items (Suc (2 * Suc b + 1)) (Suc b)"
  proof (rule settled_items_step [OF v])
    fix b'
    assume "Suc b = Suc b'"
    then have b': "b' = b" by simp
    show "settled_items (2 * Suc b + 1) b'"
      unfolding b' settled_items_def
    proof (intro allI impI)
      fix m :: nat and d :: int and s :: string
      assume m: "2 * Suc b + 1 \<le> m" and l: "length s \<le> b"
      have "2 * b + 2 \<le> m" "2 * b + 2 \<le> 2 * Suc b + 1" using m by simp_all
      with settled_itemsD [OF conjunct2 [OF Suc] _ l, of _ d]
      show "parse_items m d s = parse_items (2 * Suc b + 1) d s \<and>
        parse_members m d s = parse_members (2 * Suc b + 1) d s" by metis
    qed
  qed
  with v show ?case by simp
qed

lemma parse_json_any_bound:
  assumes "2 * length s + 1 \<le> n"
  shows "parse_json s = (case parse_value n 10000 (skip s) of
       Some (v, r) \<Rightarrow> if skip r = [] then Some v else None | None \<Rightarrow> None)"
proof -
  have "settled (2 * length s + 1) (length s)" using settled_all by blast
  from settledD [OF this assms skip_shorter]
  have "parse_value n 10000 (skip s) = parse_value (2 * length s + 1) 10000 (skip s)" .
  then show ?thesis by (simp add: parse_json_def)
qed

end
