(* ===== verification/Sha256.thy ===== *)
theory Sha256
  imports Durable_Prelude
begin

text \<open>
  \<open>crypto/sha256\<close> and \<open>encoding/hex\<close>, which \<open>internal/mcp/transport.go\<close> uses for the
  key of a call that brings none and the file tool for the digest it reports. A message is
  its list of bytes; a block is 64 of them, read as sixteen big-endian words.
\<close>

unbundle bit_operations_syntax

type_synonym byte = "8 word"
type_synonym w32 = "32 word"

definition round_constants :: "w32 list" where
  "round_constants =
     [0x428A2F98, 0x71374491, 0xB5C0FBCF, 0xE9B5DBA5, 0x3956C25B, 0x59F111F1, 0x923F82A4,
      0xAB1C5ED5, 0xD807AA98, 0x12835B01, 0x243185BE, 0x550C7DC3, 0x72BE5D74, 0x80DEB1FE,
      0x9BDC06A7, 0xC19BF174, 0xE49B69C1, 0xEFBE4786, 0xFC19DC6, 0x240CA1CC, 0x2DE92C6F,
      0x4A7484AA, 0x5CB0A9DC, 0x76F988DA, 0x983E5152, 0xA831C66D, 0xB00327C8, 0xBF597FC7,
      0xC6E00BF3, 0xD5A79147, 0x6CA6351, 0x14292967, 0x27B70A85, 0x2E1B2138, 0x4D2C6DFC,
      0x53380D13, 0x650A7354, 0x766A0ABB, 0x81C2C92E, 0x92722C85, 0xA2BFE8A1, 0xA81A664B,
      0xC24B8B70, 0xC76C51A3, 0xD192E819, 0xD6990624, 0xF40E3585, 0x106AA070, 0x19A4C116,
      0x1E376C08, 0x2748774C, 0x34B0BCB5, 0x391C0CB3, 0x4ED8AA4A, 0x5B9CCA4F, 0x682E6FF3,
      0x748F82EE, 0x78A5636F, 0x84C87814, 0x8CC70208, 0x90BEFFFA, 0xA4506CEB, 0xBEF9A3F7,
      0xC67178F2]"

definition initial_state :: "w32 list" where
  "initial_state =
     [0x6A09E667, 0xBB67AE85, 0x3C6EF372, 0xA54FF53A, 0x510E527F, 0x9B05688C, 0x1F83D9AB,
      0x5BE0CD19]"

section \<open>Padding\<close>

definition bytes_of_w32 :: "w32 \<Rightarrow> byte list" where
  "bytes_of_w32 w = [ucast (drop_bit 24 w), ucast (drop_bit 16 w), ucast (drop_bit 8 w), ucast w]"

definition bytes_of_w64 :: "64 word \<Rightarrow> byte list" where
  "bytes_of_w64 w = bytes_of_w32 (ucast (drop_bit 32 w)) @ bytes_of_w32 (ucast w)"

definition pad_message :: "byte list \<Rightarrow> byte list" where
  "pad_message bs =
     (let l = length bs
      in bs @ [128] @ replicate ((119 - l mod 64) mod 64) 0 @ bytes_of_w64 (push_bit 3 (of_nat l)))"

fun words_of :: "byte list \<Rightarrow> w32 list" where
  "words_of (a # b # c # d # r) =
     (push_bit 24 (ucast a) OR push_bit 16 (ucast b) OR push_bit 8 (ucast c) OR ucast d) # words_of r"
| "words_of _ = []"

section \<open>Compression\<close>

definition small_sigma0 :: "w32 \<Rightarrow> w32" where
  "small_sigma0 x = word_rotr 7 x XOR word_rotr 18 x XOR drop_bit 3 x"

definition small_sigma1 :: "w32 \<Rightarrow> w32" where
  "small_sigma1 x = word_rotr 17 x XOR word_rotr 19 x XOR drop_bit 10 x"

definition big_sigma0 :: "w32 \<Rightarrow> w32" where
  "big_sigma0 x = word_rotr 2 x XOR word_rotr 13 x XOR word_rotr 22 x"

definition big_sigma1 :: "w32 \<Rightarrow> w32" where
  "big_sigma1 x = word_rotr 6 x XOR word_rotr 11 x XOR word_rotr 25 x"

text \<open>The schedule is built with the newest word first.\<close>

definition next_word :: "w32 list \<Rightarrow> w32" where
  "next_word ws = small_sigma1 (ws ! 1) + ws ! 6 + small_sigma0 (ws ! 14) + ws ! 15"

fun extend_schedule :: "nat \<Rightarrow> w32 list \<Rightarrow> w32 list" where
  "extend_schedule 0 ws = ws"
| "extend_schedule (Suc n) ws = extend_schedule n (next_word ws # ws)"

definition schedule :: "w32 list \<Rightarrow> w32 list" where
  "schedule block = rev (extend_schedule 48 (rev block))"

fun sha_round :: "w32 list \<Rightarrow> w32 \<times> w32 \<Rightarrow> w32 list" where
  "sha_round [a, b, c, d, e, f, g, h] (k, w) =
     (let t1 = h + big_sigma1 e + ((e AND f) XOR (NOT e AND g)) + k + w;
          t2 = big_sigma0 a + ((a AND b) XOR (a AND c) XOR (b AND c))
      in [t1 + t2, a, b, c, d + t1, e, f, g])"
| "sha_round s _ = s"

definition compress :: "w32 list \<Rightarrow> w32 list \<Rightarrow> w32 list" where
  "compress s block =
     map2 (+) s (foldl sha_round s (zip round_constants (schedule block)))"

fun compress_all :: "nat \<Rightarrow> w32 list \<Rightarrow> w32 list \<Rightarrow> w32 list" where
  "compress_all 0 s ws = s"
| "compress_all (Suc n) s ws = compress_all n (compress s (take 16 ws)) (drop 16 ws)"

definition sha256_bytes :: "byte list \<Rightarrow> byte list" where
  "sha256_bytes bs =
     (let ws = words_of (pad_message bs)
      in concat (map bytes_of_w32 (compress_all (length ws div 16) initial_state ws)))"

section \<open>Texts\<close>

definition sha256 :: "string \<Rightarrow> byte list" where
  "sha256 s = sha256_bytes (map (\<lambda>c. of_nat (of_char c)) s)"

definition hex_char :: "byte \<Rightarrow> char" where
  "hex_char b = char_of (if b < 10 then unat b + 48 else unat b + 87)"

definition hex_encode :: "byte list \<Rightarrow> string" where
  "hex_encode bs = concat (map (\<lambda>b. [hex_char (drop_bit 4 b), hex_char (b AND 15)]) bs)"

section \<open>Shapes\<close>

lemma hex_encode_length [simp]: "length (hex_encode bs) = 2 * length bs"
  by (induction bs) (simp_all add: hex_encode_def)

lemma bytes_of_w64_length [simp]: "length (bytes_of_w64 w) = 8"
  by (simp add: bytes_of_w64_def bytes_of_w32_def)

lemma padding_fits: "(l + (9 + (119 - l mod 64) mod 64)) mod 64 = (0 :: nat)"
proof -
  define r where "r = l mod 64"
  have r: "r < 64" by (simp add: r_def)
  have "(l + (9 + (119 - r) mod 64)) mod 64 = (r + (9 + (119 - r) mod 64)) mod 64"
    unfolding r_def by (simp add: mod_add_left_eq)
  also have "\<dots> = 0"
  proof (cases "r \<le> 55")
    case True
    then have "(119 - r) mod 64 = 55 - r" by (simp add: mod_if)
    then show ?thesis using True by simp
  next
    case False
    then have "(119 - r) mod 64 = 119 - r" by simp
    then show ?thesis using False r by simp
  qed
  finally show ?thesis by (simp add: r_def)
qed

lemma pad_message_blocks: "length (pad_message bs) mod 64 = 0"
  using padding_fits [of "length bs"] by (simp add: pad_message_def Let_def)

lemma words_of_length: "length (words_of bs) = length bs div 4"
  by (induction bs rule: words_of.induct) simp_all

end
