(* ===== verification/Wire.thy ===== *)
theory Wire
  imports Json_Facts Sha256 Queries
begin

text \<open>
  What the server processes put on the wire: the JSON documents the code marshals, the
  answers of an HTTP handler, and the texts of errors. A document is the tree given to
  \<open>json.Marshal\<close>, the members of a map in the order the encoder sorts them, those of a
  struct in the order of its fields, an \<open>omitempty\<close> field only when it is not empty. A time
  is a leaf in microseconds, as is a number of seconds.
\<close>

section \<open>Documents\<close>

datatype doc =
    D_raw string
  | D_str string
  | D_bool bool
  | D_num int
  | D_time time
  | D_seconds int
  | D_arr "doc list"
  | D_obj "(string \<times> doc) list"

definition omit_raw :: "string \<Rightarrow> raw_message \<Rightarrow> (string \<times> doc) list" where
  "omit_raw name m = (case m of None \<Rightarrow> [] | Some t \<Rightarrow> if t = [] then [] else [(name, D_raw t)])"

definition omit_str :: "string \<Rightarrow> string \<Rightarrow> (string \<times> doc) list" where
  "omit_str name t = (if t = [] then [] else [(name, D_str t)])"

definition omit_ptr :: "string \<Rightarrow> ('a \<Rightarrow> doc) \<Rightarrow> 'a option \<Rightarrow> (string \<times> doc) list" where
  "omit_ptr name f p = (case p of None \<Rightarrow> [] | Some v \<Rightarrow> [(name, f v)])"

text \<open>A \<open>RawMessage\<close> without \<open>omitempty\<close>: nil is encoded as \<open>null\<close>.\<close>

definition raw_doc :: "raw_message \<Rightarrow> doc" where
  "raw_doc m = D_raw (case m of None \<Rightarrow> ''null'' | Some t \<Rightarrow> t)"

fun member :: "string \<Rightarrow> doc \<Rightarrow> doc option" where
  "member name (D_obj ms) = map_of ms name"
| "member name _ = None"

section \<open>The structs of the store\<close>

definition tool_doc :: "tool \<Rightarrow> doc" where
  "tool_doc t = D_obj
     [(''id'', D_str (t_id t)), (''name'', D_str (t_name t)), (''description'', D_str (t_description t)),
      (''input_schema'', D_raw (t_input_schema t)), (''max_attempts'', D_num (t_max_attempts t)),
      (''lease_seconds'', D_num (t_lease_seconds t)), (''created_at'', D_time (t_created_at t))]"

definition lease_doc :: "lease \<Rightarrow> doc" where
  "lease_doc l = D_obj
     [(''execution_id'', D_str (l_execution_id l)), (''worker_id'', D_str (l_worker_id l)),
      (''fencing_token'', D_num (l_fencing_token l)), (''lease_expires'', D_time (l_lease_expires l)),
      (''claimed_at'', D_time (l_claimed_at l))]"

definition execution_doc :: "execution_view \<Rightarrow> doc" where
  "execution_doc x = D_obj (
     [(''id'', D_str (x_id x)), (''namespace'', D_str (x_namespace x)), (''tool_name'', D_str (x_tool_name x)),
      (''idempotency_key'', D_str (x_idempotency_key x)), (''input_args'', D_raw (x_input_args x)),
      (''status'', D_str (x_status x)), (''attempts'', D_num (x_attempts x)),
      (''max_attempts'', D_num (x_max_attempts x))]
     @ omit_raw ''result'' (x_result x)
     @ omit_str ''error_message'' (x_error_message x)
     @ [(''created_at'', D_time (x_created_at x)), (''updated_at'', D_time (x_updated_at x))]
     @ omit_ptr ''lease'' lease_doc (x_lease x))"

fun payload_value_doc :: "payload_value \<Rightarrow> doc" where
  "payload_value_doc (PStr s) = D_str s"
| "payload_value_doc (PInt n) = D_num n"

definition event_doc :: "event_view \<Rightarrow> doc" where
  "event_doc v = D_obj (
     [(''id'', D_num (u_id v)), (''execution_id'', D_str (u_execution_id v)),
      (''event_type'', D_str (u_event_type v))]
     @ omit_str ''worker_id'' (u_worker_id v)
     @ omit_ptr ''fencing_token'' D_num (u_fencing_token v)
     @ omit_ptr ''payload'' (\<lambda>p. D_obj (map (apsnd payload_value_doc) p)) (u_payload v)
     @ [(''occurred_at'', D_time (u_occurred_at v))])"

definition stats_doc :: "stats_view \<Rightarrow> doc" where
  "stats_doc v = D_obj
     [(''total'', D_num (int (n_total v))), (''ready'', D_num (int (n_ready v))),
      (''running'', D_num (int (n_running v))), (''completed'', D_num (int (n_completed v))),
      (''failed'', D_num (int (n_failed v))), (''active_leases'', D_num (int (n_active_leases v)))]"

definition worker_doc :: "worker_view \<Rightarrow> doc" where
  "worker_doc y = D_obj
     [(''worker_id'', D_str (y_worker_id y)), (''claimed'', D_num (int (y_claimed y))),
      (''oldest_claim_age_seconds'', D_seconds (y_oldest_claim_age y))]"

section \<open>The outside world\<close>

text \<open>
  What PostgreSQL makes of a JSON text, of a text as a UUID and of the order of texts, how it
  orders rows with equal times in a query with this limit and offset, the texts of the
  driver's errors, and those of \<open>encoding/json\<close> when it decodes a text into the type named.
\<close>

record externals =
  w_jsonb :: "string \<Rightarrow> string option"
  w_uuid :: "string \<Rightarrow> dberr + exec_id"
  w_coll :: "string \<Rightarrow> string"
  w_tie :: "int \<Rightarrow> int \<Rightarrow> st \<Rightarrow> execution \<Rightarrow> nat"
  w_db_text :: "dberr \<Rightarrow> string"
  w_json_text :: "string \<Rightarrow> string \<Rightarrow> string"

definition error_text :: "externals \<Rightarrow> error \<Rightarrow> string" where
  "error_text w e = (case e of
       ErrNoWork \<Rightarrow> ''no ready execution''
     | ErrStale \<Rightarrow> ''stale fencing token''
     | ErrUnknownTool \<Rightarrow> ''unknown tool''
     | DbError d \<Rightarrow> w_db_text w d)"

section \<open>HTTP\<close>

text \<open>\<open>http.Error\<close> ends its text with a line feed.\<close>

definition newline :: string where
  "newline = [CHR 0x0A]"

datatype body = No_body | Text string | Doc doc

record http_reply =
  rp_status :: nat
  rp_type :: string
  rp_body :: body

definition reply :: "nat \<Rightarrow> doc \<Rightarrow> http_reply" where
  "reply status d = \<lparr>rp_status = status, rp_type = ''application/json'', rp_body = Doc d\<rparr>"

definition text_reply :: "nat \<Rightarrow> string \<Rightarrow> http_reply" where
  "text_reply status t = \<lparr>rp_status = status, rp_type = ''text/plain; charset=utf-8'',
     rp_body = Text (t @ newline)\<rparr>"

section \<open>An outside world for the examples\<close>

definition demo_world :: externals where
  "demo_world = \<lparr>w_jsonb = Some, w_uuid = Inr, w_coll = (\<lambda>t. t), w_tie = (\<lambda>_ _ _ _. 0), w_db_text = (\<lambda>_. ''db''),
     w_json_text = (\<lambda>_ _. ''json'')\<rparr>"

end
