(* ===== verification/Mcp.thy ===== *)
theory Mcp
  imports Wire Dedup
begin

text \<open>
  The MCP server: the JSON-RPC methods of \<open>internal/mcp/protocol.go\<close> and the transports of
  \<open>internal/mcp/transport.go\<close>. A message is the list of its bytes; an answer is a
  \<open>rpc_response\<close>. The identifier a new execution gets is an argument, as in \<open>submit\<close>.
\<close>

section \<open>Requests and responses\<close>

record rpc_request =
  q_jsonrpc :: string
  q_id :: raw_message
  q_method :: string
  q_params :: raw_message

record rpc_error =
  r_code :: int
  r_message :: string

record rpc_response =
  a_jsonrpc :: string
  a_id :: raw_message
  a_result :: "doc option"
  a_error :: "rpc_error option"

record mcp_handler =
  h_server_name :: string
  h_version :: string

definition protocol_version :: string where
  "protocol_version = ''2025-03-26''"

definition code_parse_error :: int where "code_parse_error = - 32700"
definition code_invalid_request :: int where "code_invalid_request = - 32600"
definition code_method_not_found :: int where "code_method_not_found = - 32601"
definition code_invalid_params :: int where "code_invalid_params = - 32602"
definition code_internal_error :: int where "code_internal_error = - 32603"

definition rpc_ok :: "raw_message \<Rightarrow> doc \<Rightarrow> rpc_response" where
  "rpc_ok i result = \<lparr>a_jsonrpc = ''2.0'', a_id = i, a_result = Some result, a_error = None\<rparr>"

definition rpc_fail :: "raw_message \<Rightarrow> int \<Rightarrow> string \<Rightarrow> rpc_response" where
  "rpc_fail i n msg = \<lparr>a_jsonrpc = ''2.0'', a_id = i, a_result = None,
     a_error = Some \<lparr>r_code = n, r_message = msg\<rparr>\<rparr>"

definition rpc_error_doc :: "rpc_error \<Rightarrow> doc" where
  "rpc_error_doc e = D_obj [(''code'', D_num (r_code e)), (''message'', D_str (r_message e))]"

definition response_doc :: "rpc_response \<Rightarrow> doc" where
  "response_doc a = D_obj (
     [(''jsonrpc'', D_str (a_jsonrpc a))]
     @ omit_raw ''id'' (a_id a)
     @ omit_ptr ''result'' (\<lambda>d. d) (a_result a)
     @ omit_ptr ''error'' rpc_error_doc (a_error a))"

text \<open>\<open>json.Unmarshal\<close> into a \<open>Request\<close>: \<open>None\<close> when it returns an error.\<close>

definition decode_request :: "string \<Rightarrow> rpc_request option" where
  "decode_request text = (case top_members text of
       None \<Rightarrow> None
     | Some (ms, bad) \<Rightarrow>
         (let (version, bad1) = take_string (values_of ''jsonrpc'' ms) [];
              (meth, bad2) = take_string (values_of ''method'' ms) []
          in if bad \<or> bad1 \<or> bad2 then None
             else Some \<lparr>q_jsonrpc = version, q_id = take_raw (values_of ''id'' ms),
                        q_method = meth, q_params = take_raw (values_of ''params'' ms)\<rparr>))"

section \<open>tools/call\<close>

definition hash_key :: "string \<Rightarrow> raw_message \<Rightarrow> string" where
  "hash_key name args =
     ''auto-'' @ hex_encode (take 8 (sha256 (name @ '':'' @ (case args of None \<Rightarrow> [] | Some t \<Rightarrow> t))))"

record call_params =
  p_name :: string
  p_arguments :: raw_message
  p_idempotency_key :: string
  p_namespace :: string

text \<open>An absent text is decoded as the empty one, which is no JSON.\<close>

definition decode_call :: "raw_message \<Rightarrow> call_params option" where
  "decode_call params = (case top_members (case params of None \<Rightarrow> [] | Some t \<Rightarrow> t) of
       None \<Rightarrow> None
     | Some (ms, bad) \<Rightarrow>
         (let (name, bad1) = take_string (values_of ''name'' ms) [];
              (meta, bad2) = take_struct (values_of ''_meta'' ms);
              (key, bad3) = take_string (values_of ''idempotency_key'' meta) [];
              (ns, bad4) = take_string (values_of ''namespace'' meta) []
          in if bad \<or> bad1 \<or> bad2 \<or> bad3 \<or> bad4 then None
             else Some \<lparr>p_name = name, p_arguments = take_raw (values_of ''arguments'' ms),
                        p_idempotency_key = key, p_namespace = ns\<rparr>))"

definition namespace_of :: "call_params \<Rightarrow> string" where
  "namespace_of p = (if p_namespace p = [] then ''default'' else p_namespace p)"

definition key_of :: "call_params \<Rightarrow> string" where
  "key_of p = (if p_idempotency_key p = [] then hash_key (p_name p) (p_arguments p) else p_idempotency_key p)"

definition call_result :: "string \<Rightarrow> submit_result \<Rightarrow> doc" where
  "call_result text res = D_obj
     [(''_meta'', D_obj [(''duplicate'', D_bool (s_duplicate res)),
         (''execution_id'', D_str (s_execution_id res)), (''status'', D_str (s_status res))]),
      (''content'', D_arr [D_obj [(''text'', D_str text), (''type'', D_str ''text'')]]),
      (''isError'', D_bool False)]"

definition accepted_text :: "submit_result \<Rightarrow> string" where
  "accepted_text res = ''accepted execution '' @ s_execution_id res @ '' (status '' @ s_status res @ '')''"

definition call_answer :: "raw_message \<Rightarrow> submit_result \<Rightarrow> rpc_response" where
  "call_answer i res = (case s_result res of
       Some (c # t) \<Rightarrow>
         if s_status res = ''completed'' then rpc_ok i (call_result (c # t) res)
         else rpc_ok i (call_result (accepted_text res) res)
     | _ \<Rightarrow> rpc_ok i (call_result (accepted_text res) res))"

definition tools_call :: "externals \<Rightarrow> exec_id \<Rightarrow> rpc_request \<Rightarrow> st \<Rightarrow> rpc_response \<times> st" where
  "tools_call w uid q s = (case decode_call (q_params q) of
       None \<Rightarrow> (rpc_fail (q_id q) code_invalid_params (''invalid params: '' @
                 w_json_text w ''callParams'' (case q_params q of None \<Rightarrow> [] | Some t \<Rightarrow> t)), s)
     | Some p \<Rightarrow>
         if p_name p = [] then (rpc_fail (q_id q) code_invalid_params ''tool name is required'', s)
         else (case submit (w_jsonb w) uid (namespace_of p) (p_name p) (key_of p) (p_arguments p) s of
             (Inl ErrUnknownTool, s') \<Rightarrow>
               (rpc_fail (q_id q) code_invalid_params (''unknown tool: '' @ p_name p), s')
           | (Inl e, s') \<Rightarrow> (rpc_fail (q_id q) code_internal_error (error_text w e), s')
           | (Inr res, s') \<Rightarrow> (call_answer (q_id q) res, s')))"

section \<open>The other methods\<close>

definition initialize :: "mcp_handler \<Rightarrow> rpc_request \<Rightarrow> rpc_response" where
  "initialize h q = rpc_ok (q_id q) (D_obj
     [(''capabilities'', D_obj [(''tools'', D_obj [])]),
      (''protocolVersion'', D_str protocol_version),
      (''serverInfo'', D_obj [(''name'', D_str (h_server_name h)), (''version'', D_str (h_version h))])])"

definition tools_list :: "externals \<Rightarrow> rpc_request \<Rightarrow> st \<Rightarrow> rpc_response \<times> st" where
  "tools_list w q s = (case list_tools (w_coll w) s of
       (Inl e, s') \<Rightarrow> (rpc_fail (q_id q) code_internal_error (error_text w e), s')
     | (Inr ts, s') \<Rightarrow>
         (rpc_ok (q_id q) (D_obj [(''tools'', D_arr (map (\<lambda>t. D_obj
            [(''description'', D_str (t_description t)), (''inputSchema'', D_raw (t_input_schema t)),
             (''name'', D_str (t_name t))]) ts))]), s'))"

definition dispatch :: "externals \<Rightarrow> mcp_handler \<Rightarrow> exec_id \<Rightarrow> rpc_request \<Rightarrow> st \<Rightarrow> rpc_response option \<times> st" where
  "dispatch w h uid q s =
     (if q_id q = None then (None, s)
      else if q_method q = ''initialize'' then (Some (initialize h q), s)
      else if q_method q = ''tools/list'' then apfst Some (tools_list w q s)
      else if q_method q = ''tools/call'' then apfst Some (tools_call w uid q s)
      else if q_method q = ''ping'' then (Some (rpc_ok (q_id q) (D_obj [])), s)
      else (Some (rpc_fail (q_id q) code_method_not_found (''method not found: '' @ q_method q)), s))"

section \<open>The stdio transport\<close>

text \<open>
  \<open>bufio.ScanLines\<close>: lines end at a line feed or at the end of the input, one carriage
  return before it is dropped. A line that fills the scanner's buffer of 4 MiB ends the
  loop; the flag is \<open>reader.Err\<close>.
\<close>

definition max_line :: nat where
  "max_line = 4194304"

definition drop_cr :: "string \<Rightarrow> string" where
  "drop_cr l = (if l \<noteq> [] \<and> last l = CHR 0x0D then butlast l else l)"

definition first_line :: "string \<Rightarrow> string" where
  "first_line input = takeWhile (\<lambda>c. c \<noteq> CHR 0x0A) input"

function scan_lines :: "string \<Rightarrow> string list \<times> bool" where
  "scan_lines input =
     (if input = [] then ([], False)
      else if max_line \<le> length (first_line input) then ([], True)
      else apfst ((#) (drop_cr (first_line input))) (scan_lines (drop (length (first_line input) + 1) input)))"
  by pat_completeness auto
termination by (relation "measure length") auto

declare scan_lines.simps [simp del]

definition serve_line :: "externals \<Rightarrow> mcp_handler \<Rightarrow> exec_id \<Rightarrow> string \<Rightarrow> st \<Rightarrow> rpc_response option \<times> st" where
  "serve_line w h uid line s =
     (if line = [] then (None, s)
      else case decode_request line of
          None \<Rightarrow> (Some (rpc_fail None code_parse_error ''parse error''), s)
        | Some q \<Rightarrow> dispatch w h uid q s)"

fun serve_lines :: "externals \<Rightarrow> mcp_handler \<Rightarrow> (nat \<Rightarrow> exec_id) \<Rightarrow> string list \<Rightarrow> st \<Rightarrow> rpc_response list \<times> st" where
  "serve_lines w h uids [] s = ([], s)"
| "serve_lines w h uids (line # rest) s =
     (case serve_line w h (uids 0) line s of
        (None, s') \<Rightarrow> serve_lines w h (\<lambda>i. uids (Suc i)) rest s'
      | (Some a, s') \<Rightarrow> apfst ((#) a) (serve_lines w h (\<lambda>i. uids (Suc i)) rest s'))"

text \<open>The answers written, whether the scanner failed, and the state left.\<close>

definition serve_stdio ::
  "externals \<Rightarrow> mcp_handler \<Rightarrow> (nat \<Rightarrow> exec_id) \<Rightarrow> string \<Rightarrow> st \<Rightarrow> (rpc_response list \<times> bool) \<times> st" where
  "serve_stdio w h uids input s = (case serve_lines w h uids (fst (scan_lines input)) s of
     (answers, s') \<Rightarrow> ((answers, snd (scan_lines input)), s'))"

section \<open>The HTTP transport\<close>

definition rpc_reply :: "rpc_response \<Rightarrow> http_reply" where
  "rpc_reply a = reply 200 (response_doc a)"

definition accepted_reply :: http_reply where
  "accepted_reply = \<lparr>rp_status = 202, rp_type = [], rp_body = No_body\<rparr>"

text \<open>
  The body arrives up to the limit of 1 MiB, or reading it fails. The 405 answer is reached
  only without the routes of \<open>internal/api\<close>, which send nothing but \<open>POST\<close> here.
\<close>

definition body_limit :: nat where
  "body_limit = 1048576"

definition http_post :: "externals \<Rightarrow> mcp_handler \<Rightarrow> exec_id \<Rightarrow> string \<Rightarrow> string option \<Rightarrow> st \<Rightarrow> http_reply \<times> st" where
  "http_post w h uid meth body s =
     (if meth \<noteq> ''POST'' then (text_reply 405 ''method not allowed'', s)
      else case body of
          None \<Rightarrow> (rpc_reply (rpc_fail None code_parse_error ''read error''), s)
        | Some text \<Rightarrow> (case decode_request (take body_limit text) of
            None \<Rightarrow> (rpc_reply (rpc_fail None code_parse_error ''parse error''), s)
          | Some q \<Rightarrow>
              if q_jsonrpc q \<noteq> ''2.0''
              then (rpc_reply (rpc_fail (q_id q) code_invalid_request ''jsonrpc must be 2.0''), s)
              else (case dispatch w h uid q s of
                  (None, s') \<Rightarrow> (accepted_reply, s')
                | (Some a, s') \<Rightarrow> (rpc_reply a, s'))))"

text \<open>
  The event stream: one event, then a comment for every tick of the ticker until the client
  is gone. \<open>True\<close> is a tick, \<open>False\<close> the end of the request's context.
\<close>

definition ready_event :: string where
  "ready_event = ''event: ready'' @ newline @ ''data: {\"protocolVersion\":\"'' @ protocol_version @
     ''\"}'' @ newline @ newline"

fun keepalives :: "bool list \<Rightarrow> string list" where
  "keepalives (True # es) = ('': keepalive'' @ newline @ newline) # keepalives es"
| "keepalives _ = []"

definition sse_stream :: "bool \<Rightarrow> bool list \<Rightarrow> http_reply" where
  "sse_stream can_flush es =
     (if \<not> can_flush then text_reply 500 ''streaming unsupported''
      else \<lparr>rp_status = 200, rp_type = ''text/event-stream'',
            rp_body = Text (ready_event @ concat (keepalives es))\<rparr>)"

end
