(* ===== verification/Mcp_Facts.thy ===== *)
theory Mcp_Facts
  imports Mcp Rows_Kept
begin

text \<open>
  What the MCP server promises: every request that wants an answer gets one, in order and
  with its identifier; the store is touched only by submissions; and a call that is repeated
  is answered with the execution of the first.
\<close>

section \<open>The shape of answers\<close>

lemma a_fields [simp]:
  "a_jsonrpc (rpc_ok i d) = ''2.0''" "a_id (rpc_ok i d) = i" "a_result (rpc_ok i d) = Some d"
  "a_error (rpc_ok i d) = None"
  "a_jsonrpc (rpc_fail i n m) = ''2.0''" "a_id (rpc_fail i n m) = i" "a_result (rpc_fail i n m) = None"
  "a_error (rpc_fail i n m) = Some \<lparr>r_code = n, r_message = m\<rparr>"
  by (simp_all add: rpc_ok_def rpc_fail_def)

lemma call_answer_cases: "\<exists>text. call_answer i res = rpc_ok i (call_result text res)"
  by (auto simp: call_answer_def split: option.split list.split)

lemma call_answer_fields [simp]:
  "a_id (call_answer i res) = i" "a_error (call_answer i res) = None"
  using call_answer_cases [of i res] by auto

lemma tools_call_id: "a_id (fst (tools_call w uid q s)) = q_id q"
proof (cases "decode_call (q_params q)")
  case (Some p)
  obtain r s' where r: "submit (w_jsonb w) uid (namespace_of p) (p_name p) (key_of p) (p_arguments p) s = (r, s')"
    by force
  show ?thesis
  proof (cases r)
    case (Inl e)
    with Some r show ?thesis by (cases e) (simp_all add: tools_call_def)
  next
    case (Inr res)
    with Some r show ?thesis by (simp add: tools_call_def)
  qed
qed (simp add: tools_call_def)

lemma tools_list_id: "a_id (fst (tools_list w q s)) = q_id q"
  by (auto simp: tools_list_def split: prod.split sum.split)

lemma dispatch_id:
  "map_option a_id (fst (dispatch w h uid q s)) = (if q_id q = None then None else Some (q_id q))"
  by (auto simp: dispatch_def initialize_def tools_call_id tools_list_id)

definition answered :: "string \<Rightarrow> raw_message option" where
  "answered line = (if line = [] then None else case decode_request line of
       None \<Rightarrow> Some None
     | Some q \<Rightarrow> if q_id q = None then None else Some (q_id q))"

lemma serve_line_id: "map_option a_id (fst (serve_line w h uid line s)) = answered line"
  using dispatch_id [of w h uid _ s] by (auto simp: serve_line_def answered_def split: option.split)

lemma serve_lines_ids: "map a_id (fst (serve_lines w h uids ls s)) = List.map_filter answered ls"
proof (induction ls arbitrary: uids s)
  case (Cons l ls)
  obtain r s' where r: "serve_line w h (uids 0) l s = (r, s')" by force
  with serve_line_id [of w h "uids 0" l s, symmetric] Cons.IH [of "\<lambda>i. uids (Suc i)" s'] show ?case
    by (cases r) (auto simp: map_filter_simps split: option.split)
qed (simp add: map_filter_simps)

lemma serve_stdio_ids:
  "map a_id (fst (fst (serve_stdio w h uids input s))) =
    List.map_filter answered (fst (scan_lines input))"
  using serve_lines_ids [of w h uids "fst (scan_lines input)" s]
  by (simp add: serve_stdio_def split_beta)

text \<open>
  The answers written over stdio are, in the order of the lines, one for each line that is not
  a notification and not empty, with the identifier of its request, or none when the line
  cannot be decoded; whatever the store and the connection do.
\<close>

theorem stdio_answers_in_order:
  "map a_id (fst (fst (serve_stdio w h uids input s))) =
    List.map_filter answered (fst (scan_lines input))"
  by (rule serve_stdio_ids)

definition demo_handler :: mcp_handler where
  "demo_handler = \<lparr>h_server_name = ''durablemcp'', h_version = ''0.1.0''\<rparr>"

section \<open>The store sees submissions only\<close>

lemma tools_call_steps:
  assumes "sys_steps (w_jsonb w) x (s, ps)"
  shows "sys_steps (w_jsonb w) x (snd (tools_call w uid q s), ps)"
proof (cases "decode_call (q_params q)")
  case (Some p)
  obtain r s' where r: "submit (w_jsonb w) uid (namespace_of p) (p_name p) (key_of p) (p_arguments p) s = (r, s')"
    by force
  have "sys_steps (w_jsonb w) x (s', ps)"
    using steps_submit [OF assms, of uid "namespace_of p" "p_name p" "key_of p" "p_arguments p"] r by simp
  with Some r assms show ?thesis
    by (auto simp: tools_call_def split: sum.split error.split)
qed (use assms in \<open>simp add: tools_call_def\<close>)

lemma list_tools_step: "list_tools coll s = (r, s') \<Longrightarrow> tables s' = tables s \<and> clock s \<le> clock s'"
  using read_rows_ok(1,2) unfolding list_tools_def by blast

lemma tools_list_steps:
  assumes "sys_steps jsonb x (s, ps)"
  shows "sys_steps jsonb x (snd (tools_list w q s), ps)"
proof (cases "list_tools (w_coll w) s")
  case (Pair r s')
  with steps_read [OF assms] list_tools_step have "sys_steps jsonb x (s', ps)" by blast
  with Pair show ?thesis by (cases r) (simp_all add: tools_list_def)
qed

lemma dispatch_steps:
  "sys_steps (w_jsonb w) x (s, ps) \<Longrightarrow> sys_steps (w_jsonb w) x (snd (dispatch w h uid q s), ps)"
  using tools_call_steps tools_list_steps by (simp add: dispatch_def)

lemma serve_line_steps:
  "sys_steps (w_jsonb w) x (s, ps) \<Longrightarrow> sys_steps (w_jsonb w) x (snd (serve_line w h uid l s), ps)"
  using dispatch_steps by (simp add: serve_line_def split: option.split)

lemma serve_lines_steps:
  "sys_steps (w_jsonb w) x (s, ps) \<Longrightarrow> sys_steps (w_jsonb w) x (snd (serve_lines w h uids ls s), ps)"
proof (induction ls arbitrary: uids s)
  case (Cons l ls)
  from serve_line_steps [OF Cons.prems, of h "uids 0" l] Cons.IH show ?case
    by (cases "serve_line w h (uids 0) l s") (auto split: option.split)
qed simp

lemma http_post_steps:
  "sys_steps (w_jsonb w) x (s, ps) \<Longrightarrow> sys_steps (w_jsonb w) x (snd (http_post w h uid meth body s), ps)"
  using dispatch_steps [of w x s ps h uid]
  by (auto simp: http_post_def split: option.split prod.split) (metis snd_conv)+

lemma serve_stdio_steps:
  "sys_steps (w_jsonb w) x (s, ps) \<Longrightarrow> sys_steps (w_jsonb w) x (snd (serve_stdio w h uids input s), ps)"
  using serve_lines_steps by (simp add: serve_stdio_def split_beta)

section \<open>Repeated calls\<close>

text \<open>A member of the \<open>_meta\<close> object of an answer to \<open>tools/call\<close>.\<close>

definition call_meta :: "string \<Rightarrow> rpc_response \<Rightarrow> doc option" where
  "call_meta name a = Option.bind (Option.bind (a_result a) (member ''_meta'')) (member name)"

lemma call_meta_answer:
  "call_meta ''execution_id'' (call_answer i res) = Some (D_str (s_execution_id res))"
  "call_meta ''duplicate'' (call_answer i res) = Some (D_bool (s_duplicate res))"
  using call_answer_cases [of i res] by (auto simp: call_meta_def call_result_def)

lemma tools_call_accepted:
  assumes "tools_call w uid q s = (a, s')" and "a_error a = None" and "decode_call (q_params q) = Some p"
  shows "p_name p \<noteq> [] \<and> (\<exists>res. a = call_answer (q_id q) res \<and>
    submit (w_jsonb w) uid (namespace_of p) (p_name p) (key_of p) (p_arguments p) s = (Inr res, s'))"
  using assms by (auto simp: tools_call_def split: if_splits prod.splits sum.splits error.splits)

lemma submit_leaves_row:
  assumes "submit jsonb uid ns name key args s = (Inr res, s')"
  shows "\<exists>e t. row_of e_key (db_executions (tables s')) (ns, name, key) = Some e \<and>
    e_id e = s_execution_id res \<and> row_of t_name (db_tools (tables s')) name = Some t"
proof -
  obtain now where eff: "submit_effect jsonb uid ns name key args now (tables s) = (Inr res, tables s')"
    using submit_answer [OF assms] by blast
  then obtain t where t: "row_of t_name (db_tools (tables s)) name = Some t"
    by (auto simp: submit_effect_def split: option.splits)
  have "rows_kept (tables s) (tables s')"
    using submit_rows [of "tables s" jsonb uid ns name key args now] eff by simp
  from rows_kept_tool [OF this t] have t': "row_of t_name (db_tools (tables s')) name = Some t" .
  show ?thesis
  proof (cases "row_of e_key (db_executions (tables s)) (ns, name, key)")
    case (Some e)
    with eff have "s_execution_id res = e_id e"
      by (auto simp: submit_effect_def split: option.splits)
    with rows_kept_key [OF \<open>rows_kept (tables s) (tables s')\<close> Some] t' show ?thesis by auto
  next
    case None
    let ?eff = "submit_effect jsonb uid ns name key args now (tables s)"
    have "fst ?eff = Inr res" using eff by simp
    with None have "\<exists>e. row_of e_key (db_executions (snd ?eff)) (ns, name, key) = Some e \<and>
        e_id e = s_execution_id res"
      by (auto simp: submit_effect_def set_status_def row_of_key_upd row_of_append row_of_Cons
          new_execution_def e_key_def split: option.splits if_splits)
    with eff t' show ?thesis by auto
  qed
qed

lemma submit_again:
  assumes "row_of e_key (db_executions (tables s)) (ns, name, key) = Some e"
    and "row_of t_name (db_tools (tables s)) name = Some t" and "jsonb (args_or_empty args) \<noteq> None"
    and "net s = []"
  shows "\<exists>res s'. submit jsonb uid ns name key args s = (Inr res, s') \<and> s_execution_id res = e_id e \<and>
    s_duplicate res \<and> length (db_executions (tables s')) = length (db_executions (tables s))"
  using submitting.quiet [OF assms(4), of jsonb uid ns name key args] assms(1-3)
  by (auto simp: submit_effect_def touch_execution_def upd_where_def)

text \<open>
  C9. A call is carried out once per key, for good: when \<open>tools/call\<close> was answered without
  an error, a later call with the same tool, namespace and key, the automatic key of equal
  arguments included, after anything the system did in between, is answered with the same
  execution as a duplicate, and adds none.
\<close>

theorem repeated_call_same_execution:
  assumes "tools_call w uid q s = (a, s1)" and "a_error a = None"
    and "decode_call (q_params q) = Some p" and "decode_call (q_params q') = Some p'"
    and "p_name p' = p_name p" and "namespace_of p' = namespace_of p" and "key_of p' = key_of p"
    and "w_jsonb w (args_or_empty (p_arguments p')) \<noteq> None"
    and "sys_steps (w_jsonb w) (s1, ps) (s2, ps')" and "net s2 = []"
  shows "\<exists>a' s3. tools_call w uid' q' s2 = (a', s3) \<and> a_error a' = None \<and>
    call_meta ''execution_id'' a' = call_meta ''execution_id'' a \<and>
    call_meta ''duplicate'' a' = Some (D_bool True) \<and>
    length (db_executions (tables s3)) = length (db_executions (tables s2))"
proof -
  obtain res where p: "p_name p \<noteq> []" and a: "a = call_answer (q_id q) res"
    and sub: "submit (w_jsonb w) uid (namespace_of p) (p_name p) (key_of p) (p_arguments p) s = (Inr res, s1)"
    using tools_call_accepted [OF assms(1-3)] by blast
  obtain e t where e: "row_of e_key (db_executions (tables s1)) (namespace_of p, p_name p, key_of p) = Some e"
    "e_id e = s_execution_id res" and t: "row_of t_name (db_tools (tables s1)) (p_name p) = Some t"
    using submit_leaves_row [OF sub] by blast
  have kept: "rows_kept (tables s1) (tables s2)" using rows.steps_kept [OF assms(9)] by simp
  obtain e' where e': "row_of e_key (db_executions (tables s2)) (namespace_of p, p_name p, key_of p) = Some e'"
    "e_id e' = e_id e"
    using rows_kept_key [OF kept e(1)] by blast
  obtain res' s3 where sub': "submit (w_jsonb w) uid' (namespace_of p') (p_name p') (key_of p') (p_arguments p') s2 = (Inr res', s3)"
    and r: "s_execution_id res' = e_id e'" "s_duplicate res'"
    and len: "length (db_executions (tables s3)) = length (db_executions (tables s2))"
    using submit_again [OF e'(1) rows_kept_tool [OF kept t], where jsonb = "w_jsonb w"] assms(8,10)
    unfolding assms(5-7) by blast
  have "tools_call w uid' q' s2 = (call_answer (q_id q') res', s3)"
    using assms(4,5) p sub' by (simp add: tools_call_def)
  with r len e(2) e'(2) show ?thesis by (simp add: a call_meta_answer)
qed

text \<open>A request for the demonstration tool.\<close>

definition demo_call :: rpc_request where
  "demo_call = \<lparr>q_jsonrpc = ''2.0'', q_id = Some ''7'', q_method = ''tools/call'',
     q_params = Some ''{\"name\":\"slow_compute\",\"_meta\":{\"idempotency_key\":\"k\"}}''\<rparr>"

theorem repeated_call_same_execution_witness:
  "\<exists>a' s3. tools_call demo_world ''b'' demo_call (snd (claim [] ''w1'' 30 (snd (tools_call demo_world ''a'' demo_call sc_start)))) = (a', s3) \<and>
    call_meta ''execution_id'' a' = Some (D_str ''a'') \<and> call_meta ''duplicate'' a' = Some (D_bool True)"
proof -
  let ?sub = "submit Some ''a'' ''default'' ''slow_compute'' ''k'' None sc_start"
  let ?res = "\<lparr>s_execution_id = ''a'', s_status = ''accepted'', s_result = None, s_duplicate = False\<rparr>"
  let ?p = "\<lparr>p_name = ''slow_compute'', p_arguments = None, p_idempotency_key = ''k'', p_namespace = []\<rparr>"
  have d: "decode_call (q_params demo_call) = Some ?p" by code_simp
  have "fst ?sub = Inr ?res" by code_simp
  then obtain s1 where sub: "?sub = (Inr ?res, s1)" by (metis prod.collapse)
  have q: "q_id demo_call = Some ''7''" by (simp add: demo_call_def)
  have run: "tools_call demo_world ''a'' demo_call sc_start = (call_answer (Some ''7'') ?res, s1)"
    using sub by (simp add: tools_call_def d q namespace_of_def key_of_def demo_world_def)
  have j: "w_jsonb demo_world (args_or_empty (p_arguments ?p)) \<noteq> None" by (simp add: demo_world_def)
  have st: "sys_steps (w_jsonb demo_world) (s1, []) (snd (claim [] ''w1'' 30 s1), [])"
    by (rule steps_claim) (rule sys_refl)
  have "net (snd (claim [] ''w1'' 30 (snd ?sub))) = []" by code_simp
  then have n: "net (snd (claim [] ''w1'' 30 s1)) = []" by (simp add: sub)
  show ?thesis
    using repeated_call_same_execution [OF run call_answer_fields(2) d d refl refl refl j st n, of "''b''"]
    by (simp add: run call_meta_answer) blast
qed

section \<open>Finished calls\<close>

lemma call_meta_status: "call_meta ''status'' (call_answer i res) = Some (D_str (s_status res))"
  using call_answer_cases [of i res] by (auto simp: call_meta_def call_result_def)

lemma call_answer_result: "a_result (call_answer i res) = a_result (call_answer j res)"
  by (auto simp: call_answer_def split: option.split list.split)

lemma status_text_inject [simp]: "status_text v = status_text u \<longleftrightarrow> v = u"
  by (cases v; cases u) simp_all

definition finished_texts :: "string list" where
  "finished_texts = [status_text Completed, status_text Failed]"

text \<open>What \<open>submit\<close> answers for a row that is there.\<close>

definition duplicate_of :: "execution \<Rightarrow> submit_result" where
  "duplicate_of e = \<lparr>s_execution_id = e_id e, s_status = status_text (e_status e),
     s_result = (if e_status e = Completed then e_result e else None), s_duplicate = True\<rparr>"

lemma submit_finished:
  assumes "submit jsonb uid ns name key args s = (Inr res, s')" and "s_status res \<in> set finished_texts"
    and "wf_db (tables s)"
  shows "\<exists>e. exec_of (tables s') (e_id e) = Some e \<and> e_key e = (ns, name, key) \<and>
    e_status e \<in> {Completed, Failed} \<and> res = duplicate_of e"
proof -
  obtain now where eff: "submit_effect jsonb uid ns name key args now (tables s) = (Inr res, tables s')"
    using submit_answer [OF assms(1)] by blast
  with assms(2) obtain e where e: "row_of e_key (db_executions (tables s)) (ns, name, key) = Some e"
    and res: "res = duplicate_of e"
    and t: "tables s' = log_event now (e_id e) Ev_duplicate_detected [] None
        (Some [(''idempotency_key'', PStr key)]) (touch_execution now (e_id e) (tables s))"
    by (auto simp: submit_effect_def finished_texts_def duplicate_of_def split: option.splits if_splits)
  have "exec_of (tables s) (e_id e) = Some e"
    using wf_dbD(1) [OF assms(3)] row_of_SomeD [OF e] by (simp add: wf_keys_def exec_of_def row_of_in)
  then have "exec_of (tables s') (e_id e) = Some (e\<lparr>e_updated_at := now\<rparr>)"
    by (simp add: t)
  moreover have "e_status e \<in> {Completed, Failed}"
    using assms(2) by (cases "e_status e") (auto simp: res duplicate_of_def finished_texts_def)
  ultimately show ?thesis
    using row_of_SomeD [OF e] by (intro exI [of _ "e\<lparr>e_updated_at := now\<rparr>"]) (simp add: res duplicate_of_def)
qed

lemma submit_of_row:
  assumes "row_of e_key (db_executions (tables s)) (ns, name, key) = Some e"
    and "row_of t_name (db_tools (tables s)) name = Some t" and "jsonb (args_or_empty args) \<noteq> None"
    and "net s = []"
  shows "\<exists>s'. submit jsonb uid ns name key args s = (Inr (duplicate_of e), s')"
  using submitting.quiet [OF assms(4), of jsonb uid ns name key args] assms(1-3)
  by (auto simp: submit_effect_def duplicate_of_def)

lemma row_of_key_exec:
  assumes "wf_db d" and "exec_of d k = Some e"
  shows "row_of e_key (db_executions d) (e_key e) = Some e" and "e \<in> set (db_executions d)" and "e_id e = k"
proof -
  show m: "e \<in> set (db_executions d)" and "e_id e = k"
    using assms(2) by (auto simp: exec_of_def dest: row_of_SomeD)
  show "row_of e_key (db_executions d) (e_key e) = Some e"
    using wf_dbD(1) [OF assms(1)] m by (simp add: wf_keys_def row_of_in)
qed

lemma wf_row_of_key:
  assumes "wf_db d" and "exec_of d k = Some e"
  shows "\<exists>t. row_of t_name (db_tools d) (fst (snd (e_key e))) = Some t \<and>
    row_of e_key (db_executions d) (e_key e) = Some e"
  using wf_dbD(1) [OF assms(1)] row_of_key_exec [OF assms] by (auto simp: wf_keys_def e_key_def)

lemma finished_row_kept:
  assumes "single_ok x" and "sys_steps jsonb x y"
    and "exec_of (tables (fst x)) k = Some e" and "e_status e \<in> {Completed, Failed}"
  shows "\<exists>e'. exec_of (tables (fst y)) k = Some e' \<and> duplicate_of e' = duplicate_of e \<and> e_key e' = e_key e"
proof -
  have wf: "wf_db (tables (fst x))" "wf_db (tables (fst y))"
    using assms(1) single_ok_steps [OF assms(2,1)] by (simp_all add: single_ok_def)
  obtain e' where e': "exec_of (tables (fst y)) k = Some e'" "e_status e' = e_status e"
    "e_status e = Completed \<longrightarrow> e_result e' = e_result e"
    using done_kept [OF assms] by blast
  obtain e'' where e'': "row_of e_key (db_executions (tables (fst y))) (e_key e) = Some e''" "e_id e'' = e_id e"
    using rows_kept_key [OF rows.steps_kept [OF assms(2)] row_of_key_exec(1) [OF wf(1) assms(3)]] by blast
  have id: "e_id e = k" "e_id e' = k" using row_of_key_exec(3) [OF wf(1) assms(3)] row_of_key_exec(3) [OF wf(2) e'(1)] by simp_all
  have "exec_of (tables (fst y)) (e_id e'') = Some e''"
    using wf_dbD(1) [OF wf(2)] row_of_SomeD [OF e''(1)] by (simp add: wf_keys_def exec_of_def row_of_in)
  then have "e'' = e'" using e'(1) e''(2) id by simp
  with row_of_SomeD [OF e''(1)] e' id show ?thesis by (auto simp: duplicate_of_def)
qed


text \<open>A request for the call that the run of \<open>System\<close> completed.\<close>

definition done_call :: rpc_request where
  "done_call = \<lparr>q_jsonrpc = ''2.0'', q_id = Some ''8'', q_method = ''tools/call'',
     q_params = Some ''{\"name\":\"slow_compute\",\"_meta\":{\"idempotency_key\":\"k\",\"namespace\":\"ns\"}}''\<rparr>"


end
