(* ===== verification/Api.thy ===== *)
theory Api
  imports Mcp Engine
begin

text \<open>
  The REST server of \<open>internal/api/server.go\<close>: the routes with the MCP transports mounted
  beside them, the reader's key, the handlers over the store's queries and the testing
  endpoint. A request is what the library hands to a handler: its method, the segments of
  its cleaned path, the \<open>Authorization\<close> header, the decoded query and the body.
\<close>

section \<open>Requests and routes\<close>

record http_request =
  g_method :: string
  g_path :: "string list"
  g_auth :: string
  g_query :: "(string \<times> string) list"
  g_body :: "string option"
  g_ticks :: "bool list"

datatype segment = Lit string | Wild

datatype endpoint =
    Healthz | Readyz | Get_stats | Get_executions | Get_one | Get_events | Get_tools | Get_workers
  | Mcp_post | Mcp_sse | Internal_complete

record server =
  sv_reader_key :: string
  sv_allow_test :: bool
  sv_mcp :: "mcp_handler option"

definition api :: "segment list \<Rightarrow> segment list" where
  "api p = Lit ''api'' # Lit ''v1'' # p"

definition routes :: "server \<Rightarrow> (string \<times> segment list \<times> endpoint) list" where
  "routes v =
     [(''GET'', [Lit ''healthz''], Healthz), (''GET'', [Lit ''readyz''], Readyz),
      (''GET'', api [Lit ''stats''], Get_stats),
      (''GET'', api [Lit ''executions''], Get_executions),
      (''GET'', api [Lit ''executions'', Wild], Get_one),
      (''GET'', api [Lit ''executions'', Wild, Lit ''events''], Get_events),
      (''GET'', api [Lit ''tools''], Get_tools),
      (''GET'', api [Lit ''workers''], Get_workers)]
     @ (if sv_mcp v \<noteq> None
        then [(''POST'', [Lit ''mcp''], Mcp_post), (''GET'', [Lit ''mcp'', Lit ''sse''], Mcp_sse)] else [])
     @ (if sv_allow_test v then [(''POST'', [Lit ''internal'', Lit ''complete''], Internal_complete)] else [])"

text \<open>
  \<open>http.ServeMux\<close> with patterns that do not overlap: \<open>GET\<close> also serves \<open>HEAD\<close>, a wildcard
  takes one segment that is not empty; a known path with another method is refused.
\<close>

fun path_matches :: "segment list \<Rightarrow> string list \<Rightarrow> bool" where
  "path_matches [] [] \<longleftrightarrow> True"
| "path_matches (Lit a # ps) (x # xs) \<longleftrightarrow> a = x \<and> path_matches ps xs"
| "path_matches (Wild # ps) (x # xs) \<longleftrightarrow> x \<noteq> [] \<and> path_matches ps xs"
| "path_matches _ _ \<longleftrightarrow> False"

definition method_matches :: "string \<Rightarrow> string \<Rightarrow> bool" where
  "method_matches pat m \<longleftrightarrow> m = pat \<or> pat = ''GET'' \<and> m = ''HEAD''"

definition route :: "server \<Rightarrow> http_request \<Rightarrow> nat + endpoint" where
  "route v g = (let known = filter (\<lambda>(m, p, e). path_matches p (g_path g)) (routes v) in
     case filter (\<lambda>(m, p, e). method_matches m (g_method g)) known of
       (m, p, e) # _ \<Rightarrow> Inr e
     | [] \<Rightarrow> Inl (if known = [] then 404 else 405))"

definition path_id :: "http_request \<Rightarrow> string" where
  "path_id g = (case drop 3 (g_path g) of x # _ \<Rightarrow> x | [] \<Rightarrow> [])"

section \<open>Answers\<close>

definition message :: "string \<Rightarrow> string \<Rightarrow> doc" where
  "message name t = D_obj [(name, D_str t)]"

definition write_error :: "externals \<Rightarrow> error \<Rightarrow> http_reply" where
  "write_error w e = reply 500 (message ''error'' (error_text w e))"

text \<open>What the read handlers share: the error of the query, or its document.\<close>

definition answer :: "externals \<Rightarrow> ('a \<Rightarrow> http_reply) \<Rightarrow> (error + 'a) \<times> st \<Rightarrow> http_reply \<times> st" where
  "answer w f out = (case out of (Inl e, s) \<Rightarrow> (write_error w e, s) | (Inr v, s) \<Rightarrow> (f v, s))"

section \<open>requireReader\<close>

definition reader_allowed :: "string \<Rightarrow> string \<Rightarrow> bool" where
  "reader_allowed key auth \<longleftrightarrow> key = [] \<or> auth = ''Bearer reader:'' @ key \<or> auth = ''Bearer '' @ key"

definition require_reader ::
  "server \<Rightarrow> http_request \<Rightarrow> (st \<Rightarrow> http_reply \<times> st) \<Rightarrow> st \<Rightarrow> http_reply \<times> st" where
  "require_reader v g handler s =
     (if reader_allowed (sv_reader_key v) (g_auth g) then handler s
      else (reply 401 (message ''error'' ''invalid reader key''), s))"

section \<open>Handlers\<close>

definition ping :: "unit prog" where
  "ping = auto_stmt (\<lambda>now d. (Inr (), d))"

definition ready :: "st \<Rightarrow> http_reply \<times> st" where
  "ready s = (case ping s of
       (Inl e, s') \<Rightarrow> (reply 503 (message ''status'' ''unavailable''), s')
     | (Inr _, s') \<Rightarrow> (reply 200 (message ''status'' ''ready''), s'))"

definition get_stats :: "externals \<Rightarrow> st \<Rightarrow> http_reply \<times> st" where
  "get_stats w s = answer w (\<lambda>v. reply 200 (stats_doc v)) (stats s)"

text \<open>
  \<open>strconv.Atoi\<close> with its error ignored: 0 for a text that is no number, the nearest 64-bit
  number for one out of range, which is noticed before a later character that is no digit.
\<close>

fun digits_value :: "int \<Rightarrow> string \<Rightarrow> int option" where
  "digits_value acc [] = Some acc"
| "digits_value acc (c # cs) = (case digit_of c of
       None \<Rightarrow> None
     | Some n \<Rightarrow> if 2 ^ 64 \<le> acc * 10 + n then Some (2 ^ 64 - 1) else digits_value (acc * 10 + n) cs)"

definition signed_value :: "bool \<Rightarrow> string \<Rightarrow> int" where
  "signed_value neg ds = (if ds = [] then 0 else case digits_value 0 ds of
       None \<Rightarrow> 0
     | Some n \<Rightarrow> if neg then max (- int64_max - 1) (- n) else min int64_max n)"

definition atoi_value :: "string \<Rightarrow> int" where
  "atoi_value t = (case t of
       [] \<Rightarrow> 0
     | c # cs \<Rightarrow> if c = CHR ''-'' then signed_value True cs
         else if c = CHR ''+'' then signed_value False cs else signed_value False t)"

definition query_get :: "http_request \<Rightarrow> string \<Rightarrow> string" where
  "query_get g name = (case map_of (g_query g) name of Some t \<Rightarrow> t | None \<Rightarrow> [])"

definition get_executions :: "externals \<Rightarrow> http_request \<Rightarrow> st \<Rightarrow> http_reply \<times> st" where
  "get_executions w g s =
     (let limit = atoi_value (query_get g ''limit''); off = atoi_value (query_get g ''offset'')
      in answer w (\<lambda>xs. reply 200 (D_obj [(''executions'', D_arr (map execution_doc xs))]))
           (list_executions (w_tie w limit off s) (query_get g ''status'') (query_get g ''tool'') limit off s))"

definition get_one :: "externals \<Rightarrow> http_request \<Rightarrow> st \<Rightarrow> http_reply \<times> st" where
  "get_one w g s = answer w
     (\<lambda>x. case x of None \<Rightarrow> reply 404 (message ''error'' ''not found'')
        | Some e \<Rightarrow> reply 200 (execution_doc e))
     (get_execution (w_uuid w) (path_id g) s)"

definition get_events :: "externals \<Rightarrow> http_request \<Rightarrow> st \<Rightarrow> http_reply \<times> st" where
  "get_events w g s = answer w
     (\<lambda>us. reply 200 (D_obj [(''events'', D_arr (map event_doc us))]))
     (list_events (w_uuid w) (path_id g) s)"

definition get_tools :: "externals \<Rightarrow> st \<Rightarrow> http_reply \<times> st" where
  "get_tools w s = answer w
     (\<lambda>ts. reply 200 (D_obj [(''tools'', D_arr (map tool_doc ts))])) (list_tools (w_coll w) s)"

definition get_workers :: "externals \<Rightarrow> st \<Rightarrow> http_reply \<times> st" where
  "get_workers w s = answer w
     (\<lambda>ys. reply 200 (D_obj [(''workers'', D_arr (map worker_doc ys))])) (list_workers (w_coll w) s)"

section \<open>forceComplete\<close>

record force_body =
  fb_execution_id :: string
  fb_fencing_token :: int
  fb_worker_id :: string
  fb_result :: raw_message

text \<open>
  \<open>json.NewDecoder(..).Decode\<close> reads the first value of the body and ignores what follows;
  \<open>None\<close> is its error.
\<close>

definition decode_force :: "string \<Rightarrow> force_body option" where
  "decode_force text = (case parse_value (2 * length text + 1) 10000 (skip text) of
       None \<Rightarrow> None
     | Some (v, _) \<Rightarrow>
         (let (ms, bad) = take_struct [([], v)];
              (eid, bad1) = take_string (values_of ''execution_id'' ms) [];
              (tok, bad2) = take_int (values_of ''fencing_token'' ms) 0;
              (worker, bad3) = take_string (values_of ''worker_id'' ms) []
          in if bad \<or> bad1 \<or> bad2 \<or> bad3 then None
             else Some \<lparr>fb_execution_id = eid, fb_fencing_token = tok, fb_worker_id = worker,
                        fb_result = take_raw (values_of ''result'' ms)\<rparr>))"

text \<open>\<open>Complete\<close> of a text the server may refuse as an identifier.\<close>

definition complete_text ::
  "externals \<Rightarrow> string \<Rightarrow> int \<Rightarrow> string \<Rightarrow> raw_message \<Rightarrow> unit prog" where
  "complete_text w i tok worker result = (case w_uuid w i of
       Inl e \<Rightarrow> in_tx (\<lambda>now. prog_fail (DbError e))
     | Inr eid \<Rightarrow> complete (w_jsonb w) eid tok worker result)"

definition forced_result :: "raw_message \<Rightarrow> raw_message" where
  "forced_result r = (if r = None then Some ''{\"forced\":true}'' else r)"

definition force_complete :: "externals \<Rightarrow> http_request \<Rightarrow> st \<Rightarrow> http_reply \<times> st" where
  "force_complete w g s = (case Option.bind (g_body g) decode_force of
       None \<Rightarrow> (reply 400 (message ''error'' (w_json_text w ''forceComplete''
                 (case g_body g of None \<Rightarrow> [] | Some t \<Rightarrow> t))), s)
     | Some b \<Rightarrow> (case complete_text w (fb_execution_id b) (fb_fencing_token b) (fb_worker_id b)
                          (forced_result (fb_result b)) s of
           (Inl ErrStale, s') \<Rightarrow>
             (reply 409 (D_obj [(''reason'', D_str ''stale fencing token''), (''rejected'', D_bool True)]), s')
         | (Inl e, s') \<Rightarrow> (write_error w e, s')
         | (Inr _, s') \<Rightarrow> (reply 200 (D_obj [(''completed'', D_bool True)]), s')))"

section \<open>ServeHTTP\<close>

definition serve_mcp :: "externals \<Rightarrow> server \<Rightarrow> exec_id \<Rightarrow> http_request \<Rightarrow> st \<Rightarrow> http_reply \<times> st" where
  "serve_mcp w v uid g s = (case sv_mcp v of
       Some h \<Rightarrow> http_post w h uid (g_method g) (g_body g) s
     | None \<Rightarrow> (text_reply 404 ''404 page not found'', s))"

fun handle :: "externals \<Rightarrow> server \<Rightarrow> exec_id \<Rightarrow> http_request \<Rightarrow> endpoint \<Rightarrow> st \<Rightarrow> http_reply \<times> st" where
  "handle w v uid g Healthz s = (reply 200 (message ''status'' ''ok''), s)"
| "handle w v uid g Readyz s = ready s"
| "handle w v uid g Get_stats s = require_reader v g (get_stats w) s"
| "handle w v uid g Get_executions s = require_reader v g (get_executions w g) s"
| "handle w v uid g Get_one s = require_reader v g (get_one w g) s"
| "handle w v uid g Get_events s = require_reader v g (get_events w g) s"
| "handle w v uid g Get_tools s = require_reader v g (get_tools w) s"
| "handle w v uid g Get_workers s = require_reader v g (get_workers w) s"
| "handle w v uid g Mcp_post s = serve_mcp w v uid g s"
| "handle w v uid g Mcp_sse s = (sse_stream True (g_ticks g), s)"
| "handle w v uid g Internal_complete s = force_complete w g s"

definition serve_http :: "externals \<Rightarrow> server \<Rightarrow> exec_id \<Rightarrow> http_request \<Rightarrow> st \<Rightarrow> http_reply \<times> st" where
  "serve_http w v uid g s = (case route v g of
       Inr e \<Rightarrow> handle w v uid g e s
     | Inl n \<Rightarrow> (text_reply n (if n = 404 then ''404 page not found'' else ''Method Not Allowed''), s))"

end
