(* ===== verification/Api_Facts.thy ===== *)
theory Api_Facts
  imports Api Mcp_Facts
begin

text \<open>
  What the REST server promises: without the reader's key nothing of the store is shown, a
  \<open>GET\<close> changes no data, a completion forced over HTTP is fenced as a worker's is, and
  every request is part of the system.
\<close>

section \<open>Steps\<close>

text \<open>A handler whose effect on the store is that of steps of the system.\<close>

definition stepping :: "(string \<Rightarrow> string option) \<Rightarrow> (st \<Rightarrow> 'a \<times> st) \<Rightarrow> bool" where
  "stepping jsonb f \<longleftrightarrow> (\<forall>x s ps. sys_steps jsonb x (s, ps) \<longrightarrow> sys_steps jsonb x (snd (f s), ps))"

definition reading :: "(st \<Rightarrow> 'a \<times> st) \<Rightarrow> bool" where
  "reading f \<longleftrightarrow> (\<forall>s. tables (snd (f s)) = tables s \<and> clock s \<le> clock (snd (f s)))"

lemma steppingD: "stepping jsonb f \<Longrightarrow> sys_steps jsonb x (s, ps) \<Longrightarrow> sys_steps jsonb x (snd (f s), ps)"
  unfolding stepping_def by blast

lemma steppingI: "(\<And>x s ps. sys_steps jsonb x (s, ps) \<Longrightarrow> sys_steps jsonb x (snd (f s), ps)) \<Longrightarrow> stepping jsonb f"
  unfolding stepping_def by blast

lemma reading_stepping: "reading f \<Longrightarrow> stepping jsonb f"
  unfolding reading_def by (rule steppingI, rule steps_read) blast+

lemma reading_pure [intro, simp]: "reading (\<lambda>s. (r, s))"
  by (simp add: reading_def)

lemma answer_state [simp]: "snd (answer w f out) = snd out"
  by (cases out; cases "fst out") (auto simp: answer_def)

lemma ready_state: "snd (ready s) = snd (ping s)"
  by (cases "ping s"; cases "fst (ping s)") (auto simp: ready_def)

lemma reading_answer [intro]: "reading m \<Longrightarrow> reading (\<lambda>s. answer w f (m s))"
  by (simp add: reading_def)

lemma reading_require [intro]: "reading f \<Longrightarrow> reading (require_reader v g f)"
  by (simp add: reading_def require_reader_def)

lemma reading_rows [intro]: "reading (read_rows q)"
  unfolding reading_def using read_rows_ok(1,2) by (metis prod.collapse)

lemma reading_stmt [intro]: "reading (read_stmt q)"
  unfolding reading_def using read_stmt_ok(1,2) by (metis prod.collapse)

lemma reading_fail [intro]: "reading (prog_fail e)"
  by (simp add: reading_def prog_fail_def)

lemma reading_return [intro]: "reading (prog_return v)"
  by (simp add: reading_def prog_return_def)

lemma reading_bind [intro]:
  assumes "reading m" and "\<And>v. reading (f v)"
  shows "reading (prog_bind m f)"
  unfolding reading_def
proof
  fix s
  obtain r s' where m: "m s = (r, s')" by force
  with assms(1) have s: "tables s' = tables s" "clock s \<le> clock s'"
    unfolding reading_def by (metis snd_conv)+
  show "tables (snd (prog_bind m f s)) = tables s \<and> clock s \<le> clock (snd (prog_bind m f s))"
    using s assms(2) unfolding reading_def
    by (cases r) (auto simp: prog_bind_def m intro: order_trans)
qed

lemma reading_stats: "reading stats"
  unfolding stats_def by (intro reading_bind reading_stmt) (auto split: prod.split)

lemma reading_ping: "reading ping"
  using reading_stmt [of "\<lambda>now d. ()"] by (simp add: ping_def read_stmt_def)

lemma reading_ready: "reading ready"
  using reading_ping by (simp add: reading_def ready_state)

lemma reading_queries:
  "reading (list_tools coll)" "reading (list_executions tie status tool l off)" "reading (list_workers coll)"
  "reading (list_events u i)" "reading (get_execution u i)"
  by (auto simp: list_tools_def list_executions_def list_workers_def list_events_def get_execution_def
      split: sum.split)

lemma reading_get_executions: "reading (get_executions w g)"
  unfolding reading_def
proof
  fix s
  let ?limit = "atoi_value (query_get g ''limit'')" and ?off = "atoi_value (query_get g ''offset'')"
  let ?m = "list_executions (w_tie w ?limit ?off s) (query_get g ''status'') (query_get g ''tool'') ?limit ?off"
  have "tables (snd (?m s)) = tables s \<and> clock s \<le> clock (snd (?m s))"
    using reading_queries(2) unfolding reading_def by blast
  then show "tables (snd (get_executions w g s)) = tables s \<and> clock s \<le> clock (snd (get_executions w g s))"
    by (simp add: get_executions_def Let_def answer_def split_beta split: sum.split)
qed

lemma reading_handlers:
  "reading (get_stats w)" "reading (get_executions w g)" "reading (get_one w g)"
  "reading (get_events w g)" "reading (get_tools w)" "reading (get_workers w)"
  using reading_stats reading_queries reading_get_executions
  by (auto simp: get_stats_def [abs_def] get_one_def [abs_def]
      get_events_def [abs_def] get_tools_def [abs_def] get_workers_def [abs_def])

definition posting :: "endpoint \<Rightarrow> bool" where
  "posting e \<longleftrightarrow> e = Mcp_post \<or> e = Internal_complete"

lemma handle_fun:
  "handle w v uid g Healthz = (\<lambda>s. (reply 200 (message ''status'' ''ok''), s))"
  "handle w v uid g Readyz = ready"
  "handle w v uid g Get_stats = require_reader v g (get_stats w)"
  "handle w v uid g Get_executions = require_reader v g (get_executions w g)"
  "handle w v uid g Get_one = require_reader v g (get_one w g)"
  "handle w v uid g Get_events = require_reader v g (get_events w g)"
  "handle w v uid g Get_tools = require_reader v g (get_tools w)"
  "handle w v uid g Get_workers = require_reader v g (get_workers w)"
  "handle w v uid g Mcp_sse = (\<lambda>s. (sse_stream True (g_ticks g), s))"
  by (simp_all add: fun_eq_iff)

lemma reading_handle: "\<not> posting e \<Longrightarrow> reading (handle w v uid g e)"
  by (cases e) (simp_all add: posting_def handle_fun reading_handlers reading_ready reading_require)

lemma reading_refused: "reading (in_tx (\<lambda>now. prog_fail e))"
  unfolding reading_def
proof
  fix s
  obtain f s1 where a: "arrive s = (f, s1)" by force
  then have t: "tables s1 = tables s" "clock s \<le> clock s1"
    using arrive_tables [of s] arrive_clock [of s] by simp_all
  then show "tables (snd (in_tx (\<lambda>now. prog_fail e) s)) = tables s \<and>
      clock s \<le> clock (snd (in_tx (\<lambda>now. prog_fail e) s))"
    by (cases f) (simp_all add: in_tx_def a prog_fail_def rollback_def)
qed

lemma stepping_complete_text: "stepping (w_jsonb w) (complete_text w i tok worker result)"
proof (cases "w_uuid w i")
  case (Inl e)
  then show ?thesis
    using reading_stepping [OF reading_refused] by (simp add: complete_text_def [abs_def])
next
  case (Inr eid)
  then show ?thesis by (intro steppingI) (simp add: complete_text_def steps_complete)
qed

lemma force_complete_state:
  "snd (force_complete w g s) = (case Option.bind (g_body g) decode_force of None \<Rightarrow> s
     | Some b \<Rightarrow> snd (complete_text w (fb_execution_id b) (fb_fencing_token b) (fb_worker_id b)
                          (forced_result (fb_result b)) s))"
  by (auto simp: force_complete_def split: option.split prod.split sum.split error.split)

lemma stepping_handle: "stepping (w_jsonb w) (handle w v uid g e)"
proof (cases "posting e")
  case True
  then consider "e = Mcp_post" | "e = Internal_complete" by (auto simp: posting_def)
  then show ?thesis
  proof cases
    case 1
    then show ?thesis
      by (intro steppingI; cases "sv_mcp v") (simp_all add: serve_mcp_def http_post_steps)
  next
    case 2
    then show ?thesis
      by (intro steppingI)
         (simp add: force_complete_state steppingD [OF stepping_complete_text] split: option.split)
  qed
qed (intro reading_stepping reading_handle)

lemma serve_http_steps:
  "sys_steps (w_jsonb w) x (s, ps) \<Longrightarrow> sys_steps (w_jsonb w) x (snd (serve_http w v uid g s), ps)"
  by (simp add: serve_http_def steppingD [OF stepping_handle] split: sum.split)

section \<open>Reading is open only to the reader\<close>

lemma route_In:
  assumes "route v g = Inr e"
  shows "\<exists>m p. (m, p, e) \<in> set (routes v) \<and> path_matches p (g_path g) \<and> method_matches m (g_method g)"
proof -
  let ?ok = "filter (\<lambda>(m, p, e). method_matches m (g_method g))
      (filter (\<lambda>(m, p, e). path_matches p (g_path g)) (routes v))"
  obtain m p r where "?ok = (m, p, e) # r"
    using assms by (auto simp: route_def Let_def split: list.splits)
  then have "(m, p, e) \<in> set ?ok" by (metis list.set_intros(1))
  then show ?thesis by auto
qed

lemma api_routes:
  assumes "(m, p, e) \<in> set (routes v)" and "path_matches p (''api'' # ''v1'' # r)"
  shows "e \<in> {Get_stats, Get_executions, Get_one, Get_events, Get_tools, Get_workers}"
  using assms by (auto simp: routes_def api_def split: if_splits)

lemma guarded_handle:
  assumes "e \<in> {Get_stats, Get_executions, Get_one, Get_events, Get_tools, Get_workers}"
    and "\<not> reader_allowed (sv_reader_key v) (g_auth g)"
  shows "handle w v uid g e s = (reply 401 (message ''error'' ''invalid reader key''), s)"
  using assms by (auto simp: require_reader_def)

lemma route_Inl: "route v g = Inl n \<Longrightarrow> n = 404 \<or> n = 405"
  by (auto simp: route_def Let_def split: list.splits if_splits)

text \<open>
  C12. With a reader's key configured, a request under \<open>/api/v1\<close> that does not carry it, as
  \<open>Bearer reader:KEY\<close> or \<open>Bearer KEY\<close>, learns nothing of the store and changes nothing:
  it gets an answer that is the same in every state, 401 where there is a route, and the
  store is not asked.
\<close>

theorem reader_key_guards_api:
  assumes "sv_reader_key v \<noteq> []" and "g_path g = ''api'' # ''v1'' # r"
    and "g_auth g \<noteq> ''Bearer reader:'' @ sv_reader_key v" and "g_auth g \<noteq> ''Bearer '' @ sv_reader_key v"
  shows "\<exists>a. rp_status a \<in> {401, 404, 405} \<and> (\<forall>s. serve_http w v uid g s = (a, s)) \<and>
    (\<forall>e. route v g = Inr e \<longrightarrow> rp_status a = 401)"
proof (cases "route v g")
  case (Inl n)
  from route_Inl [OF Inl] show ?thesis
    by (intro exI [of _ "text_reply n (if n = 404 then ''404 page not found'' else ''Method Not Allowed'')"])
       (auto simp: serve_http_def Inl text_reply_def)
next
  case (Inr e)
  have "\<not> reader_allowed (sv_reader_key v) (g_auth g)"
    using assms(1,3,4) by (simp add: reader_allowed_def)
  moreover obtain m p where "(m, p, e) \<in> set (routes v)" "path_matches p (''api'' # ''v1'' # r)"
    using route_In [OF Inr] unfolding assms(2) by blast
  with api_routes have "e \<in> {Get_stats, Get_executions, Get_one, Get_events, Get_tools, Get_workers}"
    by blast
  ultimately show ?thesis
    using guarded_handle [of e v g w uid]
    by (intro exI [of _ "reply 401 (message ''error'' ''invalid reader key'')"])
       (simp add: serve_http_def Inr reply_def)
qed

text \<open>A server as \<open>docker-compose.yml\<close> configures it.\<close>

definition demo_server :: server where
  "demo_server = \<lparr>sv_reader_key = ''dev-reader-key'', sv_allow_test = True,
     sv_mcp = Some \<lparr>h_server_name = ''durablemcp'', h_version = ''0.1.0''\<rparr>\<rparr>"

definition demo_get :: "string list \<Rightarrow> string \<Rightarrow> http_request" where
  "demo_get p auth = \<lparr>g_method = ''GET'', g_path = p, g_auth = auth, g_query = [], g_body = None, g_ticks = []\<rparr>"

definition demo_post :: "string list \<Rightarrow> string \<Rightarrow> http_request" where
  "demo_post p t = \<lparr>g_method = ''POST'', g_path = p, g_auth = [], g_query = [], g_body = Some t, g_ticks = []\<rparr>"

theorem reader_key_guards_api_witness:
  "\<exists>a. rp_status a = 401 \<and>
    (\<forall>s. serve_http demo_world demo_server ''u'' (demo_get [''api'', ''v1'', ''stats''] ''Bearer reader:guess'') s = (a, s))"
proof -
  let ?g = "demo_get [''api'', ''v1'', ''stats''] ''Bearer reader:guess''"
  have "route demo_server ?g = Inr Get_stats"
    by (simp add: route_def routes_def demo_server_def demo_get_def api_def method_matches_def)
  with reader_key_guards_api [of demo_server ?g "[''stats'']" demo_world "''u''"] show ?thesis
    by (auto simp: demo_server_def demo_get_def)
qed

section \<open>GET changes nothing\<close>

lemma posting_route:
  assumes "route v g = Inr e" and "posting e"
  shows "g_method g = ''POST''"
  using route_In [OF assms(1)] assms(2)
  by (auto simp: routes_def posting_def method_matches_def split: if_splits)

text \<open>
  C25. Only \<open>POST\<close> writes: a request with any other method leaves every table as it was,
  whatever the connection does; and so does every request to a server that has neither the
  MCP routes nor the testing endpoint.
\<close>

theorem only_post_writes:
  assumes "g_method g \<noteq> ''POST'' \<or> (sv_mcp v = None \<and> \<not> sv_allow_test v)"
  shows "tables (snd (serve_http w v uid g s)) = tables s"
proof (cases "route v g")
  case (Inr e)
  have "\<not> posting e"
  proof
    assume p: "posting e"
    from posting_route [OF Inr p] assms have "sv_mcp v = None" "\<not> sv_allow_test v" by simp_all
    with route_In [OF Inr] p show False by (auto simp: routes_def posting_def)
  qed
  from reading_handle [OF this, of w v uid g] show ?thesis
    by (simp add: serve_http_def Inr reading_def)
qed (simp add: serve_http_def)

theorem only_post_writes_witness:
  "tables (snd (serve_http demo_world demo_server ''u'' (demo_get [''internal'', ''complete''] []) sc_claimed)) =
    tables sc_claimed"
  by (rule only_post_writes) (simp add: demo_get_def)

section \<open>Forced completions\<close>

text \<open>
  C24. The testing endpoint is fenced as a worker is: a forced completion that names an
  execution and a token without a live lease changes no execution, lease or retry entry,
  and over a working connection is answered with the conflict status 409.
\<close>

theorem forced_completion_fenced:
  assumes "wf_db (tables s)" and "g_body g = Some t" and "decode_force t = Some b"
    and "w_uuid w (fb_execution_id b) = Inr eid" and "exec_of (tables s) eid \<noteq> None"
    and "superseded s eid (fb_fencing_token b)"
  shows "rows_unchanged (tables s) (tables (snd (force_complete w g s))) \<and>
    (net s = [] \<and> json_param (w_jsonb w) (forced_result (fb_result b)) \<noteq> None \<longrightarrow>
      rp_status (fst (force_complete w g s)) = 409)"
proof
  let ?run = "complete (w_jsonb w) eid (fb_fencing_token b) (fb_worker_id b) (forced_result (fb_result b))"
  have c: "complete_text w (fb_execution_id b) (fb_fencing_token b) (fb_worker_id b) (forced_result (fb_result b)) = ?run"
    by (simp add: complete_text_def assms(4))
  show "rows_unchanged (tables s) (tables (snd (force_complete w g s)))"
    using superseded_complete [OF assms(1,6)] by (simp add: force_complete_state assms(2,3) c)
  show "net s = [] \<and> json_param (w_jsonb w) (forced_result (fb_result b)) \<noteq> None \<longrightarrow>
      rp_status (fst (force_complete w g s)) = 409"
  proof
    assume q: "net s = [] \<and> json_param (w_jsonb w) (forced_result (fb_result b)) \<noteq> None"
    have "fst (?run s) = Inl ErrStale"
      using completing.quiet [of s] q assms(5) superseded_not_live [OF assms(1,6)]
      by (auto simp: complete_effect_def)
    then show "rp_status (fst (force_complete w g s)) = 409"
      by (cases "?run s") (simp add: force_complete_def assms(2,3) c reply_def)
  qed
qed

theorem forced_completion_fenced_witness:
  "rp_status (fst (serve_http demo_world demo_server ''u'' (demo_post [''internal'', ''complete'']
     ''{\"execution_id\":\"a\",\"fencing_token\":1,\"worker_id\":\"w1\"}'') sc_reclaimed)) = 409"
proof -
  let ?t = "''{\"execution_id\":\"a\",\"fencing_token\":1,\"worker_id\":\"w1\"}''"
  let ?g = "demo_post [''internal'', ''complete''] ?t"
  let ?b = "\<lparr>fb_execution_id = ''a'', fb_fencing_token = 1, fb_worker_id = ''w1'', fb_result = None\<rparr>"
  have t: "g_body ?g = Some ?t" by (simp add: demo_post_def)
  have d: "decode_force ?t = Some ?b" by code_simp
  have u: "w_uuid demo_world (fb_execution_id ?b) = Inr ''a''" by code_simp
  have e: "exec_of (tables sc_reclaimed) ''a'' \<noteq> None" by code_simp
  have f: "superseded sc_reclaimed ''a'' (fb_fencing_token ?b)" by code_simp
  have n: "net sc_reclaimed = [] \<and> json_param (w_jsonb demo_world) (forced_result (fb_result ?b)) \<noteq> None"
    by code_simp
  have r: "route demo_server ?g = Inr Internal_complete"
    by (simp add: route_def routes_def demo_server_def demo_post_def api_def method_matches_def)
  show ?thesis
    using forced_completion_fenced [OF wf_sc_reclaimed t d u e f] n by (simp add: serve_http_def r)
qed

end
