(* ===== verification/Encode.thy ===== *)
theory Encode
  imports Wire
begin

text \<open>
  The bytes of a document, as \<open>json.Marshal\<close> and \<open>json.Encoder\<close> write them: strings with the
  characters of HTML, the two line separators and everything that is not UTF-8 escaped, and
  the text of a \<open>RawMessage\<close> without its spaces. How a time and a number of seconds are
  written depends on the process's time zone and on \<open>strconv\<close>, and is a parameter.
\<close>

section \<open>Strings\<close>

definition lower_hex :: "int \<Rightarrow> char" where
  "lower_hex n = char_of (if n < 10 then n + 48 else n + 87)"

definition escaped_byte :: "char \<Rightarrow> string" where
  "escaped_byte c = [CHR 0x5C, CHR ''u'', CHR ''0'', CHR ''0'', lower_hex (code c div 16), lower_hex (code c mod 16)]"

definition html_char :: "char \<Rightarrow> bool" where
  "html_char c \<longleftrightarrow> c = CHR ''<'' \<or> c = CHR ''>'' \<or> c = CHR ''&''"

definition ascii_text :: "char \<Rightarrow> string" where
  "ascii_text c =
     (if c = CHR ''\"'' \<or> c = CHR 0x5C then [CHR 0x5C, c]
      else if c = CHR 0x08 then [CHR 0x5C, CHR ''b'']
      else if c = CHR 0x0C then [CHR 0x5C, CHR ''f'']
      else if c = CHR 0x0A then [CHR 0x5C, CHR ''n'']
      else if c = CHR 0x0D then [CHR 0x5C, CHR ''r'']
      else if c = CHR 0x09 then [CHR 0x5C, CHR ''t'']
      else if code c < 32 \<or> html_char c then escaped_byte c
      else [c])"

text \<open>U+2028 and U+2029 are three bytes that differ in the last.\<close>

definition separator :: "string \<Rightarrow> bool" where
  "separator s \<longleftrightarrow> take 3 s = [CHR 0xE2, CHR 0x80, CHR 0xA8] \<or> take 3 s = [CHR 0xE2, CHR 0x80, CHR 0xA9]"

definition separator_text :: "string \<Rightarrow> string" where
  "separator_text s = [CHR 0x5C, CHR ''u'', CHR ''2'', CHR ''0'', CHR ''2'', lower_hex (code (s ! 2) mod 16)]"

definition replacement_text :: string where
  "replacement_text = [CHR 0x5C, CHR ''u'', CHR ''f'', CHR ''f'', CHR ''f'', CHR ''d'']"

text \<open>The part of a string after its first character, which is \<open>take k s\<close> if it is valid.\<close>

function quoted :: "string \<Rightarrow> string" where
  "quoted [] = []"
| "quoted (c # r) =
     (if code c < 128 then ascii_text c @ quoted r
      else case rune_length (c # r) of
          None \<Rightarrow> replacement_text @ quoted r
        | Some k \<Rightarrow> (if separator (c # r) then separator_text (c # r) else c # take (k - 1) r)
            @ quoted (drop (k - 1) r))"
  by pat_completeness auto
termination by (relation "measure length") auto

definition quote :: "string \<Rightarrow> string" where
  "quote s = CHR ''\"'' # quoted s @ [CHR ''\"'']"

section \<open>Raw messages\<close>

text \<open>
  \<open>appendCompact\<close>: where the scanner stands, and the text with the spaces between the tokens
  left out and the characters above escaped. Without the flag it is the text itself, which
  lets one proof follow both.
\<close>

datatype place = Outside | Inside | Escaped

definition next_place :: "place \<Rightarrow> char \<Rightarrow> place" where
  "next_place p c = (case p of
       Outside \<Rightarrow> if c = CHR ''\"'' then Inside else Outside
     | Inside \<Rightarrow> if c = CHR ''\"'' then Outside else if c = CHR 0x5C then Escaped else Inside
     | Escaped \<Rightarrow> Inside)"

function squash :: "bool \<Rightarrow> place \<Rightarrow> string \<Rightarrow> string" where
  "squash b p [] = []"
| "squash b p (c # r) =
     (if b \<and> p = Outside \<and> is_space c then squash b p r
      else if b \<and> separator (c # r) then separator_text (c # r) @ squash b p (drop 2 r)
      else (if b \<and> html_char c then escaped_byte c else [c]) @ squash b (next_place p c) r)"
  by pat_completeness auto
termination by (relation "measure (\<lambda>(b, p, s). length s)") auto

declare quoted.simps [simp del] squash.simps [simp del]

text \<open>A text that is not JSON has no compact form.\<close>

definition compact :: "string \<Rightarrow> string option" where
  "compact t = (if parse_json t = None then None else Some (squash True Outside t))"

section \<open>Documents\<close>

text \<open>How the process writes a time and a number of seconds.\<close>

record leaves =
  lf_time :: "time \<Rightarrow> string"
  lf_seconds :: "int \<Rightarrow> string"

fun comma_separated :: "string list \<Rightarrow> string" where
  "comma_separated [] = []"
| "comma_separated [t] = t"
| "comma_separated (t # u # ts) = t @ CHR '','' # comma_separated (u # ts)"

fun encode :: "leaves \<Rightarrow> doc \<Rightarrow> string" where
  "encode v (D_raw t) = squash True Outside t"
| "encode v (D_str t) = quote t"
| "encode v (D_bool b) = (if b then ''true'' else ''false'')"
| "encode v (D_num n) = decimal n"
| "encode v (D_time t) = CHR ''\"'' # lf_time v t @ [CHR ''\"'']"
| "encode v (D_seconds n) = lf_seconds v n"
| "encode v (D_arr ds) = CHR ''['' # comma_separated (map (encode v) ds) @ [CHR '']'']"
| "encode v (D_obj ms) = CHR ''{'' #
     comma_separated (map (\<lambda>(name, d). quote name @ CHR '':'' # encode v d) ms) @ [CHR ''}'']"

text \<open>Whether every \<open>RawMessage\<close> in a document has a compact form.\<close>

fun raw_valid :: "doc \<Rightarrow> bool" where
  "raw_valid (D_raw t) \<longleftrightarrow> parse_json t \<noteq> None"
| "raw_valid (D_arr ds) \<longleftrightarrow> list_all raw_valid ds"
| "raw_valid (D_obj ms) \<longleftrightarrow> list_all (\<lambda>(name, d). raw_valid d) ms"
| "raw_valid _ \<longleftrightarrow> True"

definition marshal :: "leaves \<Rightarrow> doc \<Rightarrow> string option" where
  "marshal v d = (if raw_valid d then Some (encode v d) else None)"

text \<open>\<open>Encoder.Encode\<close> writes the document and a line feed, or nothing.\<close>

definition body_bytes :: "leaves \<Rightarrow> body \<Rightarrow> string" where
  "body_bytes v b = (case b of
       No_body \<Rightarrow> []
     | Text t \<Rightarrow> t
     | Doc d \<Rightarrow> (case marshal v d of None \<Rightarrow> [] | Some t \<Rightarrow> t @ newline))"

end
