(* ===== verification/Encode_Strings.thy ===== *)
theory Encode_Strings
  imports Encode
begin

text \<open>
  Reading back what the encoder wrote inside string literals. \<open>literal s\<close> reads the rest of a
  literal without a bound on its calls.
\<close>

section \<open>Literals without a bound\<close>

definition literal :: "string \<Rightarrow> (string \<times> string) option" where
  "literal s = string_body (Suc (length s)) s"

lemma string_body_literal: "length s < n \<Longrightarrow> string_body n s = literal s"
  unfolding literal_def by (rule string_body_fuel) simp_all

lemma literal_end [simp]: "literal (CHR ''\"'' # s) = Some ([], s)"
  by (simp add: literal_def)

lemma literal_Nil [simp]: "literal [] = None"
  by (simp add: literal_def)

definition escape_of :: "string \<Rightarrow> (string \<times> string) option" where
  "escape_of s = (case s of [] \<Rightarrow> None
     | e # r \<Rightarrow> if e = CHR ''u'' then unicode_escape r else map_option (\<lambda>t. (t, r)) (simple_escape e))"

lemma escape_of_shorter: "escape_of s = Some (t, r) \<Longrightarrow> length r < length s"
  by (fastforce simp: escape_of_def dest: unicode_escape_shorter split: list.splits if_splits)

lemma literal_escape:
  "literal (CHR 0x5C # s) = (case escape_of s of
     None \<Rightarrow> None | Some (t, r) \<Rightarrow> map_option (apfst ((@) t)) (literal r))"
proof (cases "escape_of s")
  case None
  then show ?thesis by (cases s) (simp_all add: literal_def escape_of_def)
next
  case (Some p)
  obtain t r where p: "p = (t, r)" by force
  from Some p have "length r < length s" by (simp add: escape_of_shorter)
  then have "string_body (Suc (length s)) r = literal r" by (simp add: string_body_literal)
  with Some p show ?thesis by (cases s) (simp_all add: literal_def escape_of_def del: string_body.simps(1))
qed

lemma literal_plain:
  assumes "c \<noteq> CHR ''\"''" and "c \<noteq> CHR 0x5C" and "32 \<le> code c"
  shows "literal (c # s) = (case rune_length (c # s) of
     None \<Rightarrow> map_option (apfst ((@) replacement)) (literal s)
   | Some k \<Rightarrow> map_option (apfst ((@) (c # take (k - 1) s))) (literal (drop (k - 1) s)))"
proof (cases "rune_length (c # s)")
  case None
  then show ?thesis using assms by (simp add: literal_def)
next
  case (Some k)
  then obtain j where k: "k = Suc j" using rune_length_pos by (cases k) auto
  have "string_body (Suc (length s)) (drop j s) = literal (drop j s)"
    by (rule string_body_literal) simp
  then show ?thesis using assms Some k by (simp add: literal_def)
qed

lemma literal_control: "c \<noteq> CHR ''\"'' \<Longrightarrow> c \<noteq> CHR 0x5C \<Longrightarrow> code c < 32 \<Longrightarrow> literal (c # s) = None"
  by (simp add: literal_def)

section \<open>Continuation bytes\<close>

definition cont :: "char \<Rightarrow> bool" where
  "cont c \<longleftrightarrow> between 128 c 191"

lemma cont_not: "cont c \<Longrightarrow> c \<noteq> CHR ''\"'' \<and> c \<noteq> CHR 0x5C \<and> c \<noteq> CHR 0xE2 \<and> \<not> html_char c \<and> 32 \<le> code c"
  by (auto simp: cont_def between_def html_char_def)

lemma rune_length_ascii: "code c < 128 \<Longrightarrow> rune_length (c # s) = Some 1"
  by (simp add: rune_length_def)

text \<open>A sequence is valid by its first byte and the continuation bytes that follow.\<close>

lemma between_cont: "between a x b \<Longrightarrow> 128 \<le> a \<Longrightarrow> b \<le> 191 \<Longrightarrow> cont x"
  by (simp add: cont_def between_def)

lemma one_byte_cont:
  assumes "\<forall>x. P x \<longrightarrow> cont x"
  shows "(case takeWhile cont s of b # _ \<Rightarrow> if P b then v else None | [] \<Rightarrow> None) =
    (case s of b # _ \<Rightarrow> if P b then v else None | [] \<Rightarrow> None)"
  using assms by (cases s) auto

lemma two_bytes_cont:
  assumes "\<forall>x. P x \<longrightarrow> cont x" and "\<forall>x. Q x \<longrightarrow> cont x"
  shows "(case takeWhile cont s of b # c # _ \<Rightarrow> if P b \<and> Q c then v else None | _ \<Rightarrow> None) =
    (case s of b # c # _ \<Rightarrow> if P b \<and> Q c then v else None | _ \<Rightarrow> None)"
  using assms by (auto split: list.split)

lemma three_bytes_cont:
  assumes "\<forall>x. P x \<longrightarrow> cont x" and "\<forall>x. Q x \<longrightarrow> cont x" and "\<forall>x. R x \<longrightarrow> cont x"
  shows "(case takeWhile cont s of b # c # d # _ \<Rightarrow> if P b \<and> Q c \<and> R d then v else None | _ \<Rightarrow> None) =
    (case s of b # c # d # _ \<Rightarrow> if P b \<and> Q c \<and> R d then v else None | _ \<Rightarrow> None)"
  using assms by (auto split: list.split)

lemma rune_length_cont: "rune_length (c # s) = rune_length (c # takeWhile cont s)"
proof -
  have c: "\<forall>x. between 128 x 191 \<longrightarrow> cont x"
    "\<forall>x. between (if code c = 224 then 160 else 128) x (if code c = 237 then 159 else 191) \<longrightarrow> cont x"
    "\<forall>x. between (if code c = 240 then 144 else 128) x (if code c = 244 then 143 else 191) \<longrightarrow> cont x"
    by (auto intro: between_cont)
  note r = one_byte_cont [OF c(1)] two_bytes_cont [OF c(2,1)] three_bytes_cont [OF c(3,1,1)]
  show ?thesis
    unfolding rune_length_def list.case r ..
qed

lemma rune_length_at_most:
  assumes "rune_length (c # s) = Some k" and "128 \<le> code c"
  shows "k - 1 \<le> length s" and "0 < k"
  using assms unfolding rune_length_def list.case by (auto split: list.splits if_splits)

lemma rune_length_run:
  assumes "rune_length (c # s) = Some k" and "128 \<le> code c"
  obtains w x where "s = w @ x" "k = Suc (length w)" "list_all cont w"
proof -
  have "rune_length (c # takeWhile cont s) = Some k" using assms(1) rune_length_cont by simp
  from rune_length_at_most [OF this assms(2)] have k: "k - 1 \<le> length (takeWhile cont s)" "0 < k" by blast+
  let ?w = "take (k - 1) s"
  have "?w = take (k - 1) (takeWhile cont s)"
    using k(1) by (metis takeWhile_dropWhile_id take_append diff_is_0_eq append_Nil2 take_0)
  then have "list_all cont ?w" by (metis in_set_takeD list_all_iff set_takeWhileD)
  moreover have "length ?w = k - 1" using k(1) length_takeWhile_le [of cont s] by simp
  ultimately show thesis using that [of ?w "drop (k - 1) s"] k(2) by simp
qed


lemma rune_length_cases: "rune_length (c # s) = Some k \<Longrightarrow> k = 1 \<or> k = 2 \<or> k = 3 \<or> k = 4"
  unfolding rune_length_def list.case by (auto split: list.splits if_splits)

lemma rune_length_prefix:
  assumes "rune_length (c # w @ x) = Some (Suc (length w))"
  shows "rune_length (c # w @ y) = Some (Suc (length w))"
proof -
  consider "w = []" | a where "w = [a]" | a b where "w = [a, b]" | a b d where "w = [a, b, d]"
    using rune_length_cases [OF assms] by (auto simp: length_Suc_conv numeral_eq_Suc)
  then show ?thesis
    using assms by cases (auto simp: rune_length_def split: if_splits list.splits)
qed

lemma takeWhile_cont_quote [simp]: "takeWhile cont (p @ CHR ''\"'' # x) = takeWhile cont p"
proof -
  have "\<not> cont CHR ''\"''" by (simp add: cont_def between_def)
  then show ?thesis by (induction p) simp_all
qed

lemma rune_length_quote: "rune_length (c # p @ CHR ''\"'' # x) = rune_length (c # p)"
  by (subst (1 2) rune_length_cont) simp

section \<open>The decoded escapes\<close>

lemma append_single [simp]: "(@) [c] = (#) c"
  by auto

lemma char_values [simp]:
  "char_of (56::int) = CHR ''8''" "char_of (57::int) = CHR ''9''" "char_of (226::int) = CHR 0xE2"
  "char_of (128::int) = CHR 0x80" "char_of (168::int) = CHR 0xA8" "char_of (169::int) = CHR 0xA9"
  by code_simp+

lemma code_nonneg [simp]: "0 \<le> code c"
  by (metis of_nat_of_char of_nat_0_le_iff)

lemma code_inject: "code c = code d \<longleftrightarrow> c = d"
  by (rule of_char_eq_iff)

lemma hex_digit_lower:
  assumes "0 \<le> n" and "n < 16"
  shows "hex_digit (lower_hex n) = Some n"
proof -
  have "list_all (\<lambda>n. hex_digit (lower_hex n) = Some n) [0..15]" by code_simp
  with assms show ?thesis by (simp add: list_all_iff)
qed

lemma escaped_byte_hex:
  assumes "code c < 128"
  shows "hex4 (drop 2 (escaped_byte c) @ y) = Some (code c)"
proof -
  have "hex_digit (lower_hex (code c div 16)) = Some (code c div 16)" "hex_digit (lower_hex (code c mod 16)) = Some (code c mod 16)"
    using assms by (auto intro!: hex_digit_lower simp: pos_imp_zdiv_nonneg_iff)
  moreover have "hex_digit CHR ''0'' = Some 0" by (simp add: hex_digit_def between_def)
  ultimately show ?thesis by (simp add: escaped_byte_def hex4_def)
qed

lemma lower_hex_printable: "0 \<le> n \<Longrightarrow> n < 16 \<Longrightarrow> 32 \<le> code (lower_hex n)"
proof -
  have "list_all (\<lambda>n. 32 \<le> code (lower_hex n)) [0..15]" by code_simp
  then show "0 \<le> n \<Longrightarrow> n < 16 \<Longrightarrow> 32 \<le> code (lower_hex n)" by (simp add: list_all_iff)
qed

lemma escaped_byte_printable: "code c < 128 \<Longrightarrow> list_all (\<lambda>x. 32 \<le> code x) (escaped_byte c)"
  by (auto simp: escaped_byte_def pos_imp_zdiv_nonneg_iff intro!: lower_hex_printable)

lemma escaped_byte_reads:
  assumes "code c < 128"
  shows "literal (escaped_byte c @ y) = map_option (apfst ((#) c)) (literal y)"
proof -
  have "escape_of (tl (escaped_byte c @ y)) = Some ([c], y)"
    using assms escaped_byte_hex [OF assms, of y]
    by (simp add: escape_of_def escaped_byte_def unicode_escape_def encode_rune_def Let_def)
  then show ?thesis by (simp add: escaped_byte_def literal_escape)
qed

lemma html_char_code: "html_char c \<Longrightarrow> 32 \<le> code c \<and> code c < 128"
  by (auto simp: html_char_def)

lemma separator_iff: "separator s \<longleftrightarrow>
  (\<exists>r. s = CHR 0xE2 # CHR 0x80 # CHR 0xA8 # r \<or> s = CHR 0xE2 # CHR 0x80 # CHR 0xA9 # r)"
  by (cases s; cases "tl s"; cases "tl (tl s)") (auto simp: separator_def)

lemma separator_not: "c \<noteq> CHR 0xE2 \<Longrightarrow> \<not> separator (c # s)"
  by (simp add: separator_def)

lemma separator_text_of: "separator s \<Longrightarrow> separator_text s =
    [CHR 0x5C, CHR ''u'', CHR ''2'', CHR ''0'', CHR ''2'', if s ! 2 = CHR 0xA8 then CHR ''8'' else CHR ''9'']"
  by (auto simp: separator_iff separator_text_def lower_hex_def)

lemma separator_reads:
  assumes "separator s"
  shows "literal (separator_text s @ y) = map_option (apfst ((@) (take 3 s))) (literal y)"
proof -
  have "escape_of (tl (separator_text s @ y)) = Some (take 3 s, y)"
  proof -
    have "escape_of (CHR ''u'' # CHR ''2'' # CHR ''0'' # CHR ''2'' # c # y) = Some ([CHR 0xE2, CHR 0x80, d], y)"
      if "c = CHR ''8'' \<and> d = CHR 0xA8 \<or> c = CHR ''9'' \<and> d = CHR 0xA9" for c d
      using that by (auto simp: escape_of_def unicode_escape_def hex4_def hex_digit_def between_def encode_rune_def Let_def)
    from this [of "if s ! 2 = CHR 0xA8 then CHR ''8'' else CHR ''9''" "s ! 2"] assms
    show ?thesis by (auto simp: separator_text_of) (auto simp: separator_iff)
  qed
  then show ?thesis by (simp add: separator_text_def literal_escape)
qed

lemma separator_rune: "separator s \<Longrightarrow> rune_length s = Some 3"
  by (auto simp: separator_iff rune_length_def between_def)

lemma replacement_reads: "literal (replacement_text @ y) = map_option (apfst ((@) replacement)) (literal y)"
proof -
  have "escape_of (tl (replacement_text @ y)) = Some (replacement, y)"
    by (simp add: escape_of_def replacement_text_def unicode_escape_def hex4_def hex_digit_def between_def
        replacement_def Let_def)
  then show ?thesis by (simp add: replacement_text_def literal_escape)
qed

section \<open>Compact literals\<close>

lemma squash_plain:
  assumes "c \<noteq> CHR ''\"''" and "c \<noteq> CHR 0x5C" and "\<not> separator (c # r)" and "\<not> html_char c"
  shows "squash b Inside (c # r) = c # squash b Inside r"
  using assms by (simp add: squash.simps next_place_def)

lemma squash_quote [simp]: "squash b Inside (CHR ''\"'' # r) = CHR ''\"'' # squash b Outside r"
  by (simp add: squash.simps next_place_def separator_not html_char_def)

lemma squash_backslash [simp]: "squash b Inside (CHR 0x5C # r) = CHR 0x5C # squash b Escaped r"
  by (simp add: squash.simps next_place_def separator_not html_char_def)

lemma squash_html: "html_char c \<Longrightarrow> squash b Inside (c # r) = (if b then escaped_byte c else [c]) @ squash b Inside r"
  by (auto simp: squash.simps next_place_def separator_not html_char_def)

lemma squash_escaped: "c \<noteq> CHR 0xE2 \<Longrightarrow> \<not> html_char c \<Longrightarrow> squash b Escaped (c # r) = c # squash b Inside r"
  by (simp add: squash.simps next_place_def separator_not)

lemma squash_separator: "separator (c # r) \<Longrightarrow>
    squash b Inside (c # r) = (if b then separator_text (c # r) else c # take 2 r) @ squash b Inside (drop 2 r)"
  by (auto simp: separator_iff squash.simps next_place_def separator_not html_char_def)

lemma squash_cont: "list_all cont w \<Longrightarrow> squash b Inside (w @ r) = w @ squash b Inside r"
  by (induction w) (auto simp: squash_plain cont_not separator_not)

lemma takeWhile_cont_squash: "takeWhile cont (squash b Inside s) = takeWhile cont s"
proof (induction s)
  case (Cons c s)
  have e: "\<not> cont CHR 0x5C" "\<not> cont CHR ''\"''" "\<not> cont CHR 0xE2" "html_char c \<Longrightarrow> \<not> cont c"
    by (auto simp: cont_def between_def html_char_def)
  consider "cont c" | "c = CHR ''\"'' \<or> c = CHR 0x5C" | "html_char c" | "separator (c # s)"
    | "\<not> cont c" "c \<noteq> CHR ''\"''" "c \<noteq> CHR 0x5C" "\<not> separator (c # s)" "\<not> html_char c" by blast
  then show ?case
  proof cases
    case 1
    then show ?thesis using Cons cont_not [OF 1] by (simp add: squash_plain separator_not)
  next
    case 4
    then have "c = CHR 0xE2" by (auto simp: separator_iff)
    with 4 e show ?thesis by (simp add: squash_separator separator_text_def)
  qed (auto simp: e squash_html escaped_byte_def squash_plain)
qed (simp add: squash.simps)

text \<open>
  A lone high surrogate looks ahead: what follows it is a \<open>\u\<close> escape, but not of a low
  surrogate, or no such escape.
\<close>

definition not_low :: "string \<Rightarrow> bool" where
  "not_low s \<longleftrightarrow> (take 2 s = [CHR 0x5C, CHR ''u''] \<longrightarrow>
     (\<exists>m. hex4 (drop 2 s) = Some m \<and> \<not> (56320 \<le> m \<and> m \<le> 57343)))"

lemma hex_digit_plain: "hex_digit c = Some n \<Longrightarrow> c \<noteq> CHR ''\"'' \<and> c \<noteq> CHR 0x5C \<and> c \<noteq> CHR 0xE2 \<and> \<not> html_char c \<and> 32 \<le> code c"
  by (auto simp: hex_digit_def between_def html_char_def split: if_splits)

lemma hex4_take: "hex4 s = hex4 (take 4 s)"
  by (simp add: hex4_def split: list.split)

lemma hex4_digits:
  assumes "hex4 (a # b # c # d # r) = Some n"
  shows "hex_digit a \<noteq> None" and "hex_digit b \<noteq> None" and "hex_digit c \<noteq> None" and "hex_digit d \<noteq> None"
  using assms by (auto simp: hex4_def split: option.splits)

lemma hex4_SomeE:
  assumes "hex4 s = Some n"
  obtains a b c d r where "s = a # b # c # d # r" "\<forall>y. hex4 (a # b # c # d # y) = Some n"
proof -
  obtain a b c d r where s: "s = a # b # c # d # r"
    using assms by (auto simp: hex4_def split: list.splits)
  have "hex4 (a # b # c # d # y) = Some n" for y
    using assms hex4_take [of s] hex4_take [of "a # b # c # d # y"] by (simp add: s)
  with s that show thesis by blast
qed

lemma hex4_quote:
  assumes "length q < 4"
  shows "hex4 (q @ CHR ''\"'' # x) = None"
proof (rule ccontr)
  assume "hex4 (q @ CHR ''\"'' # x) \<noteq> None"
  then obtain n where h: "hex4 (q @ CHR ''\"'' # x) = Some n" by blast
  obtain a b c d r where e: "q @ CHR ''\"'' # x = a # b # c # d # r"
    by (rule hex4_SomeE [OF h])
  have "CHR ''\"'' \<in> {a, b, c, d}"
  proof -
    have n: "(a # b # c # d # r) ! length q = CHR ''\"''" unfolding e [symmetric] by simp
    consider "length q = 0" | "length q = 1" | "length q = 2" | "length q = 3" using assms by linarith
    then show ?thesis using n by cases simp_all
  qed
  moreover have "hex_digit CHR ''\"'' = None" by (simp add: hex_digit_def between_def)
  ultimately show False using hex4_digits [OF h [unfolded e]] by auto
qed

lemma hex4_squash:
  assumes "hex4 s = Some n"
  shows "take 4 (squash b Inside s) = take 4 s" "hex4 (squash b Inside s) = Some n"
proof -
  obtain x1 x2 x3 x4 r where s: "s = x1 # x2 # x3 # x4 # r"
    and h: "\<forall>y. hex4 (x1 # x2 # x3 # x4 # y) = Some n"
    using hex4_SomeE [OF assms] by blast
  have "squash b Inside s = x1 # x2 # x3 # x4 # squash b Inside r"
    using hex4_digits [OF h [rule_format]] by (auto simp: s squash_plain separator_not dest!: hex_digit_plain)
  then show "take 4 (squash b Inside s) = take 4 s" "hex4 (squash b Inside s) = Some n"
    using h by (simp_all add: s)
qed

lemma not_low_quote: "not_low (q @ CHR ''\"'' # x) \<longleftrightarrow> not_low (q @ CHR ''\"'' # y)"
proof (cases q)
  case (Cons a q1)
  show ?thesis
  proof (cases q1)
    case q: (Cons b q2)
    show ?thesis
    proof (cases "length q2 < 4")
      case False
      then have "hex4 (q2 @ CHR ''\"'' # x) = hex4 (q2 @ CHR ''\"'' # y)"
        using hex4_take [of "q2 @ CHR ''\"'' # x"] hex4_take [of "q2 @ CHR ''\"'' # y"] by simp
      then show ?thesis by (simp add: not_low_def Cons q)
    qed (simp add: not_low_def Cons q hex4_quote)
  qed (simp add: not_low_def Cons)
qed (simp add: not_low_def)

lemma not_low_squash:
  assumes "not_low z"
  shows "not_low (squash b Inside z)"
proof (cases z)
  case (Cons c z1)
  consider "c = CHR 0x5C" | "c = CHR ''\"''" | "separator z" | "html_char c"
    | "c \<noteq> CHR 0x5C" "c \<noteq> CHR ''\"''" "\<not> separator z" "\<not> html_char c" by blast
  then show ?thesis
  proof cases
    case 1
    show ?thesis
    proof (cases z1)
      case z1: (Cons e z2)
      show ?thesis
      proof (cases "e = CHR ''u''")
        case True
        with assms 1 obtain m where m: "hex4 z2 = Some m" "\<not> (56320 \<le> m \<and> m \<le> 57343)"
          by (auto simp: not_low_def Cons z1)
        have "squash b Inside z = [CHR 0x5C, CHR ''u''] @ squash b Inside z2"
          using 1 True by (simp add: Cons z1 squash_escaped html_char_def)
        with hex4_squash(2) [OF m(1)] m(2) show ?thesis by (simp add: not_low_def)
      next
        case False
        then show ?thesis using 1
          by (auto simp: not_low_def Cons z1 squash.simps [of b Escaped] escaped_byte_def separator_text_def)
      qed
    qed (use 1 in \<open>simp add: not_low_def Cons squash.simps(1)\<close>)
  next
    case 3
    then show ?thesis unfolding Cons
      by (auto simp: squash_separator not_low_def separator_text_of hex4_def hex_digit_def between_def)
        (auto simp: separator_iff)
  next
    case 4
    then have "code c < 128" "c \<noteq> CHR 0x5C" using html_char_code by (auto simp: html_char_def)
    with 4 escaped_byte_hex [of c "squash b Inside z1"] show ?thesis
      by (auto simp: Cons squash_html not_low_def escaped_byte_def)
  qed (auto simp: Cons not_low_def squash_plain)
qed (use assms in \<open>simp add: squash.simps\<close>)

text \<open>
  What an escape has to do with the text around it: it is made of printable characters that
  stay as they are, and only a lone high surrogate looks at what follows.
\<close>

definition escape_unit :: "bool \<Rightarrow> string \<Rightarrow> string \<Rightarrow> string \<Rightarrow> bool" where
  "escape_unit b e t r \<longleftrightarrow> (\<forall>y. squash b Escaped (e @ y) = e @ squash b Inside y) \<and>
     (\<forall>y. (not_low r \<longrightarrow> not_low y) \<longrightarrow> escape_of (e @ y) = Some (t, y)) \<and> list_all (\<lambda>c. 32 \<le> code c) e"

lemma hex4_unit:
  assumes "hex4 s = Some n"
  obtains x where "s = x @ drop 4 s" "length x = 4" "\<forall>y. hex4 (x @ y) = Some n"
    "\<forall>y. squash b Inside (x @ y) = x @ squash b Inside y" "list_all (\<lambda>c. 32 \<le> code c) x"
proof -
  obtain x1 x2 x3 x4 r where s: "s = x1 # x2 # x3 # x4 # r"
    and h: "\<forall>y. hex4 (x1 # x2 # x3 # x4 # y) = Some n"
    using hex4_SomeE [OF assms] by blast
  have d: "squash b Inside (x1 # x2 # x3 # x4 # y) = x1 # x2 # x3 # x4 # squash b Inside y" for y
    using hex4_digits [OF h [rule_format]] by (auto simp: squash_plain separator_not dest!: hex_digit_plain)
  have "list_all (\<lambda>c. 32 \<le> code c) [x1, x2, x3, x4]"
    using hex4_digits [OF h [rule_format]] by (auto dest!: hex_digit_plain)
  with s h d that [of "[x1, x2, x3, x4]"] show thesis by simp
qed

lemma simple_escape_unit:
  assumes "simple_escape c = Some t"
  shows "escape_unit b [c] t r"
proof -
  have c: "c \<noteq> CHR ''u''" "c \<noteq> CHR 0xE2" "\<not> html_char c" "32 \<le> code c"
    using assms by (auto simp: simple_escape_def html_char_def split: if_splits)
  with assms show ?thesis by (simp add: escape_unit_def squash_escaped escape_of_def)
qed

lemma unicode_escape_unit:
  assumes "unicode_escape s = Some (t, r)"
  shows "\<exists>e. s = e @ r \<and> escape_unit b (CHR ''u'' # e) t r"
proof -
  obtain n where n: "hex4 s = Some n" using assms by (auto simp: unicode_escape_def split: option.splits)
  obtain x where x: "s = x @ drop 4 s" "length x = 4" "\<forall>y. hex4 (x @ y) = Some n"
    "\<forall>y. squash b Inside (x @ y) = x @ squash b Inside y" "list_all (\<lambda>c. 32 \<le> code c) x"
    by (rule hex4_unit [OF n, of b])
  let ?r = "drop 4 s"
  have u: "squash b Escaped (CHR ''u'' # y) = CHR ''u'' # squash b Inside y" for y
    by (simp add: squash_escaped html_char_def)
  have four: "drop 4 (x @ y) = y" "take 4 (x @ y) = x" for y using x(2) by simp_all
  have high: "unicode_escape (x @ y) = (if n < 55296 \<or> 57343 < n then Some (encode_rune n, y)
      else if n < 56320 \<and> take 2 y = [CHR 0x5C, CHR ''u''] then
        (case hex4 (drop 2 y) of None \<Rightarrow> None
         | Some m \<Rightarrow> if 56320 \<le> m \<and> m \<le> 57343
             then Some (encode_rune (65536 + (n - 55296) * 1024 + (m - 56320)), drop 6 y) else Some (replacement, y))
      else Some (replacement, y))" for y
    using x(3) four by (simp add: unicode_escape_def Let_def)
  have s: "unicode_escape (x @ ?r) = Some (t, r)" using assms x(1) by simp
  show ?thesis
  proof (cases "55296 \<le> n \<and> n < 56320 \<and> \<not> not_low ?r")
    case False
    then have r: "r = ?r" and t: "(not_low ?r \<longrightarrow> not_low y) \<Longrightarrow> unicode_escape (x @ y) = Some (t, y)" for y
      using s high [of ?r] high [of y] by (auto simp: not_low_def split: if_splits option.splits)
    then have "escape_unit b (CHR ''u'' # x) t r"
      using x u by (auto simp: escape_unit_def escape_of_def)
    with x(1) r show ?thesis by blast
  next
    case True
    then obtain m where m: "take 2 ?r = [CHR 0x5C, CHR ''u'']" "hex4 (drop 2 ?r) = Some m" "56320 \<le> m" "m \<le> 57343"
      using s high [of ?r] by (auto simp: not_low_def split: option.splits)
    obtain z where z: "drop 2 ?r = z @ drop 4 (drop 2 ?r)" "length z = 4" "\<forall>y. hex4 (z @ y) = Some m"
      "\<forall>y. squash b Inside (z @ y) = z @ squash b Inside y" "list_all (\<lambda>c. 32 \<le> code c) z"
      by (rule hex4_unit [OF m(2), of b])
    let ?e = "x @ [CHR 0x5C, CHR ''u''] @ z"
    have r: "?r = [CHR 0x5C, CHR ''u''] @ z @ drop 6 ?r"
      using m(1) z(1) append_take_drop_id [of 2 ?r] by simp
    have t: "unicode_escape (?e @ y) = Some (encode_rune (65536 + (n - 55296) * 1024 + (m - 56320)), y)" for y
      using high [of "[CHR 0x5C, CHR ''u''] @ z @ y"] True m(3,4) z(2,3) by simp
    have "x @ ?r = ?e @ drop 6 ?r" using arg_cong [OF r, of "(@) x"] by (simp only: append_assoc)
    then have "s = ?e @ drop 6 ?r" by (rule trans [OF x(1)])
    moreover from this have "r = drop 6 ?r" "t = encode_rune (65536 + (n - 55296) * 1024 + (m - 56320))"
      using assms t [of "drop 6 ?r"] by simp_all
    moreover have "escape_unit b (CHR ''u'' # ?e) t r"
      using x z u t \<open>t = _\<close> by (auto simp: escape_unit_def escape_of_def)
    ultimately show ?thesis by blast
  qed
qed

lemma escape_of_unit:
  assumes "escape_of s = Some (t, r)"
  obtains e where "s = e @ r" "escape_unit b e t r"
proof (cases s)
  case (Cons c x)
  show thesis
  proof (cases "c = CHR ''u''")
    case True
    with assms Cons have "unicode_escape x = Some (t, r)" by (simp add: escape_of_def)
    from unicode_escape_unit [OF this, of b] show thesis using that Cons True by fastforce
  next
    case False
    with assms Cons have "simple_escape c = Some t" "r = x" by (auto simp: escape_of_def)
    then show thesis using that [of "[c]"] Cons simple_escape_unit by simp
  qed
qed (use assms in \<open>simp add: escape_of_def\<close>)

section \<open>A literal is read alike in its compact form\<close>

definition literal_unit :: "bool \<Rightarrow> string \<Rightarrow> string \<Rightarrow> string \<Rightarrow> bool" where
  "literal_unit b p q t \<longleftrightarrow>
     (\<forall>x. squash b Inside (p @ CHR ''\"'' # x) = q @ CHR ''\"'' # squash b Outside x) \<and>
     (\<forall>x. literal (q @ CHR ''\"'' # x) = Some (t, x)) \<and> list_all (\<lambda>c. 32 \<le> code c) q"

lemma literal_unitD:
  assumes "literal_unit b p q t"
  shows "squash b Inside (p @ CHR ''\"'' # x) = q @ CHR ''\"'' # squash b Outside x"
    and "literal (q @ CHR ''\"'' # x) = Some (t, x)" and "list_all (\<lambda>c. 32 \<le> code c) q"
  using assms unfolding literal_unit_def by blast+

lemma literal_unit_Nil: "literal_unit b [] [] []"
  by (simp add: literal_unit_def)

text \<open>A unit prepended to a literal.\<close>

lemma literal_unit_append:
  assumes "literal_unit b p q t"
    and "\<And>x. squash b Inside (a @ p @ CHR ''\"'' # x) = d @ squash b Inside (p @ CHR ''\"'' # x)"
    and "\<And>x. literal (d @ q @ CHR ''\"'' # x) = map_option (apfst ((@) u)) (literal (q @ CHR ''\"'' # x))"
    and "list_all (\<lambda>c. 32 \<le> code c) d"
  shows "literal_unit b (a @ p) (d @ q) (u @ t)"
  using assms literal_unitD [OF assms(1)] by (simp add: literal_unit_def)

lemma literal_unit_escape:
  assumes "literal_unit b p q t" and "escape_unit b e u (p @ CHR ''\"'' # r)"
  shows "literal_unit b (CHR 0x5C # e @ p) (CHR 0x5C # e @ q) (u @ t)"
proof -
  note p = literal_unitD [OF assms(1)]
  have "not_low (q @ CHR ''\"'' # y)" if "not_low (p @ CHR ''\"'' # r)" for y
    using not_low_squash [OF that, of b] not_low_quote unfolding p(1) by blast
  with assms(2) have "escape_of (e @ q @ CHR ''\"'' # y) = Some (u, q @ CHR ''\"'' # y)" for y
    by (simp add: escape_unit_def)
  with assms show ?thesis
    using literal_unit_append [OF assms(1), of "CHR 0x5C # e" "CHR 0x5C # e" u]
    by (simp add: escape_unit_def literal_escape)
qed

lemma literal_unit_byte:
  assumes "literal_unit b p q t" and "c \<noteq> CHR ''\"''" and "c \<noteq> CHR 0x5C" and "32 \<le> code c" and "code c < 128"
  shows "\<exists>d. literal_unit b (c # p) (d @ q) (c # t)"
proof (cases "html_char c \<and> b")
  case True
  have "list_all (\<lambda>x. 32 \<le> code x) (escaped_byte c)"
    using assms(5) by (rule escaped_byte_printable)
  with True have "literal_unit b ([c] @ p) (escaped_byte c @ q) ([c] @ t)"
    using assms(5) by (intro literal_unit_append [OF assms(1)]) (simp_all add: squash_html escaped_byte_reads)
  then show ?thesis by auto
next
  case False
  have "c \<noteq> CHR 0xE2" using assms(5) by auto
  with False assms have "squash b Inside (c # x) = c # squash b Inside x" for x
    by (cases "html_char c") (simp_all add: squash_plain squash_html separator_not)
  with assms have "literal_unit b ([c] @ p) ([c] @ q) ([c] @ t)"
    by (intro literal_unit_append [OF assms(1)]) (simp_all add: literal_plain rune_length_ascii)
  then show ?thesis by (metis append_Cons append_Nil)
qed

lemma literal_unit_rune:
  assumes "literal_unit b p q t" and "128 \<le> code c" and "rune_length (c # w @ z) = Some (Suc (length w))"
    and "list_all cont w"
  shows "\<exists>d. literal_unit b (c # w @ p) (d @ q) (c # w @ t)"
proof -
  have r: "rune_length (c # w @ y) = Some (Suc (length w))" for y by (rule rune_length_prefix [OF assms(3)])
  have c: "c \<noteq> CHR ''\"''" "c \<noteq> CHR 0x5C" "32 \<le> code c" "\<not> html_char c"
    using assms(2) html_char_code [of c] by auto
  show ?thesis
  proof (cases "separator (c # w) \<and> b")
    case True
    then have w: "length w = 2" "take 3 (c # w) = c # w" "separator (c # w @ y)" "separator_text (c # w @ y) = separator_text (c # w)" for y
      using separator_rune [of "c # w"] r [of "[]"] by (auto simp: separator_iff separator_text_def)
    have "list_all (\<lambda>x. 32 \<le> code x) (separator_text (c # w))"
      using True by (simp add: separator_text_of)
    then have "literal_unit b ((c # w) @ p) (separator_text (c # w) @ q) ((c # w) @ t)"
      using True w separator_reads [of "c # w"]
      by (intro literal_unit_append [OF assms(1)]) (simp_all add: squash_separator)
    then show ?thesis by auto
  next
    case False
    have s: "separator (c # w @ y) \<Longrightarrow> separator (c # w)" for y
      using separator_rune [of "c # w @ y"] r [of y] by (auto simp: separator_def)
    have q: "squash b Inside (c # w @ y) = c # w @ squash b Inside y" for y
    proof (cases "separator (c # w @ y)")
      case True
      then have "length w = 2" using separator_rune r by fastforce
      with True s False show ?thesis by (simp add: squash_separator)
    next
      case ns: False
      show ?thesis using c ns squash_cont [OF assms(4)] by (simp add: squash_plain)
    qed
    have "list_all (\<lambda>x. 32 \<le> code x) w" using assms(4) cont_not by (auto simp: list_all_iff)
    then have "literal_unit b ((c # w) @ p) ((c # w) @ q) ((c # w) @ t)"
      using c by (intro literal_unit_append [OF assms(1)]) (simp_all add: q literal_plain r)
    then show ?thesis by (metis append_Cons)
  qed
qed

lemma literal_unit_bad:
  assumes "literal_unit b p q t" and "128 \<le> code c" and "rune_length (c # p @ CHR ''\"'' # r) = None"
  shows "literal_unit b (c # p) (c # q) (replacement @ t)"
proof -
  have n: "rune_length (c # p @ CHR ''\"'' # x) = None" for x
    using assms(3) rune_length_quote by metis
  have c: "c \<noteq> CHR ''\"''" "c \<noteq> CHR 0x5C" "32 \<le> code c" "\<not> html_char c"
    using assms(2) html_char_code [of c] by auto
  have "takeWhile cont (q @ CHR ''\"'' # x) = takeWhile cont (p @ CHR ''\"'' # x)" for x
    using takeWhile_cont_squash [of b "p @ CHR ''\"'' # x"] literal_unitD(1) [OF assms(1)] by simp
  then have q: "rune_length (c # q @ CHR ''\"'' # x) = None" for x
    using n [of x] rune_length_cont by metis
  have ns: "\<not> separator (c # p @ CHR ''\"'' # x)" for x using separator_rune n by fastforce
  have "literal_unit b ([c] @ p) ([c] @ q) (replacement @ t)"
    using c ns q by (intro literal_unit_append [OF assms(1)]) (simp_all add: squash_plain literal_plain)
  then show ?thesis by simp
qed

theorem literal_squash:
  "literal s = Some (t, r) \<Longrightarrow> \<exists>p q. s = p @ CHR ''\"'' # r \<and> literal_unit b p q t"
proof (induction s arbitrary: t rule: length_induct)
  case (1 s)
  note IH = 1(1)[rule_format] and s0 = 1(2)
  show ?case
  proof (cases s)
    case (Cons c s1)
    consider "c = CHR ''\"''" | "c = CHR 0x5C" | "c \<noteq> CHR ''\"''" "c \<noteq> CHR 0x5C" "code c < 32"
      | "c \<noteq> CHR ''\"''" "c \<noteq> CHR 0x5C" "32 \<le> code c" by linarith
    then show ?thesis
    proof cases
      case 1
      with s0 Cons have "s = [] @ CHR ''\"'' # r" "t = []" by simp_all
      with literal_unit_Nil [of b] show ?thesis by metis
    next
      case 2
      with s0 Cons obtain u x t1 where e: "escape_of s1 = Some (u, x)" "literal x = Some (t1, r)" "t = u @ t1"
        by (auto simp: literal_escape split: option.splits)
      obtain p q where p: "x = p @ CHR ''\"'' # r" "literal_unit b p q t1"
        using IH [OF _ e(2)] escape_of_shorter [OF e(1)] Cons by auto
      obtain d where d: "s1 = d @ x" "escape_unit b d u x" by (rule escape_of_unit [OF e(1), of b])
      have "literal_unit b (CHR 0x5C # d @ p) (CHR 0x5C # d @ q) (u @ t1)"
        using literal_unit_escape [OF p(2)] d(2) unfolding p(1) by blast
      moreover have "s = (CHR 0x5C # d @ p) @ CHR ''\"'' # r" using Cons 2 d(1) p(1) by simp
      ultimately show ?thesis unfolding e(3) by blast
    next
      case 3
      with s0 Cons show ?thesis by (simp add: literal_control)
    next
      case 4
      show ?thesis
      proof (cases "rune_length (c # s1)")
        case None
        with s0 Cons 4 obtain t1 where e: "literal s1 = Some (t1, r)" "t = replacement @ t1"
          by (auto simp: literal_plain)
        obtain p q where p: "s1 = p @ CHR ''\"'' # r" "literal_unit b p q t1" using IH [OF _ e(1)] Cons by auto
        have "128 \<le> code c" using None rune_length_ascii [of c s1] by fastforce
        from literal_unit_bad [OF p(2) this] None p(1) have "literal_unit b (c # p) (c # q) t" by (simp add: e(2))
        with Cons p(1) show ?thesis by (metis append_Cons)
      next
        case (Some k)
        with s0 Cons 4 obtain t1 where e: "literal (drop (k - 1) s1) = Some (t1, r)" "t = c # take (k - 1) s1 @ t1"
          by (auto simp: literal_plain)
        obtain p q where p: "drop (k - 1) s1 = p @ CHR ''\"'' # r" "literal_unit b p q t1"
          using IH [OF _ e(1)] Cons by (auto simp: less_Suc_eq_le)
        have s: "s = (c # take (k - 1) s1 @ p) @ CHR ''\"'' # r"
          using Cons p(1) append_take_drop_id [of "k - 1" s1] by simp
        show ?thesis
        proof (cases "code c < 128")
          case True
          with Some have "k = 1" by (simp add: rune_length_ascii)
          with literal_unit_byte [OF p(2) 4 True] s e(2) show ?thesis by auto
        next
          case False
          obtain w x where w: "s1 = w @ x" "k = Suc (length w)" "list_all cont w"
            by (rule rune_length_run [OF Some]) (use False in auto)
          have "\<exists>d. literal_unit b (c # w @ p) (d @ q) (c # w @ t1)"
            by (rule literal_unit_rune [OF p(2) _ _ w(3)]) (use False Some w in auto)
          with s e(2) w show ?thesis by auto
        qed
      qed
    qed
  qed (use s0 in simp)
qed

section \<open>What the encoder writes is read back\<close>

text \<open>The text a string is taken for: what is not UTF-8 is replaced, byte by byte.\<close>

function valid_text :: "string \<Rightarrow> string" where
  "valid_text [] = []"
| "valid_text (c # r) = (case rune_length (c # r) of
       None \<Rightarrow> replacement @ valid_text r
     | Some k \<Rightarrow> c # take (k - 1) r @ valid_text (drop (k - 1) r))"
  by pat_completeness auto
termination by (relation "measure length") auto

declare valid_text.simps [simp del]

lemma valid_text_ascii: "list_all (\<lambda>c. code c < 128) s \<Longrightarrow> valid_text s = s"
  by (induction s) (simp_all add: valid_text.simps rune_length_ascii)

lemma ascii_text_reads:
  assumes "code c < 128"
  shows "literal (ascii_text c @ y) = map_option (apfst ((#) c)) (literal y)"
proof -
  consider "code c < 32 \<or> html_char c" | "c = CHR ''\"'' \<or> c = CHR 0x5C"
    | "32 \<le> code c" "c \<noteq> CHR ''\"''" "c \<noteq> CHR 0x5C" "\<not> html_char c" by linarith
  then show ?thesis
  proof cases
    case 1
    then show ?thesis
      using escaped_byte_reads [OF assms]
      by (auto simp: ascii_text_def literal_escape escape_of_def simple_escape_def html_char_def)
  next
    case 2
    then show ?thesis by (auto simp: ascii_text_def literal_escape escape_of_def simple_escape_def)
  next
    case 3
    with assms show ?thesis by (auto simp: ascii_text_def literal_plain rune_length_ascii)
  qed
qed

lemma quoted_reads: "literal (quoted s @ CHR ''\"'' # x) = Some (valid_text s, x)"
proof (induction s rule: quoted.induct)
  case (2 c r)
  show ?case
  proof (cases "code c < 128")
    case True
    with 2(1) show ?thesis by (simp add: quoted.simps valid_text.simps ascii_text_reads rune_length_ascii)
  next
    case False
    show ?thesis
    proof (cases "rune_length (c # r)")
      case None
      with 2(2) [OF False None] False show ?thesis
        by (simp add: quoted.simps valid_text.simps replacement_reads)
    next
      case (Some k)
      have ih: "literal (quoted (drop (k - 1) r) @ CHR ''\"'' # x) = Some (valid_text (drop (k - 1) r), x)"
        by (rule 2(3) [OF False Some])
      show ?thesis
      proof (cases "separator (c # r)")
        case True
        then have "k = 3" using separator_rune Some by fastforce
        with True False Some ih separator_reads [OF True] show ?thesis
          by (simp add: quoted.simps valid_text.simps)
      next
        case ns: False
        have "rune_length (c # take (k - 1) r @ y) = Some k" for y
        proof -
          obtain w z where w: "r = w @ z" "k = Suc (length w)" by (rule rune_length_run [OF Some]) (use False in auto)
          with Some rune_length_prefix [of c w z y] show ?thesis by simp
        qed
        moreover have "c \<noteq> CHR ''\"''" "c \<noteq> CHR 0x5C" "32 \<le> code c" using False by auto
        moreover have "k - 1 \<le> length r" using rune_length_at_most [OF Some] False by simp
        ultimately show ?thesis using False Some ns ih
          by (simp add: quoted.simps valid_text.simps literal_plain)
      qed
    qed
  qed
qed (simp add: quoted.simps valid_text.simps)

end
