(* ===== verification/Encode_Values.thy ===== *)
theory Encode_Values
  imports Encode_Strings
begin

text \<open>
  The compact form of a JSON text means what the text means: whatever value stands in it is
  read from its compact form too, with the raw texts of the members compact as well, and
  whatever follows. With the flag off this says that reading a value looks at the text of that
  value only.
\<close>

section \<open>Pieces of a text\<close>

text \<open>The piece \<open>p\<close> of a text between tokens has the compact form \<open>q\<close>, which is printable.\<close>

definition piece :: "bool \<Rightarrow> string \<Rightarrow> string \<Rightarrow> bool" where
  "piece b p q \<longleftrightarrow> (\<forall>y. squash b Outside (p @ y) = q @ squash b Outside y) \<and>
     (b \<longrightarrow> list_all (\<lambda>c. 32 \<le> code c) q)"

lemma squash_Nil [simp]: "squash b p [] = []"
  by (simp add: squash.simps)

lemma piece_squash: "piece b p q \<Longrightarrow> squash b Outside p = q"
  by (metis append_Nil2 piece_def squash_Nil)

lemma piece_append: "piece b p q \<Longrightarrow> piece b p' q' \<Longrightarrow> piece b (p @ p') (q @ q')"
  by (auto simp: piece_def)

lemma piece_Nil [simp]: "piece b [] []"
  by (simp add: piece_def)

definition token_char :: "char \<Rightarrow> bool" where
  "token_char c \<longleftrightarrow> c \<noteq> CHR ''\"'' \<and> c \<noteq> CHR 0xE2 \<and> \<not> html_char c \<and> \<not> is_space c \<and> 32 \<le> code c"

lemma piece_Cons: "token_char c \<Longrightarrow> piece b p q \<Longrightarrow> piece b (c # p) (c # q)"
  by (auto simp: piece_def token_char_def squash.simps next_place_def separator_not)

lemma piece_tokens: "list_all token_char p \<Longrightarrow> piece b p p"
  by (induction p) (auto intro: piece_Cons)

lemma token_chars [simp]:
  "token_char CHR ''[''" "token_char CHR '']''" "token_char CHR ''{''" "token_char CHR ''}''"
  "token_char CHR '',''" "token_char CHR '':''"
  by (simp_all add: token_char_def html_char_def is_space_def)

definition spaces :: "bool \<Rightarrow> string \<Rightarrow> string" where
  "spaces b w = (if b then [] else w)"

lemma piece_spaces: "list_all is_space w \<Longrightarrow> piece b w (spaces b w)"
proof (induction w)
  case (Cons c w)
  then have "c \<noteq> CHR ''\"''" "\<not> html_char c" "is_space c"
    by (auto simp: is_space_def html_char_def)
  with Cons show ?case by (auto simp: piece_def spaces_def squash.simps next_place_def)
qed (simp add: spaces_def)

lemma piece_literal:
  "literal_unit b p q t \<Longrightarrow> piece b (CHR ''\"'' # p @ [CHR ''\"'']) (CHR ''\"'' # q @ [CHR ''\"''])"
  by (simp add: piece_def squash.simps(2) [of b Outside] next_place_def separator_not html_char_def is_space_def
      literal_unitD)

lemma skip_split: "\<exists>w. s = w @ skip s \<and> list_all is_space w"
  by (metis list_all_iff set_takeWhileD skip_def takeWhile_dropWhile_id)

lemma skip_spaces: "list_all is_space w \<Longrightarrow> skip (w @ y) = skip y"
  by (induction w) (simp_all add: skip_def)

lemma skip_spaces' [simp]: "list_all is_space w \<Longrightarrow> skip (spaces b w @ y) = skip y"
  by (simp add: spaces_def skip_spaces)

lemma skip_id: "y = c # z \<Longrightarrow> \<not> is_space c \<Longrightarrow> skip y = y"
  by (simp add: skip_def)

section \<open>Numbers\<close>

definition number_char :: "char \<Rightarrow> bool" where
  "number_char c \<longleftrightarrow> is_digit c \<or> c \<in> set ''.eE+-''"

definition stops :: "string \<Rightarrow> bool" where
  "stops y \<longleftrightarrow> (y = [] \<or> \<not> number_char (hd y))"

lemma stops_simps [simp]: "stops []" "stops (c # y) \<longleftrightarrow> \<not> number_char c"
  by (simp_all add: stops_def)

lemma not_number_char [simp]: "\<not> number_char CHR '',''" "\<not> number_char CHR '']''" "\<not> number_char CHR ''}''"
  "is_space c \<Longrightarrow> \<not> number_char c"
  by (auto simp: number_char_def is_digit_def between_def is_space_def)

lemma stops_spaces: "list_all is_space w \<Longrightarrow> \<not> number_char c \<Longrightarrow> stops (spaces b w @ c # y)"
  by (cases w) (auto simp: spaces_def)

lemma number_char_token: "number_char c \<Longrightarrow> token_char c"
  by (auto simp: number_char_def token_char_def is_digit_def between_def html_char_def is_space_def)

lemma digits_then_local:
  "\<not> is_digit (hd y) \<or> y = [] \<Longrightarrow> list_all is_digit l \<Longrightarrow> digits_then (l @ y) = (l, y)"
  by (cases y) (auto simp: digits_then_def list_all_iff takeWhile_append2 dropWhile_append2)

lemma digits_then_all: "list_all is_digit l \<Longrightarrow> digits_then l = (l, [])"
  using digits_then_local [of "[]" l] by simp

lemma number_int_local:
  assumes "number_int s = Some (l, r)"
  shows "s = l @ r \<and> l \<noteq> [] \<and> list_all is_digit l \<and> (\<forall>y. y = [] \<or> \<not> is_digit (hd y) \<longrightarrow> number_int (l @ y) = Some (l, y))"
proof (cases s)
  case (Cons c x)
  show ?thesis
  proof (cases "c = CHR ''0''")
    case True
    with assms Cons show ?thesis by (auto simp: number_int_def is_digit_def between_def)
  next
    case False
    with assms Cons have c: "is_digit c" "digits_then s = (l, r)" by (auto simp: number_int_def split: if_splits)
    then have s: "s = l @ r" "list_all is_digit l"
      by (auto simp: digits_then_def list_all_iff dest: set_takeWhileD)
    obtain l' where l: "l = c # l'" using c Cons by (auto simp: digits_then_def)
    with s False show ?thesis using digits_then_local [of _ l] digits_then_all [of l] by (auto simp: number_int_def)
  qed
qed (use assms in \<open>simp add: number_int_def\<close>)

lemma number_frac_local:
  assumes "number_frac s = Some (l, r)"
  shows "s = l @ r \<and> list_all number_char l \<and> (l \<noteq> [] \<longrightarrow> hd l = CHR ''.'') \<and>
    (\<forall>y. y = [] \<or> \<not> is_digit (hd y) \<and> (l = [] \<longrightarrow> hd y \<noteq> CHR ''.'') \<longrightarrow> number_frac (l @ y) = Some (l, y))"
proof (cases s)
  case (Cons c x)
  show ?thesis
  proof (cases "c = CHR ''.''")
    case True
    with assms Cons obtain l' where l: "digits_then x = (l', r)" "l' \<noteq> []" "l = c # l'"
      by (auto simp: number_frac_def prod_eq_iff split: if_splits)
    then have "x = l' @ r" "list_all is_digit l'"
      by (auto simp: digits_then_def list_all_iff dest: set_takeWhileD)
    with l True Cons show ?thesis using digits_then_local [of _ l'] digits_then_all [of l']
      by (auto simp: number_frac_def number_char_def list_all_iff)
  next
    case False
    with assms Cons show ?thesis by (auto simp: number_frac_def split: list.split)
  qed
qed (use assms in \<open>auto simp: number_frac_def split: list.split\<close>)

lemma number_exp_local:
  assumes "number_exp s = Some (l, r)"
  shows "s = l @ r \<and> list_all number_char l \<and> (l \<noteq> [] \<longrightarrow> hd l \<in> set ''eE'') \<and>
    (\<forall>y. y = [] \<or> \<not> is_digit (hd y) \<and> (l = [] \<longrightarrow> hd y \<notin> set ''eE'') \<longrightarrow> number_exp (l @ y) = Some (l, y))"
proof (cases s)
  case (Cons c x)
  show ?thesis
  proof (cases "c = CHR ''e'' \<or> c = CHR ''E''")
    case True
    define sg where "sg = (case x of z # _ \<Rightarrow> if z = CHR ''+'' \<or> z = CHR ''-'' then [z] else [] | [] \<Rightarrow> [])"
    obtain l' where l: "digits_then (drop (length sg) x) = (l', r)" "l' \<noteq> []" "l = c # sg @ l'"
      using assms True Cons by (auto simp: number_exp_def sg_def [symmetric] Let_def prod_eq_iff split: if_splits)
    then have d: "drop (length sg) x = l' @ r" "list_all is_digit l'"
      by (auto simp: digits_then_def list_all_iff dest: set_takeWhileD)
    have x: "x = sg @ l' @ r" using d(1) by (cases x) (auto simp: sg_def split: if_splits)
    have sg: "list_all number_char sg" by (auto simp: sg_def number_char_def split: list.split)
    have "(case l' @ y of z # _ \<Rightarrow> if z = CHR ''+'' \<or> z = CHR ''-'' then [z] else [] | [] \<Rightarrow> []) = []" for y
      using l(2) d(2) by (cases l') (auto simp: is_digit_def between_def)
    then have "(case sg @ l' @ y of z # _ \<Rightarrow> if z = CHR ''+'' \<or> z = CHR ''-'' then [z] else [] | [] \<Rightarrow> []) = sg" for y
      by (auto simp: sg_def split: list.splits)
    moreover have "digits_then (l' @ y) = (l', y)" if "y = [] \<or> \<not> is_digit (hd y)" for y
      using digits_then_local [OF _ d(2), of y] that by blast
    ultimately have "number_exp (c # sg @ l' @ y) = Some (l, y)" if "y = [] \<or> \<not> is_digit (hd y)" for y
      using True l that by (simp add: number_exp_def Let_def)
    with True Cons x l sg d show ?thesis
      by (auto simp: number_char_def list_all_iff)
  next
    case False
    with assms Cons show ?thesis by (auto simp: number_exp_def split: list.split)
  qed
qed (use assms in \<open>auto simp: number_exp_def split: list.split\<close>)

lemma number_literal_local:
  assumes "number_literal s = Some (l, r)"
  shows "s = l @ r \<and> l \<noteq> [] \<and> list_all number_char l \<and> (\<forall>y. stops y \<longrightarrow> number_literal (l @ y) = Some (l, y))"
proof -
  define sg where "sg = (case s of x # _ \<Rightarrow> if x = CHR ''-'' then [x] else [] | [] \<Rightarrow> [])"
  obtain a s1 b s2 c where 1: "number_int (drop (length sg) s) = Some (a, s1)"
    and 2: "number_frac s1 = Some (b, s2)" and 3: "number_exp s2 = Some (c, r)" and l: "l = sg @ a @ b @ c"
    using assms by (auto simp: number_literal_def sg_def [symmetric] Let_def bind_eq_Some_conv)
  note i = number_int_local [OF 1] and f = number_frac_local [OF 2] and e = number_exp_local [OF 3]
  have s: "s = sg @ a @ b @ c @ r"
    using i f e by (cases s) (auto simp: sg_def split: if_splits)
  have n: "list_all number_char l"
    using i f e by (auto simp: l sg_def number_char_def list_all_iff split: list.split)
  have "number_literal (l @ y) = Some (l, y)" if y: "stops y" for y
  proof -
    have g: "(case l @ y of x # _ \<Rightarrow> if x = CHR ''-'' then [x] else [] | [] \<Rightarrow> []) = sg"
      using i by (cases a) (auto simp: l sg_def is_digit_def between_def split: list.splits)
    have y': "y = [] \<or> \<not> is_digit (hd y) \<and> hd y \<noteq> CHR ''.'' \<and> hd y \<notin> set ''eE''"
      using y by (auto simp: stops_def number_char_def)
    have nd: "\<not> is_digit CHR ''.''" "\<not> is_digit CHR ''e''" "\<not> is_digit CHR ''E''"
      by (simp_all add: is_digit_def between_def)
    have "number_exp (c @ y) = Some (c, y)" using e y' by auto
    moreover have "number_frac (b @ c @ y) = Some (b, c @ y)"
      using f e y' nd by (cases c) auto
    moreover have "number_int (a @ b @ c @ y) = Some (a, b @ c @ y)"
      using i f e y' nd by (cases b; cases c) auto
    ultimately show ?thesis using g by (simp add: number_literal_def Let_def l)
  qed
  with s n i show ?thesis by (simp add: l)
qed

section \<open>Values\<close>

fun squash_value :: "bool \<Rightarrow> json \<Rightarrow> json" where
  "squash_value b (J_arr vs) = J_arr (map (squash_value b) vs)"
| "squash_value b (J_obj ms) = J_obj (map (\<lambda>(name, t, v). (name, squash b Outside t, squash_value b v)) ms)"
| "squash_value b v = v"

definition squash_member :: "bool \<Rightarrow> string \<times> string \<times> json \<Rightarrow> string \<times> string \<times> json" where
  "squash_member b = (\<lambda>(name, t, v). (name, squash b Outside t, squash_value b v))"

text \<open>A reader that takes the same, up to \<open>h\<close>, from the compact form of what it takes.\<close>

definition local_reader :: "bool \<Rightarrow> (string \<Rightarrow> ('a \<times> string) option) \<Rightarrow> ('a \<Rightarrow> 'a) \<Rightarrow> bool" where
  "local_reader b P h \<longleftrightarrow> (\<forall>s v r. P s = Some (v, r) \<longrightarrow>
     (\<exists>p q. s = p @ r \<and> piece b p q \<and> (\<forall>y. stops y \<longrightarrow> P (q @ y) = Some (h v, y))))"

lemma local_readerE:
  assumes "local_reader b P h" and "P s = Some (v, r)"
  obtains p q where "s = p @ r" "piece b p q" "\<forall>y. stops y \<longrightarrow> P (q @ y) = Some (h v, y)"
  using assms unfolding local_reader_def by blast

text \<open>No value starts with a space or a closing bracket.\<close>

definition begins :: "string \<Rightarrow> bool" where
  "begins s \<longleftrightarrow> (\<exists>c x. s = c # x \<and> \<not> is_space c \<and> c \<noteq> CHR '']'')"

lemma begins_value:
  assumes "parse_value n d s = Some (v, r)"
  shows "begins s"
proof -
  obtain m where n: "n = Suc m" using assms by (cases n) simp_all
  obtain c x where s: "s = c # x" using assms n by (cases s) simp_all
  have False if "is_space c \<or> c = CHR '']''"
  proof -
    have c: "c \<noteq> CHR ''n''" "c \<noteq> CHR ''t''" "c \<noteq> CHR ''f''" "c \<noteq> CHR ''\"''" "c \<noteq> CHR ''[''" "c \<noteq> CHR ''{''"
      "c \<noteq> CHR ''-''" "c \<noteq> CHR ''0''" "\<not> is_digit c"
      using that by (auto simp: is_space_def is_digit_def between_def)
    then have "number_literal s = None" by (simp add: s number_literal_def number_int_def)
    with c assms show False unfolding n s parse_value_scalar [OF c(5,6)] by (simp add: scalar_def)
  qed
  with s show ?thesis by (auto simp: begins_def)
qed

lemma begins_items: "parse_items n d s = Some (v, r) \<Longrightarrow> begins s"
  by (cases n) (auto split: option.splits prod.splits dest: begins_value)

lemma begins_skip: "begins s \<Longrightarrow> skip s = s"
  by (auto simp: begins_def skip_def)

definition bracketed :: "char \<Rightarrow> ('a list \<Rightarrow> json) \<Rightarrow> (string \<Rightarrow> ('a list \<times> string) option) \<Rightarrow> string \<Rightarrow> (json \<times> string) option" where
  "bracketed e J P t = (case skip t of
     x # r \<Rightarrow> if x = e then Some (J [], r) else map_option (apfst J) (P (skip t))
   | [] \<Rightarrow> None)"

lemma bracketed_local:
  assumes "local_reader b P h" and "token_char e" and "\<not> is_space e"
    and "\<And>s v r. P s = Some (v, r) \<Longrightarrow> \<exists>c x. s = c # x \<and> \<not> is_space c \<and> c \<noteq> e"
    and "\<And>vs. G (J vs) = J (h vs)" and "h [] = []"
  shows "local_reader b (bracketed e J P) G"
  unfolding local_reader_def
proof (intro allI impI)
  fix s v r
  assume a: "bracketed e J P s = Some (v, r)"
  obtain w where w: "s = w @ skip s" "list_all is_space w" using skip_split by blast
  obtain x s1 where x: "skip s = x # s1" using a by (cases "skip s") (auto simp: bracketed_def)
  show "\<exists>p q. s = p @ r \<and> piece b p q \<and> (\<forall>y. stops y \<longrightarrow> bracketed e J P (q @ y) = Some (G v, y))"
  proof (cases "x = e")
    case True
    with a x have v: "v = J []" "r = s1" by (auto simp: bracketed_def)
    have "piece b (w @ [e]) (spaces b w @ [e])"
      by (intro piece_append piece_spaces piece_tokens) (use w assms(2) in simp_all)
    moreover have "bracketed e J P ((spaces b w @ [e]) @ y) = Some (G v, y)" for y
      using w assms(3,5,6) by (simp add: bracketed_def v skip_id)
    ultimately show ?thesis using w(1) x True v(2) by (metis append.assoc append_Cons append_Nil)
  next
    case False
    with a x obtain vs where v: "P (skip s) = Some (vs, r)" "v = J vs" by (auto simp: bracketed_def)
    obtain p q where p: "skip s = p @ r" "piece b p q" "\<forall>y. stops y \<longrightarrow> P (q @ y) = Some (h vs, y)"
      using local_readerE [OF assms(1) v(1)] by blast
    have "piece b (w @ p) (spaces b w @ q)"
      by (intro piece_append piece_spaces) (use w p in simp_all)
    moreover have "bracketed e J P ((spaces b w @ q) @ y) = Some (G v, y)" if "stops y" for y
    proof -
      have pq: "P (q @ y) = Some (h vs, y)" using p(3) that by blast
      obtain c x where c: "q @ y = c # x" "\<not> is_space c" "c \<noteq> e" using assms(4) [OF pq] by blast
      then have k: "skip (spaces b w @ q @ y) = c # x" using w(2) by (simp add: skip_id)
      with c pq show ?thesis by (simp add: bracketed_def v assms(5))
    qed
    ultimately show ?thesis using w(1) p(1) by (metis append.assoc)
  qed
qed

lemma scalar_local:
  assumes "scalar s = Some (v, r)"
  shows "\<exists>p q. s = p @ r \<and> piece b p q \<and> (\<forall>y. stops y \<longrightarrow> scalar (q @ y) = Some (squash_value b v, y)) \<and>
    (\<exists>c x. q = c # x \<and> c \<noteq> CHR ''['' \<and> c \<noteq> CHR ''{'')"
proof -
  have word: ?thesis
    if "take k s = u" "r = drop k s" "list_all token_char u" "u = c # x" "c \<noteq> CHR ''[''" "c \<noteq> CHR ''{''"
      "\<And>y. scalar (u @ y) = Some (squash_value b v, y)" for k u c x
  proof -
    have "s = u @ r" using that(1,2) by (metis append_take_drop_id)
    with that piece_tokens [OF that(3)] show ?thesis by blast
  qed
  have t: "list_all token_char ''null''" "list_all token_char ''true''" "list_all token_char ''false''"
    by (simp_all add: token_char_def html_char_def is_space_def)
  obtain c x where s: "s = c # x" using assms by (cases s) (auto simp: scalar_def)
  consider "take 4 s = ''null''" "v = J_null" "r = drop 4 s" | "take 4 s = ''true''" "v = J_bool True" "r = drop 4 s"
    | "take 5 s = ''false''" "v = J_bool False" "r = drop 5 s"
    | u where "c = CHR ''\"''" "literal x = Some (u, r)" "v = J_str u"
    | l where "number_literal s = Some (l, r)" "v = J_num l"
    using assms by (auto simp: scalar_def s string_body_literal split: if_splits)
  then show ?thesis
  proof cases
    case 1
    then show ?thesis using t(1) by (intro word [of 4 "''null''"]) (auto simp: scalar_def)
  next
    case 2
    then show ?thesis using t(2) by (intro word [of 4 "''true''"]) (auto simp: scalar_def)
  next
    case 3
    then show ?thesis using t(3) by (intro word [of 5 "''false''"]) (auto simp: scalar_def)
  next
    case 4
    obtain p q where p: "x = p @ CHR ''\"'' # r" "literal_unit b p q u" using literal_squash [OF 4(2)] by blast
    have "scalar ((CHR ''\"'' # q @ [CHR ''\"'']) @ y) = Some (squash_value b v, y)" for y
      using literal_unitD(2) [OF p(2)] by (simp add: scalar_def string_body_literal 4)
    with piece_literal [OF p(2)] p(1) s 4(1) show ?thesis
      by (intro exI [of _ "CHR ''\"'' # p @ [CHR ''\"'']"] exI [of _ "CHR ''\"'' # q @ [CHR ''\"'']"]) auto
  next
    case 5
    note l = number_literal_local [OF 5(1)]
    then obtain e z where e: "l = e # z" "number_char e" by (cases l) auto
    then have ne: "e \<noteq> CHR ''n''" "e \<noteq> CHR ''t''" "e \<noteq> CHR ''f''" "e \<noteq> CHR ''\"''" "e \<noteq> CHR ''[''" "e \<noteq> CHR ''{''"
      by (auto simp: number_char_def is_digit_def between_def)
    have "scalar (l @ y) = Some (squash_value b v, y)" if "stops y" for y
      using l that ne by (simp add: scalar_def e 5(2))
    moreover have "piece b l l" using l by (intro piece_tokens) (auto simp: list_all_iff number_char_token)
    ultimately show ?thesis using l e ne by blast
  qed
qed

lemma parse_value_bracketed:
  "parse_value (Suc n) d (CHR ''['' # t) = (if d = 0 then None else bracketed CHR '']'' J_arr (parse_items n (d - 1)) t)"
  "parse_value (Suc n) d (CHR ''{'' # t) = (if d = 0 then None else bracketed CHR ''}'' J_obj (parse_members n (d - 1)) t)"
  by (simp_all add: bracketed_def del: parse_value.simps add: parse_value_array parse_value_object)

lemma begins_members: "parse_members n d s = Some (v, r) \<Longrightarrow> \<exists>x. s = CHR ''\"'' # x"
  by (cases n; cases s) (auto split: if_splits)

lemma squash_value_obj: "squash_value b (J_obj ms) = J_obj (map (squash_member b) ms)"
  by (simp add: squash_member_def)

lemma value_local:
  assumes "\<And>d. local_reader b (parse_items n d) (map (squash_value b))"
    and "\<And>d. local_reader b (parse_members n d) (map (squash_member b))"
  shows "local_reader b (parse_value (Suc n) d) (squash_value b)"
  unfolding local_reader_def
proof (intro allI impI)
  fix s v r
  assume a: "parse_value (Suc n) d s = Some (v, r)"
  then obtain c t where s: "s = c # t" by (cases s) simp_all
  have inner: "\<exists>p q. s = p @ r \<and> piece b p q \<and> (\<forall>y. stops y \<longrightarrow> parse_value (Suc n) d (q @ y) = Some (squash_value b v, y))"
    if "local_reader b P (squash_value b)" "token_char c" "d \<noteq> 0" "\<And>x. parse_value (Suc n) d (c # x) = P x" for P
  proof -
    note P = that
    from a have "P t = Some (v, r)" unfolding s P(4) .
    then obtain p q where p: "t = p @ r" "piece b p q" "\<forall>y. stops y \<longrightarrow> P (q @ y) = Some (squash_value b v, y)"
      using local_readerE [OF P(1)] by blast
    have "parse_value (Suc n) d ((c # q) @ y) = Some (squash_value b v, y)" if "stops y" for y
      using p(3) that unfolding append_Cons P(4) by blast
    with piece_Cons [OF P(2) p(2)] p(1) s show ?thesis by (metis append_Cons)
  qed
  have d: "c = CHR ''['' \<or> c = CHR ''{'' \<Longrightarrow> d \<noteq> 0" using a s by auto
  consider "c = CHR ''[''" | "c = CHR ''{''" | "c \<noteq> CHR ''[''" "c \<noteq> CHR ''{''" by blast
  then show "\<exists>p q. s = p @ r \<and> piece b p q \<and> (\<forall>y. stops y \<longrightarrow> parse_value (Suc n) d (q @ y) = Some (squash_value b v, y))"
  proof cases
    case 1
    have "local_reader b (bracketed CHR '']'' J_arr (parse_items n (d - 1))) (squash_value b)"
      by (rule bracketed_local [OF assms(1)]) (auto simp: is_space_def begins_def dest!: begins_items)
    then show ?thesis
      by (rule inner) (use 1 d in \<open>simp_all add: parse_value_bracketed del: parse_value.simps\<close>)
  next
    case 2
    have "local_reader b (bracketed CHR ''}'' J_obj (parse_members n (d - 1))) (squash_value b)"
    proof (rule bracketed_local [OF assms(2)])
      show "\<exists>c x. s = c # x \<and> \<not> is_space c \<and> c \<noteq> CHR ''}''" if m: "parse_members n (d - 1) s = Some (v, r)" for s v r
      proof -
        obtain x where "s = CHR ''\"'' # x" using begins_members [OF m] by blast
        then show ?thesis by (simp add: is_space_def)
      qed
    qed (simp_all add: is_space_def squash_member_def)
    then show ?thesis
      by (rule inner) (use 2 d in \<open>simp_all add: parse_value_bracketed del: parse_value.simps\<close>)
  next
    case 3
    from a have "scalar s = Some (v, r)" unfolding s parse_value_scalar [OF 3] .
    from scalar_local [OF this, of b] obtain p q e z where q: "s = p @ r" "piece b p q"
      "\<forall>y. stops y \<longrightarrow> scalar (q @ y) = Some (squash_value b v, y)" "q = e # z" "e \<noteq> CHR ''[''" "e \<noteq> CHR ''{''"
      by blast
    have "parse_value (Suc n) d (q @ y) = scalar (q @ y)" for y
      unfolding q(4) append_Cons by (rule parse_value_scalar [OF q(5,6)])
    with q show ?thesis by metis
  qed
qed

lemma items_local:
  assumes "\<And>d. local_reader b (parse_value n d) (squash_value b)"
    and "\<And>d. local_reader b (parse_items n d) (map (squash_value b))"
  shows "local_reader b (parse_items (Suc n) d) (map (squash_value b))"
  unfolding local_reader_def
proof (intro allI impI)
  fix s vs r
  assume a: "parse_items (Suc n) d s = Some (vs, r)"
  obtain v s1 where v: "parse_value n d s = Some (v, s1)" using a by (auto split: option.splits)
  obtain p1 q1 where p1: "s = p1 @ s1" "piece b p1 q1"
    "\<forall>y. stops y \<longrightarrow> parse_value n d (q1 @ y) = Some (squash_value b v, y)"
    using local_readerE [OF assms(1) v] by blast
  obtain w where w: "s1 = w @ skip s1" "list_all is_space w" using skip_split by blast
  obtain c s2 where c: "skip s1 = c # s2" using a v by (cases "skip s1") auto
  have c': "c = CHR '']'' \<or> c = CHR '',''" using a v c by (auto split: if_splits)
  then have nc: "\<not> number_char c" "token_char c" "\<not> is_space c" by (auto simp: is_space_def)
  have first: "parse_items (Suc n) d (q1 @ spaces b w @ c # y) = (if c = CHR '']'' then Some ([squash_value b v], y)
      else map_option (apfst ((#) (squash_value b v))) (parse_items n d (skip y)))" for y
  proof -
    have "parse_value n d (q1 @ spaces b w @ c # y) = Some (squash_value b v, spaces b w @ c # y)"
      using p1(3) stops_spaces [OF w(2) nc(1)] by blast
    moreover have "skip (spaces b w @ c # y) = c # y" using w(2) nc(3) by (simp add: skip_id)
    ultimately show ?thesis using c' by auto
  qed
  have pw: "piece b (p1 @ w @ [c]) (q1 @ spaces b w @ [c])"
    by (intro piece_append piece_spaces piece_tokens) (use p1 w nc in simp_all)
  have s: "s = p1 @ w @ c # s2" using p1(1) w(1) c by metis
  show "\<exists>p q. s = p @ r \<and> piece b p q \<and>
      (\<forall>y. stops y \<longrightarrow> parse_items (Suc n) d (q @ y) = Some (map (squash_value b) vs, y))"
  proof (cases "c = CHR '']''")
    case True
    with a v c have "vs = [v]" "r = s2" by simp_all
    then have "s = (p1 @ w @ [c]) @ r"
      "parse_items (Suc n) d ((q1 @ spaces b w @ [c]) @ y) = Some (map (squash_value b) vs, y)" for y
      using first [of y] True s by (simp_all del: parse_items.simps)
    with pw show ?thesis by blast
  next
    case False
    with a v c obtain ws where ws: "parse_items n d (skip s2) = Some (ws, r)" "vs = v # ws"
      by (auto split: if_splits)
    obtain p2 q2 where p2: "skip s2 = p2 @ r" "piece b p2 q2"
      "\<forall>y. stops y \<longrightarrow> parse_items n d (q2 @ y) = Some (map (squash_value b) ws, y)"
      using local_readerE [OF assms(2) ws(1)] by blast
    obtain u where u: "s2 = u @ skip s2" "list_all is_space u" using skip_split by blast
    have "piece b ((p1 @ w @ [c]) @ u @ p2) ((q1 @ spaces b w @ [c]) @ spaces b u @ q2)"
      by (intro piece_append [OF pw] piece_append piece_spaces u p2)
    moreover have "parse_items (Suc n) d (((q1 @ spaces b w @ [c]) @ spaces b u @ q2) @ y) = Some (map (squash_value b) vs, y)"
      if "stops y" for y
    proof -
      have i: "parse_items n d (q2 @ y) = Some (map (squash_value b) ws, y)" using p2(3) that by blast
      then have "skip (spaces b u @ q2 @ y) = q2 @ y" using u(2) begins_skip [OF begins_items] by simp
      with i first [of "spaces b u @ q2 @ y"] False show ?thesis by (simp add: ws(2) del: parse_items.simps)
    qed
    moreover have "s = ((p1 @ w @ [c]) @ u @ p2) @ r" using s u(1) p2(1) by (metis append.assoc append_Cons append_Nil)
    ultimately show ?thesis by blast
  qed
qed

text \<open>The parts of the members of an object: the first, and the rest or the end.\<close>

definition members_parts :: "nat \<Rightarrow> int \<Rightarrow> string \<Rightarrow> string \<Rightarrow> string \<Rightarrow> string \<Rightarrow> json \<Rightarrow> string \<Rightarrow> char \<Rightarrow> string \<Rightarrow> bool" where
  "members_parts n d x name s1 s2 v s3 e s4 \<longleftrightarrow>
     literal x = Some (name, s1) \<and> skip s1 = CHR '':'' # s2 \<and> parse_value n d (skip s2) = Some (v, s3) \<and>
     skip s3 = e # s4 \<and> (e = CHR ''}'' \<or> e = CHR '','')"

lemma parse_members_SomeE:
  assumes a: "parse_members (Suc n) d s = Some (ms, r)"
  obtains x name s1 s2 v s3 e s4 where "s = CHR ''\"'' # x" "members_parts n d x name s1 s2 v s3 e s4"
proof -
  obtain x where x: "s = CHR ''\"'' # x" using begins_members [OF a] by blast
  obtain name s1 where n: "literal x = Some (name, s1)"
    using a by (auto simp: x string_body_literal split: option.splits)
  obtain s2 where c: "skip s1 = CHR '':'' # s2"
    using a n by (cases "skip s1") (auto simp: x string_body_literal split: if_splits)
  obtain v s3 where v: "parse_value n d (skip s2) = Some (v, s3)"
    using a n c by (auto simp: x string_body_literal split: option.splits)
  obtain e s4 where e: "skip s3 = e # s4" using a n c v by (cases "skip s3") (auto simp: x string_body_literal)
  have "e = CHR ''}'' \<or> e = CHR '',''" using a n c v e by (auto simp: x string_body_literal Let_def split: if_splits)
  with x n c v e that show thesis unfolding members_parts_def by blast
qed

lemma parse_members_parts:
  assumes "members_parts n d x name s1 s2 v s3 e s4"
  shows "parse_members (Suc n) d (CHR ''\"'' # x) =
    (if e = CHR ''}'' then Some ([(name, before (skip s2) s3, v)], s4)
     else map_option (apfst ((#) (name, before (skip s2) s3, v))) (parse_members n d (skip s4)))"
  using assms by (auto simp: members_parts_def string_body_literal Let_def)

lemma members_local:
  assumes "\<And>d. local_reader b (parse_value n d) (squash_value b)"
    and "\<And>d. local_reader b (parse_members n d) (map (squash_member b))"
  shows "local_reader b (parse_members (Suc n) d) (map (squash_member b))"
  unfolding local_reader_def
proof (intro allI impI)
  fix s ms r
  assume a: "parse_members (Suc n) d s = Some (ms, r)"
  obtain x name s1 s2 v s3 e s4 where x: "s = CHR ''\"'' # x" and mp: "members_parts n d x name s1 s2 v s3 e s4"
    by (rule parse_members_SomeE [OF a])
  then have n: "literal x = Some (name, s1)" and c: "skip s1 = CHR '':'' # s2"
    and v: "parse_value n d (skip s2) = Some (v, s3)" and e: "skip s3 = e # s4" and e': "e = CHR ''}'' \<or> e = CHR '',''"
    by (auto simp: members_parts_def)
  note eq = a [unfolded x parse_members_parts [OF mp]]
  obtain p0 q0 where p0: "x = p0 @ CHR ''\"'' # s1" "literal_unit b p0 q0 name" using literal_squash [OF n] by blast
  obtain w1 where w1: "s1 = w1 @ skip s1" "list_all is_space w1" using skip_split by blast
  obtain w2 where w2: "s2 = w2 @ skip s2" "list_all is_space w2" using skip_split by blast
  obtain p1 q1 where p1: "skip s2 = p1 @ s3" "piece b p1 q1"
    "\<forall>y. stops y \<longrightarrow> parse_value n d (q1 @ y) = Some (squash_value b v, y)"
    using local_readerE [OF assms(1) v] by blast
  obtain w3 where w3: "s3 = w3 @ skip s3" "list_all is_space w3" using skip_split by blast
  let ?m = "(name, p1, v)" and ?m' = "(name, q1, squash_value b v)"
  have m: "before (skip s2) s3 = p1" "squash_member b ?m = ?m'"
    using p1(1) piece_squash [OF p1(2)] by (simp_all add: before_def squash_member_def)
  have ne: "\<not> number_char e" "token_char e" "\<not> is_space e" using e' by (auto simp: is_space_def)
  define P Q where "P = (CHR ''\"'' # p0 @ [CHR ''\"'']) @ w1 @ [CHR '':''] @ w2 @ p1 @ w3 @ [e]"
    and "Q = (CHR ''\"'' # q0 @ [CHR ''\"'']) @ spaces b w1 @ [CHR '':''] @ spaces b w2 @ q1 @ spaces b w3 @ [e]"
  have PQ: "piece b P Q" unfolding P_def Q_def
    by (intro piece_append piece_spaces piece_tokens piece_literal [OF p0(2)] p1(2) w1 w2 w3) (use ne in simp_all)
  have s: "s = P @ s4" unfolding P_def using x p0(1) w1(1) c w2(1) p1(1) w3(1) e
    by (metis append.assoc append_Cons append_Nil)
  have first: "parse_members (Suc n) d (Q @ y) = (if e = CHR ''}'' then Some ([?m'], y)
      else map_option (apfst ((#) ?m')) (parse_members n d (skip y)))" for y
  proof -
    have v': "parse_value n d (q1 @ spaces b w3 @ e # y) = Some (squash_value b v, spaces b w3 @ e # y)"
      using p1(3) stops_spaces [OF w3(2) ne(1)] by blast
    have k: "skip (spaces b w2 @ q1 @ z) = q1 @ z" if "begins (q1 @ z)" for z
      using w2(2) begins_skip [OF that] by simp
    have "skip (spaces b w1 @ CHR '':'' # z) = CHR '':'' # z" "skip (spaces b w3 @ e # z) = e # z" for z
      using w1(2) w3(2) ne(3) by (simp_all add: skip_id is_space_def)
    then have mp': "members_parts n d (q0 @ CHR ''\"'' # spaces b w1 @ CHR '':'' # spaces b w2 @ q1 @ spaces b w3 @ e # y)
        name (spaces b w1 @ CHR '':'' # spaces b w2 @ q1 @ spaces b w3 @ e # y) (spaces b w2 @ q1 @ spaces b w3 @ e # y)
        (squash_value b v) (spaces b w3 @ e # y) e y"
      using v' k [OF begins_value [OF v']] e' literal_unitD(2) [OF p0(2)] by (simp add: members_parts_def)
    have "before (skip (spaces b w2 @ q1 @ spaces b w3 @ e # y)) (spaces b w3 @ e # y) = q1"
      unfolding k [OF begins_value [OF v']] by (simp add: before_def)
    from parse_members_parts [OF mp', unfolded this] show ?thesis
      by (simp add: Q_def del: parse_members.simps)
  qed
  show "\<exists>p q. s = p @ r \<and> piece b p q \<and>
      (\<forall>y. stops y \<longrightarrow> parse_members (Suc n) d (q @ y) = Some (map (squash_member b) ms, y))"
  proof (cases "e = CHR ''}''")
    case True
    with eq m have ms: "ms = [?m]" "r = s4" by simp_all
    with PQ s first True m(2) show ?thesis by (metis list.simps(8,9))
  next
    case False
    with eq m obtain ks where ks: "parse_members n d (skip s4) = Some (ks, r)" "ms = ?m # ks" by auto
    obtain p2 q2 where p2: "skip s4 = p2 @ r" "piece b p2 q2"
      "\<forall>y. stops y \<longrightarrow> parse_members n d (q2 @ y) = Some (map (squash_member b) ks, y)"
      using local_readerE [OF assms(2) ks(1)] by blast
    obtain u where u: "s4 = u @ skip s4" "list_all is_space u" using skip_split by blast
    have "piece b (P @ u @ p2) (Q @ spaces b u @ q2)"
      by (intro piece_append piece_spaces PQ u p2)
    moreover have "parse_members (Suc n) d ((Q @ spaces b u @ q2) @ y) = Some (map (squash_member b) ms, y)"
      if "stops y" for y
    proof -
      have i: "parse_members n d (q2 @ y) = Some (map (squash_member b) ks, y)" using p2(3) that by blast
      then obtain z where z: "q2 @ y = CHR ''\"'' # z" using begins_members by blast
      then have "skip (spaces b u @ q2 @ y) = q2 @ y" using u(2) by (simp add: skip_id is_space_def)
      with i first [of "spaces b u @ q2 @ y"] False m(2) show ?thesis
        by (simp add: ks(2) del: parse_members.simps)
    qed
    moreover have "s = (P @ u @ p2) @ r" using s u(1) p2(1) by (metis append.assoc)
    ultimately show ?thesis by blast
  qed
qed

theorem readers_local:
  "local_reader b (parse_value n d) (squash_value b) \<and> local_reader b (parse_items n d) (map (squash_value b)) \<and>
   local_reader b (parse_members n d) (map (squash_member b))"
proof (induction n arbitrary: d)
  case (Suc n)
  then have "\<And>d. local_reader b (parse_value n d) (squash_value b)"
    "\<And>d. local_reader b (parse_items n d) (map (squash_value b))"
    "\<And>d. local_reader b (parse_members n d) (map (squash_member b))" by blast+
  then show ?case using value_local items_local members_local by blast
qed (simp add: local_reader_def)

end
