(* ===== verification/Encode_Docs.thy ===== *)
theory Encode_Docs
  imports Encode_Values
begin

text \<open>
  A marshalled document is read back as the value it stands for, on one line.
\<close>

section \<open>More calls and deeper nesting read the same\<close>

lemma apfst_SomeD: "map_option (apfst f) p = Some x \<Longrightarrow> \<exists>y. p = Some y \<and> x = apfst f y"
  by auto

lemma readers_mono:
  "(\<forall>n' d d' s x. n \<le> n' \<longrightarrow> 0 \<le> d \<longrightarrow> d \<le> d' \<longrightarrow> parse_value n d s = Some x \<longrightarrow> parse_value n' d' s = Some x) \<and>
   (\<forall>n' d d' s x. n \<le> n' \<longrightarrow> 0 \<le> d \<longrightarrow> d \<le> d' \<longrightarrow> parse_items n d s = Some x \<longrightarrow> parse_items n' d' s = Some x) \<and>
   (\<forall>n' d d' s x. n \<le> n' \<longrightarrow> 0 \<le> d \<longrightarrow> d \<le> d' \<longrightarrow> parse_members n d s = Some x \<longrightarrow> parse_members n' d' s = Some x)"
proof (induction n)
  case (Suc n)
  have v: "parse_value n' d' s = Some x" if "n \<le> n'" "0 \<le> d" "d \<le> d'" "parse_value n d s = Some x" for n' d d' s x
    using Suc that by blast
  have i: "parse_items n' d' s = Some x" if "n \<le> n'" "0 \<le> d" "d \<le> d'" "parse_items n d s = Some x" for n' d d' s x
    using Suc that by blast
  have m: "parse_members n' d' s = Some x" if "n \<le> n'" "0 \<le> d" "d \<le> d'" "parse_members n d s = Some x" for n' d d' s x
    using Suc that by blast
  have br: "bracketed e J P' t = Some x" if "\<And>s y. P s = Some y \<Longrightarrow> P' s = Some y" "bracketed e J P t = Some x"
    for e x t and J :: "'a list \<Rightarrow> json" and P P'
    using that by (auto simp: bracketed_def split: list.splits if_splits)
  have value_step: "parse_value (Suc n') d' s = Some x" if a: "n \<le> n'" "0 \<le> d" "d \<le> d'" "parse_value (Suc n) d s = Some x" for n' d d' s x
  proof -
    obtain c t where s: "s = c # t" using a(4) by (cases s) simp_all
    consider "c = CHR ''[''" | "c = CHR ''{''" | "c \<noteq> CHR ''[''" "c \<noteq> CHR ''{''" by blast
    then show ?thesis
    proof cases
      case 1
      with a have d: "d \<noteq> 0" and b: "bracketed CHR '']'' J_arr (parse_items n (d - 1)) t = Some x"
        unfolding s 1 parse_value_bracketed by (auto split: if_splits)
      have "bracketed CHR '']'' J_arr (parse_items n' (d' - 1)) t = Some x"
        by (rule br [OF _ b], rule i [OF a(1)]) (use a d in simp_all)
      then show ?thesis using a d unfolding s 1 parse_value_bracketed by simp
    next
      case 2
      with a have d: "d \<noteq> 0" and b: "bracketed CHR ''}'' J_obj (parse_members n (d - 1)) t = Some x"
        unfolding s 2 parse_value_bracketed by (auto split: if_splits)
      have "bracketed CHR ''}'' J_obj (parse_members n' (d' - 1)) t = Some x"
        by (rule br [OF _ b], rule m [OF a(1)]) (use a d in simp_all)
      then show ?thesis using a d unfolding s 2 parse_value_bracketed by simp
    next
      case 3
      with a(4) show ?thesis unfolding s parse_value_scalar [OF 3] by simp
    qed
  qed
  have items_step: "parse_items (Suc n') d' s = Some x" if a: "n \<le> n'" "0 \<le> d" "d \<le> d'" "parse_items (Suc n) d s = Some x" for n' d d' s x
  proof -
    obtain w s1 where w: "parse_value n d s = Some (w, s1)" using a(4) by (auto split: option.splits)
    then show ?thesis using v [OF a(1-3) w] i [OF a(1-3)] a(4)
      by (auto split: list.splits if_splits dest!: apfst_SomeD)
  qed
  have members_step: "parse_members (Suc n') d' s = Some x" if a: "n \<le> n'" "0 \<le> d" "d \<le> d'" "parse_members (Suc n) d s = Some x" for n' d d' s x
  proof -
    obtain ms r where x: "x = (ms, r)" by force
    obtain x0 name s1 s2 w s3 e s4 where s: "s = CHR ''\"'' # x0" and mp: "members_parts n d x0 name s1 s2 w s3 e s4"
      by (rule parse_members_SomeE [OF a(4) [unfolded x]])
    then have mp': "members_parts n' d' x0 name s1 s2 w s3 e s4"
      using v [OF a(1-3)] by (auto simp: members_parts_def)
    show ?thesis
      using a(4) m [OF a(1-3)] unfolding s parse_members_parts [OF mp] parse_members_parts [OF mp'] by auto
  qed
  show ?case
  proof (intro conjI allI impI)
    fix k :: nat assume "Suc n \<le> k"
    then obtain n' where k: "k = Suc n'" "n \<le> n'" by (cases k) simp_all
    note steps = value_step [OF k(2)] items_step [OF k(2)] members_step [OF k(2)]
    show "parse_value k d' s = Some x" if "0 \<le> d" "d \<le> d'" "parse_value (Suc n) d s = Some x" for d d' s x
      unfolding k(1) by (rule steps(1) [OF that])
    show "parse_items k d' s = Some x" if "0 \<le> d" "d \<le> d'" "parse_items (Suc n) d s = Some x" for d d' s x
      unfolding k(1) by (rule steps(2) [OF that])
    show "parse_members k d' s = Some x" if "0 \<le> d" "d \<le> d'" "parse_members (Suc n) d s = Some x" for d d' s x
      unfolding k(1) by (rule steps(3) [OF that])
  qed
qed simp

lemma parse_value_mono:
  "n \<le> n' \<Longrightarrow> 0 \<le> d \<Longrightarrow> d \<le> d' \<Longrightarrow> parse_value n d s = Some x \<Longrightarrow> parse_value n' d' s = Some x"
  by (rule conjunct1 [OF readers_mono, rule_format])

lemma parse_items_mono:
  "n \<le> n' \<Longrightarrow> 0 \<le> d \<Longrightarrow> d \<le> d' \<Longrightarrow> parse_items n d s = Some x \<Longrightarrow> parse_items n' d' s = Some x"
  by (rule conjunct1 [OF conjunct2 [OF readers_mono], rule_format])

lemma parse_members_mono:
  "n \<le> n' \<Longrightarrow> 0 \<le> d \<Longrightarrow> d \<le> d' \<Longrightarrow> parse_members n d s = Some x \<Longrightarrow> parse_members n' d' s = Some x"
  by (rule conjunct2 [OF conjunct2 [OF readers_mono], rule_format])

section \<open>Raw texts\<close>

text \<open>Whether a text is one JSON value with brackets nested at most \<open>d\<close> deep.\<close>

definition parses_at :: "int \<Rightarrow> string \<Rightarrow> bool" where
  "parses_at d t \<longleftrightarrow> (case parse_value (2 * length t + 1) d (skip t) of
     Some (v, r) \<Rightarrow> skip r = [] | None \<Rightarrow> False)"

lemma parse_value_enough:
  assumes "parse_value n d s = Some x" and "0 \<le> d" and "length s \<le> k"
  shows "parse_value (2 * k + 1) d s = Some x"
proof -
  let ?m = "max n (2 * k + 1)"
  have "parse_value ?m d s = Some x" by (rule parse_value_mono [OF _ assms(2) _ assms(1)]) simp_all
  moreover have "settled (2 * k + 1) k" using settled_all by blast
  then have "parse_value ?m d s = parse_value (2 * k + 1) d s" by (rule settledD) (use assms(3) in simp_all)
  ultimately show ?thesis by simp
qed

lemma parses_atI:
  assumes "parse_value n d t = Some (v, [])" and "0 \<le> d"
  shows "parses_at d t"
proof -
  have "skip t = t" by (rule begins_skip [OF begins_value [OF assms(1)]])
  moreover have "parse_value (2 * length t + 1) d t = Some (v, [])"
    by (rule parse_value_enough [OF assms]) simp
  ultimately show ?thesis by (simp add: parses_at_def skip_def)
qed

lemma parses_at_mono:
  assumes "parses_at d t" and "0 \<le> d" and "d \<le> d'"
  shows "parses_at d' t"
proof -
  obtain v r where v: "parse_value (2 * length t + 1) d (skip t) = Some (v, r)" "skip r = []"
    using assms(1) by (auto simp: parses_at_def split: option.splits)
  have "parse_value (2 * length t + 1) d' (skip t) = Some (v, r)"
    by (rule parse_value_mono [OF _ assms(2,3) v(1)]) simp
  with v(2) show ?thesis by (simp add: parses_at_def)
qed

lemma parses_at_json: "parses_at 10000 t \<longleftrightarrow> parse_json t \<noteq> None"
  by (auto simp: parses_at_def parse_json_def split: option.splits)

lemma raw_reads:
  assumes "parses_at d t" and "0 \<le> d" and "d \<le> 10000"
  shows "\<exists>v. parse_json t = Some v \<and> list_all (\<lambda>c. 32 \<le> code c) (squash True Outside t) \<and>
    (\<exists>n. \<forall>y. stops y \<longrightarrow> parse_value n d (squash True Outside t @ y) = Some (squash_value True v, y))"
proof -
  let ?n = "2 * length t + 1"
  obtain v r where v: "parse_value ?n d (skip t) = Some (v, r)" "skip r = []"
    using assms(1) by (auto simp: parses_at_def split: option.splits)
  have "parse_value ?n 10000 (skip t) = Some (v, r)"
    by (rule parse_value_mono [OF _ assms(2,3) v(1)]) simp
  then have j: "parse_json t = Some v" using v(2) by (simp add: parse_json_def)
  obtain p q where p: "skip t = p @ r" "piece True p q"
    "\<forall>y. stops y \<longrightarrow> parse_value ?n d (q @ y) = Some (squash_value True v, y)"
    using local_readerE [OF conjunct1 [OF readers_local] v(1)] by blast
  obtain w where w: "t = w @ skip t" "list_all is_space w" using skip_split by blast
  have "list_all is_space r" using v(2) skip_split [of r] by auto
  then have "piece True (w @ p @ r) (spaces True w @ q @ spaces True r)"
    by (intro piece_append piece_spaces w p)
  then have "squash True Outside (w @ p @ r) = q" by (auto simp: spaces_def dest: piece_squash)
  then have s: "squash True Outside t = q" using w(1) p(1) by simp
  have "list_all (\<lambda>c. 32 \<le> code c) q" using p(2) by (simp add: piece_def)
  with j p(3) show ?thesis unfolding s by blast
qed

section \<open>Documents\<close>

text \<open>The value a document stands for; its members have their encoded texts.\<close>

fun doc_value :: "leaves \<Rightarrow> doc \<Rightarrow> json" where
  "doc_value v (D_raw t) = (case parse_json t of Some j \<Rightarrow> squash_value True j | None \<Rightarrow> J_null)"
| "doc_value v (D_str t) = J_str (valid_text t)"
| "doc_value v (D_bool b) = J_bool b"
| "doc_value v (D_num n) = J_num (decimal n)"
| "doc_value v (D_time t) = J_str (lf_time v t)"
| "doc_value v (D_seconds n) = J_num (lf_seconds v n)"
| "doc_value v (D_arr ds) = J_arr (map (doc_value v) ds)"
| "doc_value v (D_obj ms) = J_obj (map (\<lambda>(name, d). (valid_text name, encode v d, doc_value v d)) ms)"

text \<open>
  A document with brackets nested at most \<open>d\<close> deep, those of its raw texts included, whose
  times are plain text and whose seconds are numbers.
\<close>

definition plain :: "string \<Rightarrow> bool" where
  "plain t \<longleftrightarrow> list_all (\<lambda>c. 32 \<le> code c \<and> code c < 128 \<and> c \<noteq> CHR ''\"'' \<and> c \<noteq> CHR 0x5C) t"

fun fits :: "leaves \<Rightarrow> int \<Rightarrow> doc \<Rightarrow> bool" where
  "fits v d (D_raw t) \<longleftrightarrow> parses_at d t"
| "fits v d (D_time t) \<longleftrightarrow> plain (lf_time v t)"
| "fits v d (D_seconds n) \<longleftrightarrow> number_literal (lf_seconds v n) = Some (lf_seconds v n, [])"
| "fits v d (D_arr ds) \<longleftrightarrow> 0 < d \<and> list_all (fits v (d - 1)) ds"
| "fits v d (D_obj ms) \<longleftrightarrow> 0 < d \<and> list_all (\<lambda>(name, x). fits v (d - 1) x) ms"
| "fits v d _ \<longleftrightarrow> True"

lemma literal_printable:
  "plain t \<Longrightarrow> literal (t @ CHR ''\"'' # y) = Some (t, y)"
  unfolding plain_def by (induction t) (simp_all add: literal_plain rune_length_ascii)

lemma is_digit_iff: "is_digit c \<longleftrightarrow> digit_of c \<noteq> None"
  unfolding is_digit_def between_def digit_of_def of_nat_of_char Let_def by auto

lemma decimal_digits_shape:
  "list_all is_digit (decimal_digits n) \<and> decimal_digits n \<noteq> [] \<and> (0 < n \<longrightarrow> hd (decimal_digits n) \<noteq> CHR ''0'')"
proof (induction n rule: decimal_digits.induct)
  case (1 n)
  have d: "is_digit (char_of (k + 48))" "0 < k \<longrightarrow> char_of (k + 48) \<noteq> CHR ''0''" if "k < 10" for k :: nat
  proof -
    have "digit_of CHR ''0'' = Some 0" by (simp add: digit_of_def)
    with digit_of_char_of [OF that] show "is_digit (char_of (k + 48))" "0 < k \<longrightarrow> char_of (k + 48) \<noteq> CHR ''0''"
      by (auto simp: is_digit_iff)
  qed
  show ?case
  proof (cases "n < 10")
    case True
    then show ?thesis using d [of n] by (simp add: decimal_digits.simps [of n])
  next
    case False
    then have "0 < n div 10" by simp
    with False 1 d(1) [of "n mod 10"] show ?thesis by (auto simp: decimal_digits.simps [of n])
  qed
qed

lemma number_int_decimal: "number_int (decimal_digits n) = Some (decimal_digits n, [])"
proof (cases "n = 0")
  case True
  moreover have "char_of (48::nat) = CHR ''0''" by code_simp
  ultimately show ?thesis by (simp add: decimal_digits.simps number_int_def)
next
  case False
  then obtain c z where c: "decimal_digits n = c # z" "is_digit c" "c \<noteq> CHR ''0''" "list_all is_digit (c # z)"
    using decimal_digits_shape [of n] by (cases "decimal_digits n") auto
  then show ?thesis using digits_then_all [OF c(4)] by (simp add: number_int_def)
qed

lemma decimal_literal: "number_literal (decimal n) = Some (decimal n, [])"
proof -
  have m: "hd (decimal_digits k) \<noteq> CHR ''-''" for k
    using decimal_digits_shape [of k] by (cases "decimal_digits k") (auto simp: is_digit_def between_def)
  obtain c z where "decimal_digits (nat n) = c # z" using decimal_digits_shape [of "nat n"] by (cases "decimal_digits (nat n)") auto
  with m [of "nat n"] show ?thesis
    using number_int_decimal [of "nat n"] number_int_decimal [of "nat (- n)"]
    by (auto simp: number_literal_def decimal_def number_frac_def number_exp_def)
qed

lemma scalar_value: "c \<noteq> CHR ''['' \<Longrightarrow> c \<noteq> CHR ''{'' \<Longrightarrow> scalar (c # t) = Some x \<Longrightarrow> parse_value (Suc n) d (c # t) = Some x"
  by (subst parse_value_scalar)

lemma number_reads:
  assumes "number_literal l = Some (l, [])" and "stops y"
  shows "parse_value (Suc n) d (l @ y) = Some (J_num l, y)"
proof -
  note l = number_literal_local [OF assms(1)]
  then obtain e z where e: "l = e # z" "number_char e" by (cases l) auto
  then have ne: "e \<noteq> CHR ''n''" "e \<noteq> CHR ''t''" "e \<noteq> CHR ''f''" "e \<noteq> CHR ''\"''" "e \<noteq> CHR ''[''" "e \<noteq> CHR ''{''"
    by (auto simp: number_char_def is_digit_def between_def)
  have "scalar (l @ y) = Some (J_num l, y)" using l assms(2) ne by (simp add: scalar_def e)
  with scalar_value [OF ne(5,6), of "z @ y"] show ?thesis unfolding e append_Cons by blast
qed

lemma string_reads: "literal (t @ y) = Some (u, z) \<Longrightarrow> parse_value (Suc n) d (CHR ''\"'' # t @ y) = Some (J_str u, z)"
  by (simp add: string_body_literal)

text \<open>Reading from some number of calls on.\<close>

definition reads :: "int \<Rightarrow> string \<Rightarrow> json \<Rightarrow> bool" where
  "reads d t j \<longleftrightarrow> (\<exists>n. \<forall>y. stops y \<longrightarrow> parse_value n d (t @ y) = Some (j, y))"

lemma readsE:
  assumes "reads d t j" and "0 \<le> d"
  obtains n where "\<forall>m\<ge>n. \<forall>y. stops y \<longrightarrow> parse_value m d (t @ y) = Some (j, y)"
proof -
  obtain n where n: "\<forall>y. stops y \<longrightarrow> parse_value n d (t @ y) = Some (j, y)" using assms(1) unfolding reads_def by blast
  have "parse_value m d (t @ y) = Some (j, y)" if "n \<le> m" "stops y" for m y
    by (rule parse_value_mono [OF that(1) assms(2) order_refl]) (use n that(2) in blast)
  then show thesis using that by blast
qed

lemma items_reads:
  assumes "0 \<le> d" and "ds \<noteq> []" and "\<And>x. x \<in> set ds \<Longrightarrow> reads d (f x) (g x)"
  shows "\<exists>n. \<forall>m\<ge>n. \<forall>y. parse_items m d (comma_separated (map f ds) @ CHR '']'' # y) = Some (map g ds, y)"
  using assms(2,3)
proof (induction ds rule: induct_list012)
  case (2 x)
  obtain n where n: "\<forall>m\<ge>n. \<forall>y. stops y \<longrightarrow> parse_value m d (f x @ y) = Some (g x, y)"
    by (rule readsE [OF 2(2) [of x] assms(1)]) simp_all
  have "parse_items m d (f x @ CHR '']'' # y) = Some ([g x], y)" if m: "Suc n \<le> m" for m y
  proof -
    obtain k where k: "m = Suc k" "n \<le> k" using m by (cases m) simp_all
    with n have "parse_value k d (f x @ CHR '']'' # y) = Some (g x, CHR '']'' # y)" by simp
    then show ?thesis by (simp add: k(1) skip_def is_space_def)
  qed
  then show ?case by auto
next
  case (3 x x' ds)
  let ?t = "comma_separated (map f (x' # ds))"
  obtain n where n: "\<forall>m\<ge>n. \<forall>y. stops y \<longrightarrow> parse_value m d (f x @ y) = Some (g x, y)"
    by (rule readsE [OF 3(4) [of x] assms(1)]) simp_all
  obtain n' where n': "\<forall>m\<ge>n'. \<forall>y. parse_items m d (?t @ CHR '']'' # y) = Some (map g (x' # ds), y)"
    using 3(2,4) by auto
  have "parse_items m d (comma_separated (map f (x # x' # ds)) @ CHR '']'' # y) = Some (map g (x # x' # ds), y)"
    if m: "Suc (max n n') \<le> m" for m y
  proof -
    obtain k where k: "m = Suc k" "n \<le> k" "n' \<le> k" using m by (cases m) simp_all
    have i: "parse_items k d (?t @ CHR '']'' # y) = Some (map g (x' # ds), y)" using n' k(3) by blast
    have "parse_value k d (f x @ CHR '','' # ?t @ CHR '']'' # y) = Some (g x, CHR '','' # ?t @ CHR '']'' # y)"
      using n k(2) by simp
    with i begins_skip [OF begins_items [OF i]] show ?thesis by (simp add: k(1) skip_def is_space_def)
  qed
  then show ?case by blast
qed simp

lemma member_reads:
  assumes "parse_value n d (t @ e # y) = Some (j, e # y)" and "e = CHR ''}'' \<or> e = CHR '',''"
  shows "parse_members (Suc n) d (quote name @ CHR '':'' # t @ e # y) =
    (if e = CHR ''}'' then Some ([(valid_text name, t, j)], y)
     else map_option (apfst ((#) (valid_text name, t, j))) (parse_members n d (skip y)))"
proof -
  have k: "skip (t @ e # y) = t @ e # y" by (rule begins_skip [OF begins_value [OF assms(1)]])
  have "skip (CHR '':'' # z) = CHR '':'' # z" "skip (e # z) = e # z" for z
    using assms(2) by (auto simp: skip_def is_space_def)
  then have mp: "members_parts n d (quoted name @ CHR ''\"'' # CHR '':'' # t @ e # y) (valid_text name)
      (CHR '':'' # t @ e # y) (t @ e # y) j (e # y) e y"
    using assms quoted_reads [of name] k by (simp add: members_parts_def)
  have "before (skip (t @ e # y)) (e # y) = t" unfolding k by (simp add: before_def)
  from parse_members_parts [OF mp, unfolded this] show ?thesis by (simp add: quote_def del: parse_members.simps)
qed

lemma members_reads:
  assumes "0 \<le> d" and "ms \<noteq> []" and "\<And>name x. (name, x) \<in> set ms \<Longrightarrow> reads d (f x) (g x)"
  shows "\<exists>n. \<forall>m\<ge>n. \<forall>y. parse_members m d (comma_separated (map (\<lambda>(name, x). quote name @ CHR '':'' # f x) ms) @ CHR ''}'' # y) =
    Some (map (\<lambda>(name, x). (valid_text name, f x, g x)) ms, y)"
  using assms(2,3)
proof (induction ms rule: induct_list012)
  case (2 p)
  obtain name x where p: "p = (name, x)" by force
  obtain n where n: "\<forall>m\<ge>n. \<forall>y. stops y \<longrightarrow> parse_value m d (f x @ y) = Some (g x, y)"
    by (rule readsE [OF 2(2) [of name x] assms(1)]) (simp_all add: p)
  have "parse_members m d (quote name @ CHR '':'' # f x @ CHR ''}'' # y) = Some ([(valid_text name, f x, g x)], y)"
    if m: "Suc n \<le> m" for m y
  proof -
    obtain k where k: "m = Suc k" "n \<le> k" using m by (cases m) simp_all
    with n have "parse_value k d (f x @ CHR ''}'' # y) = Some (g x, CHR ''}'' # y)" by simp
    from member_reads [OF this] show ?thesis by (simp add: k(1) del: parse_members.simps)
  qed
  then show ?case by (auto simp: p simp del: parse_members.simps)
next
  case (3 p p' ms)
  let ?enc = "\<lambda>(name, x). quote name @ CHR '':'' # f x" and ?val = "\<lambda>(name, x). (valid_text name, f x, g x)"
  obtain name x where p: "p = (name, x)" by force
  let ?t = "comma_separated (map ?enc (p' # ms))"
  obtain n where n: "\<forall>m\<ge>n. \<forall>y. stops y \<longrightarrow> parse_value m d (f x @ y) = Some (g x, y)"
    by (rule readsE [OF 3(4) [of name x] assms(1)]) (simp_all add: p)
  obtain n' where n': "\<forall>m\<ge>n'. \<forall>y. parse_members m d (?t @ CHR ''}'' # y) = Some (map ?val (p' # ms), y)"
    using 3(2,4) by auto
  have "parse_members m d (comma_separated (map ?enc (p # p' # ms)) @ CHR ''}'' # y) = Some (map ?val (p # p' # ms), y)"
    if m: "Suc (max n n') \<le> m" for m y
  proof -
    obtain k where k: "m = Suc k" "n \<le> k" "n' \<le> k" using m by (cases m) simp_all
    have i: "parse_members k d (?t @ CHR ''}'' # y) = Some (map ?val (p' # ms), y)" using n' k(3) by blast
    then obtain z where z: "?t @ CHR ''}'' # y = CHR ''\"'' # z" using begins_members by blast
    then have sk: "skip (?t @ CHR ''}'' # y) = ?t @ CHR ''}'' # y" by (simp only: skip_id is_space_def) (simp add: skip_def is_space_def)
    have "parse_value k d (f x @ CHR '','' # ?t @ CHR ''}'' # y) = Some (g x, CHR '','' # ?t @ CHR ''}'' # y)"
      using n k(2) by simp
    from member_reads [OF this, of name] sk i show ?thesis by (simp add: k(1) p del: parse_members.simps)
  qed
  then show ?case by blast
qed simp

text \<open>The encoder's text of a document is read as the value of the document.\<close>

lemma brackets_read:
  "parse_value (Suc n) d (CHR ''['' # CHR '']'' # y) = (if d = 0 then None else Some (J_arr [], y))"
  "parse_value (Suc n) d (CHR ''{'' # CHR ''}'' # y) = (if d = 0 then None else Some (J_obj [], y))"
  by (simp_all add: skip_def is_space_def)

lemma array_reads:
  assumes "0 < d" and "\<And>x. x \<in> set ds \<Longrightarrow> reads (d - 1) (f x) (g x)"
  shows "reads d (CHR ''['' # comma_separated (map f ds) @ [CHR '']'']) (J_arr (map g ds))"
proof (cases "ds = []")
  case True
  then show ?thesis using assms(1) brackets_read(1) [of 0 d] by (auto simp: reads_def simp del: parse_value.simps)
next
  case False
  obtain n where n: "\<forall>m\<ge>n. \<forall>y. parse_items m (d - 1) (comma_separated (map f ds) @ CHR '']'' # y) = Some (map g ds, y)"
    using items_reads [of "d - 1" ds f g] assms False by auto
  have "parse_value (Suc n) d ((CHR ''['' # comma_separated (map f ds) @ [CHR '']'']) @ y) = Some (J_arr (map g ds), y)" for y
  proof -
    have i: "parse_items n (d - 1) (comma_separated (map f ds) @ CHR '']'' # y) = Some (map g ds, y)" using n by blast
    from begins_items [OF i] obtain c x where "comma_separated (map f ds) @ CHR '']'' # y = c # x" "c \<noteq> CHR '']''"
      by (auto simp: begins_def)
    with i begins_skip [OF begins_items [OF i]] show ?thesis
      using assms(1) by (simp add: parse_value_bracketed(1) bracketed_def del: parse_value.simps)
  qed
  then show ?thesis unfolding reads_def by blast
qed

lemma object_reads:
  assumes "0 < d" and "\<And>name x. (name, x) \<in> set ms \<Longrightarrow> reads (d - 1) (f x) (g x)"
  shows "reads d (CHR ''{'' # comma_separated (map (\<lambda>(name, x). quote name @ CHR '':'' # f x) ms) @ [CHR ''}''])
    (J_obj (map (\<lambda>(name, x). (valid_text name, f x, g x)) ms))" (is "reads d (_ # ?t @ _) (J_obj ?v)")
proof (cases "ms = []")
  case True
  then show ?thesis using assms(1) brackets_read(2) [of 0 d] by (auto simp: reads_def simp del: parse_value.simps)
next
  case False
  obtain n where n: "\<forall>m\<ge>n. \<forall>y. parse_members m (d - 1) (?t @ CHR ''}'' # y) = Some (?v, y)"
    using members_reads [of "d - 1" ms f g] assms False by auto
  have "parse_value (Suc n) d ((CHR ''{'' # ?t @ [CHR ''}'']) @ y) = Some (J_obj ?v, y)" for y
  proof -
    have i: "parse_members n (d - 1) (?t @ CHR ''}'' # y) = Some (?v, y)" using n by blast
    from begins_members [OF i] obtain z where z: "?t @ CHR ''}'' # y = CHR ''\"'' # z" by blast
    then have "skip (?t @ CHR ''}'' # y) = CHR ''\"'' # z" by (simp only: z) (simp add: skip_def is_space_def)
    with i z show ?thesis
      using assms(1) by (simp add: parse_value_bracketed(2) bracketed_def del: parse_value.simps)
  qed
  then show ?thesis unfolding reads_def by blast
qed

lemma word_reads:
  "reads d ''true'' (J_bool True)" "reads d ''false'' (J_bool False)"
  unfolding reads_def by (rule exI [of _ 1], simp)+

lemma encode_reads:
  assumes "fits v d x" and "0 \<le> d" and "d \<le> 10000"
  shows "reads d (encode v x) (doc_value v x)"
  using assms
proof (induction v x arbitrary: d rule: encode.induct)
  case (1 v t)
  then have "parses_at d t" by simp
  from raw_reads [OF this 1(2,3)] show ?case unfolding reads_def encode.simps doc_value.simps by (metis option.simps(5))
next
  case (2 v t)
  have "parse_value (Suc 0) d (CHR ''\"'' # (quoted t @ [CHR ''\"'']) @ y) = Some (J_str (valid_text t), y)" for y
    by (rule string_reads) (simp add: quoted_reads)
  then show ?case unfolding reads_def quote_def encode.simps doc_value.simps append_Cons by blast
next
  case (3 v b)
  show ?case using word_reads by (cases b) simp_all
next
  case (4 v n)
  show ?case unfolding reads_def encode.simps doc_value.simps using number_reads [OF decimal_literal] by blast
next
  case (5 v t)
  then have "plain (lf_time v t)" by simp
  then have "parse_value (Suc 0) d (CHR ''\"'' # (lf_time v t @ [CHR ''\"'']) @ y) = Some (J_str (lf_time v t), y)" for y
    by (intro string_reads) (simp add: literal_printable)
  then show ?case unfolding reads_def encode.simps doc_value.simps append_Cons by blast
next
  case (6 v n)
  have "number_literal (lf_seconds v n) = Some (lf_seconds v n, [])" using 6(1) by simp
  from number_reads [OF this] show ?case unfolding reads_def encode.simps doc_value.simps by blast
next
  case (7 v ds)
  have "reads (d - 1) (encode v x) (doc_value v x)" if "x \<in> set ds" for x
    by (rule 7(1) [OF that]) (use 7 that in \<open>auto simp: list_all_iff\<close>)
  then show ?case using array_reads [of d ds "encode v" "doc_value v"] 7(2) by simp
next
  case (8 v ms)
  have "reads (d - 1) (encode v x) (doc_value v x)" if "(name, x) \<in> set ms" for name x
    by (rule 8(1) [OF that refl]) (use 8 that in \<open>auto simp: list_all_iff\<close>)
  then show ?case using object_reads [of d ms "encode v" "doc_value v"] 8(2) by simp
qed

section \<open>One line\<close>

lemma ascii_text_printable: "code c < 128 \<Longrightarrow> list_all (\<lambda>x. 32 \<le> code x) (ascii_text c)"
  using escaped_byte_printable [of c] by (auto simp: ascii_text_def)

lemma quoted_printable: "list_all (\<lambda>c. 32 \<le> code c) (quoted s)"
proof (induction s rule: quoted.induct)
  case (2 c r)
  have s: "list_all (\<lambda>c. 32 \<le> code c) (separator_text (c # r))" if "separator (c # r)"
    using that by (simp add: separator_text_of)
  have r: "list_all (\<lambda>c. 32 \<le> code c) replacement_text" by (simp add: replacement_text_def)
  have t: "list_all (\<lambda>c. 32 \<le> code c) (take (k - 1) r)" if k: "rune_length (c # r) = Some k" "\<not> code c < 128" for k
  proof -
    obtain w x where w: "r = w @ x" "k = Suc (length w)" "list_all cont w"
      by (rule rune_length_run [OF k(1)]) (use k in auto)
    then show ?thesis using cont_not by (auto simp: list_all_iff)
  qed
  show ?case
  proof (cases "code c < 128")
    case True
    with 2(1) ascii_text_printable show ?thesis by (simp add: quoted.simps)
  next
    case False
    with 2(2,3) s r t show ?thesis by (auto simp: quoted.simps split: option.split)
  qed
qed (simp add: quoted.simps)

lemma comma_separated_printable:
  "(\<And>t. t \<in> set ts \<Longrightarrow> list_all (\<lambda>c. 32 \<le> code c) t) \<Longrightarrow> list_all (\<lambda>c. 32 \<le> code c) (comma_separated ts)"
  by (induction ts rule: comma_separated.induct) auto

lemma number_printable: "number_char c \<Longrightarrow> 32 \<le> code c"
  using number_char_token by (simp add: token_char_def)

lemma encode_printable:
  assumes "fits v d x" and "0 \<le> d" and "d \<le> 10000"
  shows "list_all (\<lambda>c. 32 \<le> code c) (encode v x)"
  using assms
proof (induction v x arbitrary: d rule: encode.induct)
  case (1 v t)
  then have "parses_at d t" by simp
  from raw_reads [OF this 1(2,3)] show ?case by auto
next
  case (4 v n)
  have "list_all number_char (decimal n)" using number_literal_local [OF decimal_literal] by simp
  then show ?case using number_printable by (auto simp: list_all_iff)
next
  case (5 v t)
  then show ?case by (auto simp: plain_def list_all_iff)
next
  case (6 v n)
  then have "number_literal (lf_seconds v n) = Some (lf_seconds v n, [])" by simp
  then have "list_all number_char (lf_seconds v n)" using number_literal_local by blast
  then show ?case using number_printable by (auto simp: list_all_iff)
next
  case (7 v ds)
  have "list_all (\<lambda>c. 32 \<le> code c) (encode v x)" if "x \<in> set ds" for x
    by (rule 7(1) [OF that, of "d - 1"]) (use 7 that in \<open>auto simp: list_all_iff\<close>)
  then show ?case by (auto intro!: comma_separated_printable)
next
  case (8 v ms)
  have "list_all (\<lambda>c. 32 \<le> code c) (encode v x)" if "(name, x) \<in> set ms" for name x
    by (rule 8(1) [OF that refl, of "d - 1"]) (use 8 that in \<open>auto simp: list_all_iff\<close>)
  then show ?case using quoted_printable by (auto simp: quote_def intro!: comma_separated_printable)
qed (simp_all add: quote_def quoted_printable)

section \<open>Marshalled documents\<close>

lemma fits_mono: "fits v d x \<Longrightarrow> 0 \<le> d \<Longrightarrow> d \<le> d' \<Longrightarrow> fits v d' x"
proof (induction v d x arbitrary: d' rule: fits.induct)
  case (1 v d t)
  then show ?case using parses_at_mono by auto
qed (fastforce simp: list_all_iff)+

lemma fits_raw_valid: "fits v d x \<Longrightarrow> 0 \<le> d \<Longrightarrow> d \<le> 10000 \<Longrightarrow> raw_valid x"
proof (induction v d x rule: fits.induct)
  case (1 v d t)
  then show ?case using parses_at_mono [of d t 10000] by (simp add: parses_at_json)
qed (auto simp: list_all_iff)

lemma marshal_reads:
  assumes "fits v 10000 x"
  shows "marshal v x = Some (encode v x)" and "parse_json (encode v x) = Some (doc_value v x)"
    and "list_all (\<lambda>c. 32 \<le> code c) (encode v x)"
proof -
  show "marshal v x = Some (encode v x)" using fits_raw_valid [OF assms] by (simp add: marshal_def)
  show "list_all (\<lambda>c. 32 \<le> code c) (encode v x)" by (rule encode_printable [OF assms]) simp_all
  have "reads 10000 (encode v x) (doc_value v x)" by (rule encode_reads [OF assms]) simp_all
  then obtain n where "parse_value n 10000 (encode v x @ []) = Some (doc_value v x, [])"
    unfolding reads_def by (metis stops_simps(1))
  then have n: "parse_value n 10000 (encode v x) = Some (doc_value v x, [])" by simp
  have "parse_value (2 * length (encode v x) + 1) 10000 (encode v x) = Some (doc_value v x, [])"
    by (rule parse_value_enough [OF n]) simp_all
  then show "parse_json (encode v x) = Some (doc_value v x)"
    using begins_skip [OF begins_value [OF n]] by (simp add: parse_json_def skip_def)
qed

end
