(* ===== verification/Mcp_Output.thy ===== *)
theory Mcp_Output
  imports Mcp_Facts Encode_Docs
begin

text \<open>
  The bytes the MCP transports write, and what a client that splits them into lines and reads
  each as JSON gets back.
\<close>

section \<open>Writing\<close>

text \<open>\<open>writeLine\<close> drops the error of \<open>json.Marshal\<close> and then writes an empty line.\<close>

definition write_line :: "leaves \<Rightarrow> rpc_response \<Rightarrow> string" where
  "write_line v a = (case marshal v (response_doc a) of None \<Rightarrow> [] | Some t \<Rightarrow> t) @ newline"

definition stdio_output ::
  "leaves \<Rightarrow> externals \<Rightarrow> mcp_handler \<Rightarrow> (nat \<Rightarrow> exec_id) \<Rightarrow> string \<Rightarrow> st \<Rightarrow> string" where
  "stdio_output v w h uids input s = concat (map (write_line v) (fst (fst (serve_stdio w h uids input s))))"

section \<open>Reading\<close>

function lines_of :: "string \<Rightarrow> string list" where
  "lines_of s = (if s = [] then [] else first_line s # lines_of (drop (length (first_line s) + 1) s))"
  by pat_completeness auto
termination by (relation "measure length") auto

declare lines_of.simps [simp del]

text \<open>The identifier of an answer read from its text: \<open>None\<close> for a text that is no object.\<close>

definition reply_id :: "string \<Rightarrow> raw_message option" where
  "reply_id l = (case top_members l of Some (ms, False) \<Rightarrow> Some (take_raw (values_of ''id'' ms)) | _ \<Rightarrow> None)"

lemma lines_of_line:
  assumes "list_all (\<lambda>c. 32 \<le> code c) t"
  shows "lines_of (t @ newline @ r) = t # lines_of r"
proof -
  have n: "CHR 0x0A \<notin> set t" using assms by (auto simp: list_all_iff)
  have "takeWhile (\<lambda>c. c \<noteq> CHR 0x0A) (t @ CHR 0x0A # r) = t"
    using n by (induction t) auto
  then show ?thesis
    by (subst lines_of.simps) (simp add: first_line_def newline_def)
qed

lemma lines_of_Nil [simp]: "lines_of [] = []"
  by (simp add: lines_of.simps)

section \<open>The raw texts of a request\<close>

lemma squash_off [simp]: "squash False p s = s"
  by (induction "False" p s rule: squash.induct) (simp_all add: squash.simps)

lemma members_raw:
  "parse_members n d s = Some (ms, r) \<Longrightarrow> 0 \<le> d \<Longrightarrow> (name, t, j) \<in> set ms \<Longrightarrow> parses_at d t"
proof (induction n arbitrary: s ms)
  case (Suc n)
  obtain x m s1 s2 v s3 e s4 where s: "s = CHR ''\"'' # x" and mp: "members_parts n d x m s1 s2 v s3 e s4"
    by (rule parse_members_SomeE [OF Suc.prems(1)])
  then have v: "parse_value n d (skip s2) = Some (v, s3)" by (simp add: members_parts_def)
  obtain p q where p: "skip s2 = p @ s3" "piece False p q"
    "\<forall>y. stops y \<longrightarrow> parse_value n d (q @ y) = Some (squash_value False v, y)"
    using local_readerE [OF conjunct1 [OF readers_local] v] by blast
  have "q = p" using piece_squash [OF p(2)] by simp
  then have "parse_value n d p = Some (squash_value False v, [])" using p(3) stops_simps(1) by (metis append_Nil2)
  then have t: "parses_at d (before (skip s2) s3)" using parses_atI Suc.prems(2) p(1) by (simp add: before_def)
  show ?case
    using Suc.prems Suc.IH t unfolding s parse_members_parts [OF mp] by (auto split: if_splits)
qed simp

lemma top_members_raw:
  assumes "top_members s = Some (ms, False)" and "(name, t, j) \<in> set ms"
  shows "parses_at 9999 t"
proof -
  obtain v where v: "parse_json s = Some v" "take_struct [([], v)] = (ms, False)"
    using assms(1) by (auto simp: top_members_def)
  with assms(2) have o: "v = J_obj ms" by (cases v) auto
  obtain r where p: "parse_value (2 * length s + 1) 10000 (skip s) = Some (J_obj ms, r)"
    using v(1) by (auto simp: parse_json_def o split: option.splits if_splits)
  obtain n where n: "2 * length s + 1 = Suc n" by simp
  obtain c x where c: "skip s = c # x" using p n by (cases "skip s") auto
  consider "c = CHR ''[''" | "c = CHR ''{''" | "c \<noteq> CHR ''[''" "c \<noteq> CHR ''{''" by blast
  then show ?thesis
  proof cases
    case 1
    with p show ?thesis unfolding n c 1 parse_value_bracketed by (auto simp: bracketed_def split: list.splits if_splits)
  next
    case 2
    with p have "bracketed CHR ''}'' J_obj (parse_members n 9999) x = Some (J_obj ms, r)"
      unfolding n c 2 parse_value_bracketed by simp
    then have "ms = [] \<or> parse_members n 9999 (skip x) = Some (ms, r)"
      by (auto simp: bracketed_def split: list.splits if_splits)
    with assms(2) show ?thesis using members_raw [of n 9999 "skip x" ms r name t j] by auto
  next
    case 3
    with p show ?thesis unfolding n c parse_value_scalar [OF 3] by (auto simp: scalar_def split: if_splits)
  qed
qed

lemma decode_request_id:
  assumes "decode_request line = Some q" and "q_id q = Some t"
  shows "parses_at 9999 t"
proof -
  obtain ms where ms: "top_members line = Some (ms, False)" and i: "take_raw (values_of ''id'' ms) = Some t"
    using assms by (auto simp: decode_request_def Let_def split: option.splits prod.splits if_splits)
  from i have "t \<in> fst ` set (values_of ''id'' ms)" by (auto simp: take_raw_def split: if_splits)
  then obtain name j where "(name, t, j) \<in> set ms" by (force simp: values_of_def)
  from top_members_raw [OF ms this] show ?thesis .
qed

section \<open>Answers can be written\<close>

text \<open>The schemas kept by the store are JSON that leaves room for the brackets around it.\<close>

definition schemas_fit :: "db \<Rightarrow> bool" where
  "schemas_fit d \<longleftrightarrow> (\<forall>t\<in>set (db_tools d). parses_at 9996 (t_input_schema t))"

definition id_fits :: "raw_message \<Rightarrow> bool" where
  "id_fits i \<longleftrightarrow> (\<forall>t. i = Some t \<longrightarrow> parses_at 9999 t)"

definition writable :: "leaves \<Rightarrow> rpc_response \<Rightarrow> bool" where
  "writable v a \<longleftrightarrow> id_fits (a_id a) \<and> (\<forall>d. a_result a = Some d \<longrightarrow> fits v 9999 d)"

lemma writable_ok: "id_fits i \<Longrightarrow> fits v 9999 d \<Longrightarrow> writable v (rpc_ok i d)"
  by (simp add: writable_def)

lemma writable_fail [simp]: "id_fits i \<Longrightarrow> writable v (rpc_fail i n m)"
  by (simp add: writable_def)

lemma writable_fits: "writable v a \<Longrightarrow> fits v 10000 (response_doc a)"
  by (auto simp: writable_def id_fits_def response_doc_def omit_raw_def omit_ptr_def rpc_error_doc_def split: option.split)

lemma call_answer_writable [simp]: "id_fits i \<Longrightarrow> writable v (call_answer i res)"
  using call_answer_cases [of i res] by (auto simp: writable_def call_result_def)

lemma submit_tools: "db_tools (tables (snd (submit jsonb uid ns name key args s))) = db_tools (tables s)"
  using submitting.preserves [where I = "\<lambda>d. db_tools d = db_tools (tables s)"]
  by (metis same_dataD(1) submit_effect_tools)

lemma tools_call_refused:
  assumes "decode_call (q_params q) = Some p" and "p_name p \<noteq> []"
    and "submit (w_jsonb w) uid (namespace_of p) (p_name p) (key_of p) (p_arguments p) s = (Inl e, s')"
  shows "\<exists>n m. tools_call w uid q s = (rpc_fail (q_id q) n m, s')"
proof -
  have eq: "tools_call w uid q s =
    (rpc_fail (q_id q) (if e = ErrUnknownTool then code_invalid_params else code_internal_error)
      (if e = ErrUnknownTool then ''unknown tool: '' @ p_name p else error_text w e), s')"
    using assms by (cases e) (simp_all add: tools_call_def)
  show ?thesis by (rule exI, rule exI, rule eq)
qed

lemma tools_call_writable:
  assumes "id_fits (q_id q)"
  shows "writable v (fst (tools_call w uid q s))"
    and "db_tools (tables (snd (tools_call w uid q s))) = db_tools (tables s)"
proof -
  have "writable v (fst (tools_call w uid q s)) \<and>
    db_tools (tables (snd (tools_call w uid q s))) = db_tools (tables s)"
  proof (cases "decode_call (q_params q)")
    case (Some p)
    obtain r s' where r: "submit (w_jsonb w) uid (namespace_of p) (p_name p) (key_of p) (p_arguments p) s = (r, s')"
      by (metis prod.collapse)
    have "db_tools (tables s') = db_tools (tables s)" using submit_tools r by (metis snd_conv)
    moreover have "\<exists>n m. tools_call w uid q s = (rpc_fail (q_id q) n m, s')" if "r = Inl e" "p_name p \<noteq> []" for e
      by (rule tools_call_refused [OF Some that(2) r [unfolded that(1)]])
    ultimately show ?thesis
      using Some r assms by (cases r; cases "p_name p = []") (fastforce simp: tools_call_def)+
  qed (use assms in \<open>simp add: tools_call_def\<close>)
  then show "writable v (fst (tools_call w uid q s))"
    "db_tools (tables (snd (tools_call w uid q s))) = db_tools (tables s)" by blast+
qed

lemma tools_list_writable:
  assumes "id_fits (q_id q)" and "schemas_fit (tables s)"
  shows "writable v (fst (tools_list w q s))" and "tables (snd (tools_list w q s)) = tables s"
proof -
  obtain r s' where l: "list_tools (w_coll w) s = (r, s')" by force
  from read_rows_ok [OF l [unfolded list_tools_def]] have s': "tables s' = tables s"
    and r: "(\<exists>e. r = Inl (DbError e)) \<or> r = Inr (sort_key (\<lambda>t. w_coll w (t_name t)) (db_tools (tables s)))" by blast+
  show "tables (snd (tools_list w q s)) = tables s" using l s' by (simp add: tools_list_def split: sum.split)
  show "writable v (fst (tools_list w q s))"
    using r l assms by (auto simp: tools_list_def writable_def schemas_fit_def list_all_iff)
qed

lemma dispatch_writable:
  assumes "id_fits (q_id q)" and "schemas_fit (tables s)"
  shows "pred_option (writable v) (fst (dispatch w h uid q s))"
    and "db_tools (tables (snd (dispatch w h uid q s))) = db_tools (tables s)"
  using assms tools_call_writable [OF assms(1)] tools_list_writable [OF assms]
  by (auto simp: dispatch_def initialize_def intro: writable_ok)

lemma serve_line_writable:
  assumes "schemas_fit (tables s)"
  shows "pred_option (writable v) (fst (serve_line w h uid line s))"
    and "schemas_fit (tables (snd (serve_line w h uid line s)))"
proof -
  have "id_fits (q_id q)" if "decode_request line = Some q" for q
    using decode_request_id [OF that] by (simp add: id_fits_def)
  then have "pred_option (writable v) (fst (serve_line w h uid line s)) \<and>
      db_tools (tables (snd (serve_line w h uid line s))) = db_tools (tables s)"
    using dispatch_writable [OF _ assms] by (auto simp: serve_line_def id_fits_def split: option.split)
  with assms show "pred_option (writable v) (fst (serve_line w h uid line s))"
    "schemas_fit (tables (snd (serve_line w h uid line s)))" by (simp_all add: schemas_fit_def)
qed

lemma serve_lines_writable:
  "schemas_fit (tables s) \<Longrightarrow> list_all (writable v) (fst (serve_lines w h uids ls s))"
proof (induction ls arbitrary: uids s)
  case (Cons l ls)
  obtain r s' where r: "serve_line w h (uids 0) l s = (r, s')" by force
  with serve_line_writable(1) [OF Cons.prems, of v w h "uids 0" l]
    serve_line_writable(2) [OF Cons.prems, of w h "uids 0" l] Cons.IH show ?case
    by (cases r) auto
qed simp

section \<open>What is read back\<close>

lemma write_line_reads:
  assumes "writable v a"
  shows "write_line v a = encode v (response_doc a) @ newline"
    and "list_all (\<lambda>c. 32 \<le> code c) (encode v (response_doc a))"
    and "parse_json (encode v (response_doc a)) = Some (doc_value v (response_doc a))"
  using marshal_reads [OF writable_fits [OF assms]] by (simp_all add: write_line_def)

lemma lines_of_written:
  "list_all (writable v) as \<Longrightarrow> lines_of (concat (map (write_line v) as)) = map (\<lambda>a. encode v (response_doc a)) as"
  by (induction as) (simp_all add: write_line_reads lines_of_line)

lemma response_names: "fold_name ''id'' \<noteq> fold_name ''jsonrpc''" "fold_name ''id'' \<noteq> fold_name ''result''"
  "fold_name ''id'' \<noteq> fold_name ''error''"
  by code_simp+

lemma reply_id_reads:
  assumes "writable v a"
  shows "reply_id (encode v (response_doc a)) = Some (map_option (squash True Outside) (a_id a))"
proof -
  have n: "valid_text ''jsonrpc'' = ''jsonrpc''" "valid_text ''id'' = ''id''" "valid_text ''result'' = ''result''"
    "valid_text ''error'' = ''error''"
    by (simp_all add: valid_text_ascii)
  have e: "a_id a \<noteq> Some []" using assms by (auto simp: writable_def id_fits_def parses_at_def skip_def)
  show ?thesis
    using write_line_reads(3) [OF assms] response_names e
    by (auto simp: reply_id_def top_members_def response_doc_def omit_raw_def omit_ptr_def values_of_def
        take_raw_def n split: option.split)
qed

section \<open>An example\<close>

definition demo_leaves :: leaves where
  "demo_leaves = \<lparr>lf_time = (\<lambda>_. ''2025-01-01T00:00:00Z''), lf_seconds = decimal\<rparr>"

definition demo_ping :: string where
  "demo_ping = ''{\"id\": [1, \"<\"],\"method\":\"ping\"}''"

lemma scan_one:
  assumes "list_all (\<lambda>c. c \<noteq> CHR 0x0A) l" and "l \<noteq> []" and "last l \<noteq> CHR 0x0D" and "length l < max_line"
  shows "scan_lines (l @ newline) = ([l], False)"
proof -
  have "takeWhile (\<lambda>c. c \<noteq> CHR 0x0A) (l @ [CHR 0x0A]) = l" using assms(1) by (induction l) auto
  then have f: "first_line (l @ newline) = l" by (simp add: first_line_def newline_def)
  have "scan_lines [] = ([], False)" by (subst scan_lines.simps) simp
  moreover have "drop (length l + 1) (l @ newline) = []" "drop_cr l = l" "l @ newline \<noteq> []"
    using assms by (simp_all add: newline_def drop_cr_def)
  ultimately show ?thesis using assms(4) by (subst scan_lines.simps) (simp add: f)
qed

text \<open>
  C19. What the server writes over stdio can be read: split into lines, its output is exactly
  one line per answer, every line is the JSON text of that answer, so no answer is broken over
  lines or swallowed, and the identifiers read from the lines are, in order, those of the
  requests, up to spaces and escapes.
\<close>

theorem stdio_output_read_back:
  assumes "schemas_fit (tables s)"
  shows "map parse_json (lines_of (stdio_output v w h uids input s)) =
      map (\<lambda>a. Some (doc_value v (response_doc a))) (fst (fst (serve_stdio w h uids input s))) \<and>
    map reply_id (lines_of (stdio_output v w h uids input s)) =
      map (\<lambda>i. Some (map_option (squash True Outside) i)) (List.map_filter answered (fst (scan_lines input)))"
proof -
  let ?as = "fst (fst (serve_stdio w h uids input s))"
  have ok: "list_all (writable v) ?as"
    using serve_lines_writable [OF assms] by (simp add: serve_stdio_def split_beta)
  have l: "lines_of (stdio_output v w h uids input s) = map (\<lambda>a. encode v (response_doc a)) ?as"
    unfolding stdio_output_def by (rule lines_of_written [OF ok])
  have "map parse_json (lines_of (stdio_output v w h uids input s)) = map (\<lambda>a. Some (doc_value v (response_doc a))) ?as"
    using ok write_line_reads(3) by (auto simp: l list_all_iff)
  moreover have "map reply_id (lines_of (stdio_output v w h uids input s)) =
      map (\<lambda>a. Some (map_option (squash True Outside) (a_id a))) ?as"
    using ok reply_id_reads by (auto simp: l list_all_iff)
  moreover have "map a_id ?as = List.map_filter answered (fst (scan_lines input))" by (rule serve_stdio_ids)
  ultimately show ?thesis by (metis (no_types, lifting) map_map comp_def map_eq_conv)
qed

theorem stdio_output_read_back_witness:
  "map reply_id (lines_of (stdio_output demo_leaves demo_world demo_handler (\<lambda>_. ''u'') (demo_ping @ newline) sc_start)) =
    [Some (Some (''[1,\"'' @ escaped_byte CHR ''<'' @ ''\"]''))]"
proof -
  have s: "schemas_fit (tables sc_start)" by code_simp
  have "list_all (\<lambda>c. c \<noteq> CHR 0x0A) demo_ping \<and> demo_ping \<noteq> [] \<and> last demo_ping \<noteq> CHR 0x0D" by code_simp
  moreover have "length demo_ping < max_line" by (simp add: demo_ping_def max_line_def)
  ultimately have "scan_lines (demo_ping @ newline) = ([demo_ping], False)" using scan_one by blast
  moreover have "List.map_filter answered [demo_ping] = [Some ''[1, \"<\"]'']" by code_simp
  moreover have "squash True Outside ''[1, \"<\"]'' = ''[1,\"'' @ escaped_byte CHR ''<'' @ ''\"]''" by code_simp
  ultimately show ?thesis
    using stdio_output_read_back [OF s, of demo_leaves demo_world demo_handler "\<lambda>_. ''u''" "demo_ping @ newline"] by simp
qed

end
