(* ===== verification/Api_Output.thy ===== *)
theory Api_Output
  imports Api_Facts Mcp_Output
begin

text \<open>
  The bytes of the REST server's answers, and what a client that reads them as JSON learns of
  the store.
\<close>

section \<open>Every document can be written\<close>

text \<open>
  The JSON texts the store keeps leave room for the brackets around them; times are written
  as plain text and seconds as numbers.
\<close>

definition stored_fit :: "db \<Rightarrow> bool" where
  "stored_fit d \<longleftrightarrow> schemas_fit d \<and> (\<forall>e\<in>set (db_executions d).
     parses_at 9996 (e_input_args e) \<and> (\<forall>r. e_result e = Some r \<longrightarrow> r = [] \<or> parses_at 9996 r))"

definition leaves_fit :: "leaves \<Rightarrow> bool" where
  "leaves_fit v \<longleftrightarrow> (\<forall>t. plain (lf_time v t)) \<and>
     (\<forall>n. number_literal (lf_seconds v n) = Some (lf_seconds v n, []))"

definition reply_fits :: "leaves \<Rightarrow> http_reply \<Rightarrow> bool" where
  "reply_fits v a \<longleftrightarrow> (case rp_body a of Doc d \<Rightarrow> fits v 10000 d | _ \<Rightarrow> True)"

lemma reply_fits_reply [simp]: "reply_fits v (reply n d) \<longleftrightarrow> fits v 10000 d"
  by (simp add: reply_fits_def reply_def)

lemma reply_fits_others [simp]: "reply_fits v (text_reply n t)" "reply_fits v (write_error w e)"
  "fits v 10000 (message name t)"
  by (simp_all add: reply_fits_def text_reply_def write_error_def reply_def message_def)

lemma parses_at_up: "parses_at 9996 t \<Longrightarrow> 9996 \<le> d \<Longrightarrow> parses_at d t"
  by (rule parses_at_mono) simp_all

lemma execution_doc_fits:
  assumes "stored_fit d" and "leaves_fit v" and "e \<in> set (db_executions d)" and "9998 \<le> n"
  shows "fits v n (execution_doc (scan_execution (with_lease d e)))"
proof -
  have "parses_at (n - 1) (e_input_args e)" and r: "\<forall>r. e_result e = Some r \<longrightarrow> r = [] \<or> parses_at (n - 1) r"
    using assms(1,3,4) parses_at_up [of _ "n - 1"] by (fastforce simp: stored_fit_def)+
  then show ?thesis
    using assms(2,4) by (auto simp: execution_doc_def scan_execution_def with_lease_def leaves_fit_def omit_raw_def
      omit_str_def omit_ptr_def lease_doc_def split: option.split)
qed

lemma event_doc_fits: "leaves_fit v \<Longrightarrow> 3 \<le> n \<Longrightarrow> fits v n (event_doc u)"
proof -
  assume v: "leaves_fit v" and n: "3 \<le> n"
  have "fits v k (payload_value_doc x)" for k x by (cases x) simp_all
  with v n show ?thesis
    by (auto simp: event_doc_def leaves_fit_def omit_str_def omit_ptr_def list_all_iff split: option.split)
qed

lemma tool_doc_fits: "stored_fit d \<Longrightarrow> leaves_fit v \<Longrightarrow> t \<in> set (db_tools d) \<Longrightarrow> 9998 \<le> n \<Longrightarrow> fits v n (tool_doc t)"
  by (auto simp: tool_doc_def stored_fit_def schemas_fit_def leaves_fit_def intro: parses_at_up)

section \<open>Every handler\<close>

lemma answer_fits: "(\<And>x. fst out = Inr x \<Longrightarrow> reply_fits v (f x)) \<Longrightarrow> reply_fits v (fst (answer w f out))"
  by (simp add: answer_def split: prod.split sum.split)

lemma rows_answer: "fst (read_rows q s) = Inr rows \<Longrightarrow> \<exists>now. rows = q now (tables s)"
  using read_rows_Inr [of q s rows "snd (read_rows q s)"] fst_pair by metis

lemma stmt_answer: "fst (read_stmt q s) = Inr x \<Longrightarrow> \<exists>now. x = q now (tables s)"
  using read_stmt_Inr [of q s x "snd (read_stmt q s)"] fst_pair by metis

lemma get_executions_fits:
  assumes "stored_fit (tables s)" and "leaves_fit v"
  shows "reply_fits v (fst (get_executions w g s))"
proof -
  have "fits v 9998 (execution_doc x)"
    if xs: "fst (list_executions tie a b l off s) = Inr xs" "x \<in> set xs" for tie a b l off xs x
  proof -
    obtain e where e: "e \<in> set (matching tie a b (tables s))" "x = scan_execution (with_lease (tables s) e)"
      using rows_answer [OF xs(1) [unfolded list_executions_def]] xs(2)
      by (auto dest: in_set_takeD in_set_dropD)
    then have "e \<in> set (db_executions (tables s))" by (simp add: matching_def)
    with e(2) show ?thesis using execution_doc_fits [OF assms] by simp
  qed
  then show ?thesis by (auto simp: get_executions_def Let_def list_all_iff intro!: answer_fits)
qed

lemma get_one_fits:
  assumes "stored_fit (tables s)" and "leaves_fit v"
  shows "reply_fits v (fst (get_one w g s))"
proof -
  have "fits v 10000 (execution_doc x)" if x: "fst (get_execution f i s) = Inr (Some x)" for f i x
  proof -
    obtain k where "f i = Inr k" using x by (cases "f i") (simp_all add: get_execution_def prog_fail_def)
    then obtain e where e: "exec_of (tables s) k = Some e" "x = scan_execution (with_lease (tables s) e)"
      using stmt_answer [of "\<lambda>now d. map_option (\<lambda>e. scan_execution (with_lease d e)) (exec_of d k)" s "Some x"] x
      by (cases "exec_of (tables s) k") (auto simp: get_execution_def)
    then have "e \<in> set (db_executions (tables s))" by (auto simp: exec_of_def dest: row_of_SomeD)
    with e(2) show ?thesis using execution_doc_fits [OF assms] by simp
  qed
  then show ?thesis by (auto simp: get_one_def intro!: answer_fits split: option.split)
qed

lemma get_tools_fits:
  assumes "stored_fit (tables s)" and "leaves_fit v"
  shows "reply_fits v (fst (get_tools w s))"
proof -
  have "fits v 9998 (tool_doc t)" if "fst (list_tools c s) = Inr ts" "t \<in> set ts" for c ts t
    using rows_answer [OF that(1) [unfolded list_tools_def]] that(2) tool_doc_fits [OF assms] by auto
  then show ?thesis by (auto simp: get_tools_def list_all_iff intro!: answer_fits)
qed

lemma other_handlers_fit:
  assumes "leaves_fit v"
  shows "reply_fits v (fst (ready s))" and "reply_fits v (fst (get_stats w s))"
    and "reply_fits v (fst (get_events w g s))" and "reply_fits v (fst (get_workers w s))"
    and "reply_fits v (fst (force_complete w g s))" and "reply_fits v (fst (sse_stream b ts, s))"
proof -
  show "reply_fits v (fst (ready s))" by (simp add: ready_def split: prod.split sum.split)
  show "reply_fits v (fst (get_stats w s))" by (simp add: get_stats_def stats_doc_def answer_fits)
  show "reply_fits v (fst (get_events w g s))"
    using event_doc_fits [OF assms] by (auto simp: get_events_def list_all_iff intro!: answer_fits)
  have "fits v n (worker_doc y)" if "0 < n" for n y
    using that assms by (simp add: worker_doc_def leaves_fit_def)
  then show "reply_fits v (fst (get_workers w s))"
    by (auto simp: get_workers_def list_all_iff intro!: answer_fits)
  show "reply_fits v (fst (force_complete w g s))"
    by (simp add: force_complete_def split: option.split prod.split sum.split error.split)
  show "reply_fits v (fst (sse_stream b ts, s))" by (simp add: sse_stream_def reply_fits_def text_reply_def)
qed

lemma http_post_fits:
  assumes "schemas_fit (tables s)"
  shows "reply_fits v (fst (http_post w h uid m body s))"
proof -
  have r: "reply_fits v (rpc_reply x)" if "writable v x" for x
    using writable_fits [OF that] by (simp add: rpc_reply_def)
  have n: "id_fits None" by (simp add: id_fits_def)
  have q: "id_fits (q_id q)" if "decode_request t = Some q" for t q
    using decode_request_id [OF that] by (auto simp: id_fits_def)
  have d: "pred_option (writable v) (fst (dispatch w h uid q s))" if "decode_request t = Some q" for t q
    by (rule dispatch_writable(1) [OF q [OF that] assms])
  show ?thesis
  proof (cases "m = ''POST'' \<and> body \<noteq> None")
    case True
    then obtain y where b: "body = Some y" "m = ''POST''" by blast
    show ?thesis
    proof (cases "decode_request (take body_limit y)")
      case (Some x)
      obtain a s' where a: "dispatch w h uid x s = (a, s')" by (metis prod.collapse)
      have "reply_fits v accepted_reply" by (simp add: accepted_reply_def reply_fits_def)
      with d [OF Some] q [OF Some] a r b Some show ?thesis by (cases a) (auto simp: http_post_def)
    qed (use b r n in \<open>simp add: http_post_def\<close>)
  qed (use r n in \<open>auto simp: http_post_def\<close>)
qed

lemma serve_http_fits:
  assumes "stored_fit (tables s)" and "leaves_fit v"
  shows "reply_fits v (fst (serve_http w sv uid g s))"
proof (cases "route sv g")
  case (Inr e)
  have req: "reply_fits v (fst (require_reader sv g f s))" if "reply_fits v (fst (f s))" for f
    using that by (simp add: require_reader_def)
  have mcp: "reply_fits v (fst (serve_mcp w sv uid g s))"
    using http_post_fits assms(1) by (simp add: serve_mcp_def stored_fit_def split: option.split)
  have "reply_fits v (fst (handle w sv uid g e s))"
    using other_handlers_fit [OF assms(2)] get_executions_fits [OF assms] get_one_fits [OF assms]
      get_tools_fits [OF assms] req mcp
    by (cases e) simp_all
  with Inr show ?thesis by (simp add: serve_http_def)
qed (simp add: serve_http_def)

section \<open>What a client reads\<close>

lemma body_bytes_read:
  assumes "fits v 10000 d"
  shows "body_bytes v (Doc d) = encode v d @ newline" and "parse_json (body_bytes v (Doc d)) = Some (doc_value v d)"
    and "list_all (\<lambda>c. 32 \<le> code c) (encode v d)"
proof -
  note m = marshal_reads [OF assms]
  show b: "body_bytes v (Doc d) = encode v d @ newline" using m(1) by (simp add: body_bytes_def)
  show "list_all (\<lambda>c. 32 \<le> code c) (encode v d)" by (rule m(3))
  have "reads 10000 (encode v d) (doc_value v d)" by (rule encode_reads [OF assms]) simp_all
  moreover have "stops newline" by (simp add: newline_def number_char_def is_digit_def between_def)
  ultimately obtain n where n: "parse_value n 10000 (encode v d @ newline) = Some (doc_value v d, newline)"
    unfolding reads_def by blast
  have "parse_value (2 * length (encode v d @ newline) + 1) 10000 (encode v d @ newline) = Some (doc_value v d, newline)"
    by (rule parse_value_enough [OF n]) simp_all
  moreover have "skip newline = []" by (simp add: newline_def skip_def is_space_def)
  ultimately show "parse_json (body_bytes v (Doc d)) = Some (doc_value v d)"
    unfolding b using begins_skip [OF begins_value [OF n]] by (simp add: parse_json_def)
qed

text \<open>
  C23. Every JSON answer of the REST server can be read: whatever the request and the
  connection, an answer with a document is written as one line of JSON, and reading the body
  gives back exactly that document.
\<close>

theorem http_bodies_read_back:
  assumes "stored_fit (tables s)" and "leaves_fit v" and "serve_http w sv uid g s = (a, s')" and "rp_body a = Doc d"
  shows "lines_of (body_bytes v (rp_body a)) = [encode v d] \<and> parse_json (body_bytes v (rp_body a)) = Some (doc_value v d)"
proof -
  have "fits v 10000 d" using serve_http_fits [OF assms(1,2), of w sv uid g] assms(3,4) by (simp add: reply_fits_def)
  note b = body_bytes_read [OF this]
  have "lines_of (encode v d @ newline) = [encode v d]" using lines_of_line [OF b(3), of "[]"] by simp
  with b(1,2) show ?thesis by (simp add: assms(4))
qed

section \<open>Looking up an execution\<close>

definition field :: "json \<Rightarrow> string \<Rightarrow> json option" where
  "field j name = (case j of J_obj ms \<Rightarrow> map_of (map (\<lambda>(n, _, x). (n, x)) ms) name | _ \<Rightarrow> None)"

lemma route_one:
  assumes "g_method g = ''GET''" and "g_path g = [''api'', ''v1'', ''executions'', t]" and "t \<noteq> []"
  shows "route sv g = Inr Get_one"
  using assms by (simp add: route_def routes_def api_def method_matches_def Let_def)

lemma look_up_answer:
  assumes "net s = []" and "reader_allowed (sv_reader_key sv) (g_auth g)"
    and "g_method g = ''GET''" and "g_path g = [''api'', ''v1'', ''executions'', t]" and "t \<noteq> []"
    and "w_uuid w t = Inr k" and "exec_of (tables s) k = Some e"
  shows "serve_http w sv uid g s = (reply 200 (execution_doc (scan_execution (with_lease (tables s) e))), s)"
proof -
  have "get_one w g s = (reply 200 (execution_doc (scan_execution (with_lease (tables s) e))), s)"
    using assms(1,6,7) assms(4)
    by (simp add: get_one_def path_id_def get_execution_def read_stmt_def auto_stmt_def exec_stmt_def arrive_def answer_def)
  then show ?thesis
    using route_one [OF assms(3-5)] assms(2) by (simp add: serve_http_def require_reader_def)
qed

lemma field_member:
  "field (doc_value v (D_obj ms)) name = map_of (map (\<lambda>(n, d). (valid_text n, doc_value v d)) ms) name"
  by (simp add: field_def comp_def case_prod_unfold)

lemma member_names:
  "valid_text ''id'' = ''id''" "valid_text ''namespace'' = ''namespace''" "valid_text ''tool_name'' = ''tool_name''"
  "valid_text ''idempotency_key'' = ''idempotency_key''" "valid_text ''input_args'' = ''input_args''"
  "valid_text ''status'' = ''status''" "valid_text ''attempts'' = ''attempts''" "valid_text ''max_attempts'' = ''max_attempts''"
  "valid_text ''result'' = ''result''" "valid_text ''error_message'' = ''error_message''"
  "valid_text ''created_at'' = ''created_at''" "valid_text ''updated_at'' = ''updated_at''" "valid_text ''lease'' = ''lease''"
  by code_simp+

lemma status_valid: "valid_text (status_text x) = status_text x"
  by (cases x; simp only: status_text.simps; code_simp)

lemma execution_fields:
  fixes e :: execution and d :: db and v :: leaves
  defines "j \<equiv> doc_value v (execution_doc (scan_execution (with_lease d e)))"
  shows "field j ''id'' = Some (J_str (valid_text (e_id e)))"
    and "field j ''status'' = Some (J_str (status_text (e_status e)))"
    and "field j ''attempts'' = Some (J_num (decimal (e_attempts e)))"
    and "field j ''lease'' = map_option (\<lambda>l. doc_value v (lease_doc l)) (lease_of d (e_id e))"
    and "field j ''result'' = (case e_result e of None \<Rightarrow> None | Some r \<Rightarrow> if r = [] then None else Some (doc_value v (D_raw r)))"
  unfolding j_def execution_doc_def field_member scan_execution_def with_lease_def
  by (simp_all add: member_names status_valid omit_raw_def omit_str_def omit_ptr_def doc_value.simps(2,4) del: doc_value.simps(1,3,5-8) split: option.split)

text \<open>
  C22. A client that looks up an execution over HTTP learns its true state: the bytes of the
  answer, read as JSON, have its identifier, status and attempts, a lease exactly while it is
  running, and a result only when it has completed, which is the stored one; and looking
  changes nothing.
\<close>

theorem look_up_reads_back:
  assumes "wf_db (tables s)" and "net s = []" and "stored_fit (tables s)" and "leaves_fit v"
    and "reader_allowed (sv_reader_key sv) (g_auth g)" and "g_method g = ''GET''"
    and "g_path g = [''api'', ''v1'', ''executions'', t]" and "t \<noteq> []"
    and "w_uuid w t = Inr k" and "exec_of (tables s) k = Some e"
  shows "\<exists>a j. serve_http w sv uid g s = (a, s) \<and> rp_status a = 200 \<and>
    parse_json (body_bytes v (rp_body a)) = Some j \<and>
    field j ''id'' = Some (J_str (valid_text k)) \<and> field j ''status'' = Some (J_str (status_text (e_status e))) \<and>
    field j ''attempts'' = Some (J_num (decimal (e_attempts e))) \<and>
    (field j ''lease'' \<noteq> None \<longleftrightarrow> e_status e = Running) \<and>
    (field j ''result'' \<noteq> None \<longrightarrow> e_status e = Completed) \<and>
    (\<forall>r. e_result e = Some r \<and> r \<noteq> [] \<longrightarrow> field j ''result'' = map_option (squash_value True) (parse_json r))"
proof -
  let ?d = "execution_doc (scan_execution (with_lease (tables s) e))"
  have mem: "e \<in> set (db_executions (tables s))" and id: "e_id e = k"
    using assms(10) by (auto simp: exec_of_def dest: row_of_SomeD)
  have "fits v 10000 ?d" using execution_doc_fits [OF assms(3,4) mem] by simp
  note b = body_bytes_read(2) [OF this]
  note f = execution_fields [of v "tables s" e]
  have row: "e_status e = Running \<longleftrightarrow> lease_of (tables s) k \<noteq> None" "e_status e \<noteq> Completed \<Longrightarrow> e_result e = None"
    using wf_db_row [OF assms(1,10)] by (simp_all add: coherent_row_def)
  have raw: "Some (doc_value v (D_raw r)) = map_option (squash_value True) (parse_json r)" if "e_result e = Some r" "r \<noteq> []" for r
  proof -
    have "parses_at 10000 r" using assms(3) mem that parses_at_up [of r 10000] by (auto simp: stored_fit_def)
    then show ?thesis by (auto simp: parses_at_json)
  qed
  have res: "field (doc_value v ?d) ''result'' \<noteq> None \<longrightarrow> e_status e = Completed" using f(5) row(2) by (cases "e_status e = Completed") simp_all
  show ?thesis
    by (rule exI [of _ "reply 200 ?d"], rule exI [of _ "doc_value v ?d"])
      (use look_up_answer [OF assms(2,5-10)] b f raw row(1) res id in \<open>simp add: reply_def\<close>)
qed

section \<open>A look-up\<close>

definition demo_server :: server where
  "demo_server = \<lparr>sv_reader_key = ''key'', sv_allow_test = False, sv_mcp = None\<rparr>"

definition demo_look_up :: http_request where
  "demo_look_up = \<lparr>g_method = ''GET'', g_path = [''api'', ''v1'', ''executions'', ''a''], g_auth = ''Bearer key'',
     g_query = [], g_body = None, g_ticks = []\<rparr>"

lemma demo_leaves_fit: "leaves_fit demo_leaves"
proof -
  have "plain ''2025-01-01T00:00:00Z''" by code_simp
  then show ?thesis by (simp add: leaves_fit_def demo_leaves_def decimal_literal)
qed

lemma stored_fit_claimed: "stored_fit (tables sc_claimed)"
proof -
  have "schemas_fit (tables sc_claimed)" by code_simp
  moreover have "\<forall>e\<in>set (db_executions (tables sc_claimed)). parses_at 9996 (e_input_args e) \<and> e_result e = None" by code_simp
  ultimately show ?thesis by (auto simp: stored_fit_def)
qed

theorem http_bodies_read_back_witness:
  "lines_of (body_bytes demo_leaves (rp_body (fst (serve_http demo_world demo_server ''u''
     (demo_look_up\<lparr>g_auth := []\<rparr>) sc_claimed)))) =
   [encode demo_leaves (message ''error'' ''invalid reader key'')]"
proof -
  let ?g = "demo_look_up\<lparr>g_auth := []\<rparr>"
  have "route demo_server ?g = Inr Get_one" by (rule route_one [of _ "''a''"]) (simp_all add: demo_look_up_def)
  then have s: "serve_http demo_world demo_server ''u'' ?g sc_claimed =
      (reply 401 (message ''error'' ''invalid reader key''), sc_claimed)"
    by (simp add: serve_http_def require_reader_def reader_allowed_def demo_server_def demo_look_up_def)
  have b: "rp_body (reply 401 (message ''error'' ''invalid reader key'')) = Doc (message ''error'' ''invalid reader key'')"
    by (simp add: reply_def)
  show ?thesis using http_bodies_read_back [OF stored_fit_claimed demo_leaves_fit s b] unfolding s by simp
qed

theorem look_up_reads_back_witness:
  "\<exists>j. parse_json (body_bytes demo_leaves (rp_body (fst (serve_http demo_world demo_server ''u'' demo_look_up sc_claimed)))) = Some j \<and>
     field j ''status'' = Some (J_str ''running'') \<and> field j ''lease'' \<noteq> None"
proof -
  have n: "net sc_claimed = []" by code_simp
  have "map_option e_status (exec_of (tables sc_claimed) ''a'') = Some Running" by code_simp
  then obtain e where e: "exec_of (tables sc_claimed) ''a'' = Some e" "e_status e = Running" by auto
  have r: "reader_allowed (sv_reader_key demo_server) (g_auth demo_look_up)"
    by (simp add: reader_allowed_def demo_server_def demo_look_up_def)
  have g: "g_method demo_look_up = ''GET''" "g_path demo_look_up = [''api'', ''v1'', ''executions'', ''a'']"
    "w_uuid demo_world ''a'' = Inr ''a''" by (simp_all add: demo_look_up_def demo_world_def)
  obtain a j where "serve_http demo_world demo_server ''u'' demo_look_up sc_claimed = (a, sc_claimed)"
    "parse_json (body_bytes demo_leaves (rp_body a)) = Some j" "field j ''status'' = Some (J_str (status_text (e_status e)))"
    "field j ''lease'' \<noteq> None \<longleftrightarrow> e_status e = Running"
    using look_up_reads_back [OF wf_sc_claimed n stored_fit_claimed demo_leaves_fit r g(1,2) _ g(3) e(1), of "''u''"] by blast
  then show ?thesis using e(2) by (intro exI [of _ j]) simp
qed

end
