(* ===== verification/Transports.thy ===== *)
theory Transports
  imports Api_Output
begin

text \<open>
  What a client of the MCP server reads in the bytes of an answer: which error code means
  what, and that the two transports answer a message with the same bytes.
\<close>

section \<open>Reading an answer\<close>

definition reply_members :: "string \<Rightarrow> members" where
  "reply_members l = (case top_members l of Some (ms, False) \<Rightarrow> ms | _ \<Rightarrow> [])"

definition reply_has :: "string \<Rightarrow> string \<Rightarrow> bool" where
  "reply_has name l \<longleftrightarrow> values_of name (reply_members l) \<noteq> []"

definition reply_version :: "string \<Rightarrow> string" where
  "reply_version l = fst (take_string (values_of ''jsonrpc'' (reply_members l)) [])"

definition reply_code :: "string \<Rightarrow> int option" where
  "reply_code l = (case values_of ''code'' (fst (take_struct (values_of ''error'' (reply_members l)))) of
       [] \<Rightarrow> None | vs \<Rightarrow> Some (fst (take_int vs 0)))"

lemma reply_names: "fold_name ''error'' \<noteq> fold_name ''jsonrpc''" "fold_name ''error'' \<noteq> fold_name ''result''"
  "fold_name ''result'' \<noteq> fold_name ''jsonrpc''" "fold_name ''code'' \<noteq> fold_name ''message''"
  by code_simp+

lemma reply_texts: "valid_text ''jsonrpc'' = ''jsonrpc''" "valid_text ''id'' = ''id''"
  "valid_text ''result'' = ''result''" "valid_text ''error'' = ''error''" "valid_text ''code'' = ''code''"
  "valid_text ''message'' = ''message''" "valid_text ''2.0'' = ''2.0''"
  by (simp_all add: valid_text_ascii)

lemma object_members:
  assumes "parse_json l = Some (doc_value v (D_obj ms))"
  shows "reply_members l = map (\<lambda>(name, d). (valid_text name, encode v d, doc_value v d)) ms"
  by (simp only: reply_members_def top_members_def assms option.map doc_value.simps take_struct.simps apfst_conv append_Nil2 option.case prod.case bool.case)

lemma written_members:
  assumes "writable v a"
  shows "reply_members (encode v (response_doc a)) =
    map (\<lambda>(name, d). (valid_text name, encode v d, doc_value v d))
      ([(''jsonrpc'', D_str (a_jsonrpc a))] @ omit_raw ''id'' (a_id a) @ omit_ptr ''result'' (\<lambda>d. d) (a_result a) @
       omit_ptr ''error'' rpc_error_doc (a_error a))"
  using object_members [OF write_line_reads(3) [OF assms, unfolded response_doc_def]]
  by (simp only: response_doc_def append_assoc)

text \<open>The numbers of the five codes are read back.\<close>

lemma code_read: "- 33000 \<le> n \<Longrightarrow> n \<le> 0 \<Longrightarrow> atoi (decimal n) = Some n"
  by (intro atoi_decimal) (simp add: in_int64_def int64_max_def)

lemma reply_reads:
  assumes "writable v a"
  shows "reply_has ''id'' (encode v (response_doc a)) \<longleftrightarrow> a_id a \<noteq> None"
    and "reply_has ''result'' (encode v (response_doc a)) \<longleftrightarrow> a_result a \<noteq> None"
    and "reply_has ''error'' (encode v (response_doc a)) \<longleftrightarrow> a_error a \<noteq> None"
    and "a_jsonrpc a = ''2.0'' \<Longrightarrow> reply_version (encode v (response_doc a)) = ''2.0''"
    and "(\<forall>e. a_error a = Some e \<longrightarrow> r_code e \<in> {- 32700, - 32600, - 32601, - 32602, - 32603}) \<Longrightarrow>
      reply_code (encode v (response_doc a)) = map_option r_code (a_error a)"
proof -
  have e: "a_id a \<noteq> Some []" using assms by (auto simp: writable_def id_fits_def parses_at_def skip_def)
  note d = reply_has_def reply_version_def reply_code_def written_members [OF assms] values_of_def
  note r = omit_raw_def omit_ptr_def reply_texts response_names reply_names response_names [symmetric] reply_names [symmetric]
  show "reply_has ''id'' (encode v (response_doc a)) \<longleftrightarrow> a_id a \<noteq> None"
    unfolding d using e by (auto simp: r simp del: fold_name.simps split: option.split)
  show "reply_has ''result'' (encode v (response_doc a)) \<longleftrightarrow> a_result a \<noteq> None"
    unfolding d using e by (auto simp: r simp del: fold_name.simps split: option.split)
  show "reply_has ''error'' (encode v (response_doc a)) \<longleftrightarrow> a_error a \<noteq> None"
    unfolding d using e by (auto simp: r simp del: fold_name.simps split: option.split)
  show "reply_version (encode v (response_doc a)) = ''2.0''" if "a_jsonrpc a = ''2.0''"
    unfolding d using that e by (auto simp: r simp del: fold_name.simps split: option.split)
  show "reply_code (encode v (response_doc a)) = map_option r_code (a_error a)"
    if "\<forall>e. a_error a = Some e \<longrightarrow> r_code e \<in> {- 32700, - 32600, - 32601, - 32602, - 32603}"
    unfolding d using that code_read e by (auto simp: r rpc_error_doc_def simp del: fold_name.simps decimal_def split: option.split)
qed

section \<open>Which error means what\<close>

text \<open>
  A call is refused when its parameters are not those of a call, name no tool, or name one
  that is not registered; it breaks when PostgreSQL refuses the row, because the arguments are
  no JSON for it or the identifier drawn for a new row is taken.
\<close>

definition call_refused :: "db \<Rightarrow> rpc_request \<Rightarrow> bool" where
  "call_refused d q \<longleftrightarrow> (case decode_call (q_params q) of None \<Rightarrow> True
     | Some p \<Rightarrow> p_name p = [] \<or> row_of t_name (db_tools d) (p_name p) = None)"

definition call_breaks :: "externals \<Rightarrow> exec_id \<Rightarrow> db \<Rightarrow> rpc_request \<Rightarrow> bool" where
  "call_breaks w uid d q \<longleftrightarrow> \<not> call_refused d q \<and> (case decode_call (q_params q) of None \<Rightarrow> False
     | Some p \<Rightarrow> w_jsonb w (args_or_empty (p_arguments p)) = None \<or>
         row_of e_key (db_executions d) (namespace_of p, p_name p, key_of p) = None \<and> exec_of d uid \<noteq> None)"

definition error_code :: "rpc_response \<Rightarrow> int option" where
  "error_code a = map_option r_code (a_error a)"

lemma error_code_simps [simp]:
  "error_code (rpc_ok i d) = None" "error_code (rpc_fail i n m) = Some n" "error_code (call_answer i res) = None"
  by (simp_all add: error_code_def)

lemma tools_call_code:
  assumes "net s = []"
  shows "error_code (fst (tools_call w uid q s)) =
    (if call_refused (tables s) q then Some (- 32602) else if call_breaks w uid (tables s) q then Some (- 32603) else None)"
proof (cases "decode_call (q_params q)")
  case None
  then show ?thesis by (simp add: tools_call_def call_refused_def code_invalid_params_def)
next
  case (Some p)
  note sub = submitting.quiet [OF assms, of "w_jsonb w" uid "namespace_of p" "p_name p" "key_of p" "p_arguments p"]
  show ?thesis
    using Some sub
    by (auto simp: tools_call_def call_refused_def call_breaks_def submit_effect_def
        code_invalid_params_def code_internal_error_def split: option.split)
qed

lemma tools_list_code: "net s = [] \<Longrightarrow> error_code (fst (tools_list w q s)) = None"
  by (simp add: tools_list_def list_tools_def read_rows_quiet)

definition mcp_methods :: "string list" where
  "mcp_methods = [''initialize'', ''tools/list'', ''tools/call'', ''ping'']"

lemma dispatch_code:
  assumes "net s = []" and "dispatch w h uid q s = (Some a, s')"
  shows "error_code a = (if q_method q \<notin> set mcp_methods then Some (- 32601)
    else if q_method q = ''tools/call'' \<and> call_refused (tables s) q then Some (- 32602)
    else if q_method q = ''tools/call'' \<and> call_breaks w uid (tables s) q then Some (- 32603) else None)"
proof -
  have a: "fst (dispatch w h uid q s) = Some a" using assms(2) by simp
  consider "q_method q = ''initialize''" | "q_method q = ''tools/list''" | "q_method q = ''tools/call''"
    | "q_method q = ''ping''" | "q_method q \<notin> set mcp_methods" by (auto simp: mcp_methods_def)
  then show ?thesis
  proof cases
    case 2
    with a tools_list_code [OF assms(1), of w q] show ?thesis by (auto simp: dispatch_def mcp_methods_def split: if_splits)
  next
    case 3
    with a tools_call_code [OF assms(1), of w uid q] show ?thesis by (auto simp: dispatch_def mcp_methods_def split: if_splits)
  next
    case 5
    then have "q_method q \<noteq> ''initialize''" "q_method q \<noteq> ''tools/list''" "q_method q \<noteq> ''tools/call''" "q_method q \<noteq> ''ping''"
      by (auto simp: mcp_methods_def)
    with a 5 show ?thesis by (auto simp: dispatch_def code_method_not_found_def split: if_splits)
  qed (use a in \<open>auto simp: dispatch_def initialize_def mcp_methods_def split: if_splits\<close>)
qed

definition rpc_shape :: "rpc_response \<Rightarrow> bool" where
  "rpc_shape a \<longleftrightarrow> a_jsonrpc a = ''2.0'' \<and> (a_result a = None \<longleftrightarrow> a_error a \<noteq> None)"

lemma rpc_shape_simps [simp]: "rpc_shape (rpc_ok i d)" "rpc_shape (rpc_fail i n m)"
  by (simp_all add: rpc_shape_def)

lemma tools_shape: "rpc_shape (fst (tools_call w uid q s))" "rpc_shape (fst (tools_list w q s))"
proof -
  show "rpc_shape (fst (tools_list w q s))" by (auto simp: tools_list_def split: prod.split sum.split)
  have "rpc_shape (call_answer i res)" for i res using call_answer_cases [of i res] by auto
  then show "rpc_shape (fst (tools_call w uid q s))"
    by (auto simp: tools_call_def split: option.split prod.split sum.split error.split)
qed

lemma serve_line_shape: "serve_line w h uid line s = (Some a, s') \<Longrightarrow> rpc_shape a"
proof -
  have "pred_option rpc_shape (fst (dispatch w h uid q s))" for q
    using tools_shape(1) [of w uid q s] tools_shape(2) [of w q s] by (simp add: dispatch_def initialize_def)
  then show "serve_line w h uid line s = (Some a, s') \<Longrightarrow> rpc_shape a"
    by (auto simp: serve_line_def split: option.splits if_splits) (metis fst_conv option.pred_inject(2))
qed

lemma serve_line_code:
  assumes "net s = []" and "serve_line w h uid line s = (Some a, s')"
  shows "error_code a = (case decode_request line of None \<Rightarrow> Some (- 32700)
     | Some q \<Rightarrow> if q_method q \<notin> set mcp_methods then Some (- 32601)
         else if q_method q = ''tools/call'' \<and> call_refused (tables s) q then Some (- 32602)
         else if q_method q = ''tools/call'' \<and> call_breaks w uid (tables s) q then Some (- 32603) else None)"
proof (cases "decode_request line")
  case None
  with assms(2) show ?thesis by (auto simp: serve_line_def code_parse_error_def split: if_splits)
next
  case (Some q)
  with assms(2) have "dispatch w h uid q s = (Some a, s')" by (simp add: serve_line_def split: if_splits)
  from dispatch_code [OF assms(1) this] show ?thesis unfolding Some option.case .
qed


text \<open>A call of a tool nobody registered.\<close>

definition demo_unknown :: string where
  "demo_unknown = ''{\"jsonrpc\":\"2.0\",\"id\":1,\"method\":\"tools/call\",\"params\":{\"name\":\"rm\"}}''"


section \<open>The transports agree\<close>

lemma stdio_one_line:
  assumes "CHR 0x0A \<notin> set t" and "t \<noteq> []" and "last t \<noteq> CHR 0x0D" and "length t \<le> body_limit"
    and "serve_line w h (uids 0) t s = (r, s')"
  shows "stdio_output v w h uids (t @ newline) s = (case r of None \<Rightarrow> [] | Some a \<Rightarrow> write_line v a)"
    and "snd (serve_stdio w h uids (t @ newline) s) = s'"
proof -
  have "list_all (\<lambda>c. c \<noteq> CHR 0x0A) t" using assms(1) by (auto simp: list_all_iff)
  moreover have "length t < max_line" using assms(4) by (simp add: body_limit_def max_line_def)
  ultimately have "scan_lines (t @ newline) = ([t], False)" using scan_one assms(2,3) by blast
  then show "stdio_output v w h uids (t @ newline) s = (case r of None \<Rightarrow> [] | Some a \<Rightarrow> write_line v a)"
    "snd (serve_stdio w h uids (t @ newline) s) = s'"
    using assms(5) by (simp_all add: stdio_output_def serve_stdio_def split: option.split)
qed

lemma posted:
  assumes "t \<noteq> []" and "length t \<le> body_limit"
    and "\<forall>q. decode_request t = Some q \<longrightarrow> q_jsonrpc q = ''2.0''" and "serve_line w h uid t s = (r, s')"
  shows "http_post w h uid ''POST'' (Some t) s = ((case r of None \<Rightarrow> accepted_reply | Some a \<Rightarrow> rpc_reply a), s')"
  using assms by (auto simp: http_post_def serve_line_def split: option.splits prod.split)

text \<open>
  C21. The two transports answer a message alike, to the byte: for a message on one line of
  at most 1 MiB that is not empty and has no line feed in it and no carriage return at its
  end, the body \<open>POST /mcp\<close> answers with is exactly what the server writes over stdio when it
  reads that line, nothing with status 202 for a notification, a line with status 200
  otherwise, and the store is left the same; the one exception is a request whose \<open>jsonrpc\<close>
  is not 2.0, which HTTP refuses with -32600 without touching the store.
\<close>

theorem transports_agree:
  assumes "schemas_fit (tables s)" and "t \<noteq> []" and "length t \<le> body_limit"
    and "CHR 0x0A \<notin> set t" and "last t \<noteq> CHR 0x0D"
    and "http_post w h (uids 0) ''POST'' (Some t) s = (a, s')"
  shows "(if \<exists>q. decode_request t = Some q \<and> q_jsonrpc q \<noteq> ''2.0''
    then s' = s \<and> rp_status a = 200 \<and> (\<exists>l. body_bytes v (rp_body a) = l @ newline \<and> reply_code l = Some (- 32600))
    else body_bytes v (rp_body a) = stdio_output v w h uids (t @ newline) s \<and>
      s' = snd (serve_stdio w h uids (t @ newline) s) \<and>
      rp_status a = (if stdio_output v w h uids (t @ newline) s = [] then 202 else 200))"
proof (cases "\<exists>q. decode_request t = Some q \<and> q_jsonrpc q \<noteq> ''2.0''")
  case True
  then obtain q where q: "decode_request t = Some q" "q_jsonrpc q \<noteq> ''2.0''" by blast
  let ?r = "rpc_fail (q_id q) code_invalid_request ''jsonrpc must be 2.0''"
  have a: "a = rpc_reply ?r" "s' = s" using assms(2,3,6) q by (simp_all add: http_post_def)
  have wr: "writable v ?r" using decode_request_id [OF q(1)] by (simp add: id_fits_def)
  have "reply_code (encode v (response_doc ?r)) = Some (- 32600)"
    using reply_reads(5) [OF wr] by (simp add: code_invalid_request_def)
  with True a body_bytes_read(1) [OF writable_fits [OF wr]] show ?thesis by (auto simp: rpc_reply_def reply_def)
next
  case False
  obtain r s1 where r: "serve_line w h (uids 0) t s = (r, s1)" by (metis prod.collapse)
  note one = stdio_one_line [where uids = uids, OF assms(4,2,5,3) r]
  have a: "a = (case r of None \<Rightarrow> accepted_reply | Some x \<Rightarrow> rpc_reply x)" "s' = s1"
    using posted [OF assms(2,3) _ r] False assms(6) by auto
  have "body_bytes v (rp_body a) = stdio_output v w h uids (t @ newline) s \<and>
      s' = snd (serve_stdio w h uids (t @ newline) s) \<and>
      rp_status a = (if stdio_output v w h uids (t @ newline) s = [] then 202 else 200)"
  proof (cases r)
    case None
    with a one show ?thesis by (simp add: accepted_reply_def body_bytes_def)
  next
    case (Some x)
    have wr: "writable v x" using serve_line_writable(1) [OF assms(1), of v w h "uids 0" t] r Some by simp
    have "write_line v x \<noteq> []" by (simp add: write_line_def newline_def)
    with a one Some body_bytes_read(1) [OF writable_fits [OF wr]] write_line_reads(1) [OF wr]
    show ?thesis by (simp add: rpc_reply_def reply_def)
  qed
  then show ?thesis unfolding if_not_P [OF False] .
qed

text \<open>The call of the unknown tool, sent both ways.\<close>

theorem transports_agree_witness:
  "body_bytes demo_leaves (rp_body (fst (http_post demo_world demo_handler ''u'' ''POST'' (Some demo_unknown) sc_start))) =
     stdio_output demo_leaves demo_world demo_handler (\<lambda>_. ''u'') (demo_unknown @ newline) sc_start"
proof -
  have s: "schemas_fit (tables sc_start)" by code_simp
  have t: "demo_unknown \<noteq> []" "length demo_unknown \<le> body_limit" "CHR 0x0A \<notin> set demo_unknown" "last demo_unknown \<noteq> CHR 0x0D"
    by (simp_all add: demo_unknown_def body_limit_def)
  have "map_option q_jsonrpc (decode_request demo_unknown) = Some ''2.0''" by code_simp
  then have q: "\<not> (\<exists>q. decode_request demo_unknown = Some q \<and> q_jsonrpc q \<noteq> ''2.0'')" by auto
  obtain a s' where a: "http_post demo_world demo_handler ((\<lambda>_. ''u'') (0 :: nat)) ''POST'' (Some demo_unknown) sc_start = (a, s')"
    by (metis prod.collapse)
  from transports_agree [OF s t a, of demo_leaves] show ?thesis unfolding if_not_P [OF q] using a by simp
qed

end
