(* ===== verification/Paths.thy ===== *)
theory Paths
  imports Durable_Prelude
begin

text \<open>
  \<open>path/filepath\<close> on Unix, as far as the file tool uses it: \<open>Clean\<close>, \<open>Join\<close> and \<open>Dir\<close> on
  texts, computed on the names between the slashes.
\<close>

section \<open>Names\<close>

fun split_slash :: "string \<Rightarrow> string list" where
  "split_slash [] = [[]]"
| "split_slash (c # s) = (if c = CHR ''/'' then [] # split_slash s
     else case split_slash s of n # ns \<Rightarrow> (c # n) # ns | [] \<Rightarrow> [[c]])"

fun join_slash :: "string list \<Rightarrow> string" where
  "join_slash [] = []"
| "join_slash [n] = n"
| "join_slash (n # m # ns) = n @ ''/'' @ join_slash (m # ns)"

definition rooted :: "string \<Rightarrow> bool" where
  "rooted s \<longleftrightarrow> take 1 s = ''/''"

section \<open>Clean\<close>

text \<open>The names kept so far, the last one first.\<close>

fun clean_names :: "bool \<Rightarrow> string list \<Rightarrow> string list \<Rightarrow> string list" where
  "clean_names r out [] = rev out"
| "clean_names r out (n # ns) =
     (if n = [] \<or> n = ''.'' then clean_names r out ns
      else if n = ''..'' then
        clean_names r (if out \<noteq> [] \<and> hd out \<noteq> ''..'' then tl out else if r then out else n # out) ns
      else clean_names r (n # out) ns)"

definition path_names :: "string \<Rightarrow> string list" where
  "path_names s = clean_names (rooted s) [] (split_slash s)"

definition render :: "bool \<Rightarrow> string list \<Rightarrow> string" where
  "render r ns = (if r then ''/'' @ join_slash ns else if ns = [] then ''.'' else join_slash ns)"

definition clean_path :: "string \<Rightarrow> string" where
  "clean_path s = render (rooted s) (path_names s)"

definition join_path :: "string \<Rightarrow> string \<Rightarrow> string" where
  "join_path a b = (if a \<noteq> [] then clean_path (a @ ''/'' @ b) else if b \<noteq> [] then clean_path b else [])"

definition dir_path :: "string \<Rightarrow> string" where
  "dir_path s = clean_path (rev (dropWhile (\<lambda>c. c \<noteq> CHR ''/'') (rev s)))"

section \<open>Facts\<close>

text \<open>A name that means an entry of its directory and nothing else.\<close>

definition proper :: "string \<Rightarrow> bool" where
  "proper n \<longleftrightarrow> n \<noteq> [] \<and> n \<noteq> ''.'' \<and> n \<noteq> ''..'' \<and> CHR ''/'' \<notin> set n"

lemma split_slash_not_Nil [simp]: "split_slash s \<noteq> []"
  by (cases s) (auto split: list.split)

lemma split_slash_append: "split_slash (a @ ''/'' @ b) = split_slash a @ split_slash b"
proof (induction a)
  case (Cons c a)
  then show ?case by (cases "split_slash a") simp_all
qed simp

lemma split_slash_names: "n \<in> set (split_slash s) \<Longrightarrow> CHR ''/'' \<notin> set n"
  by (induction s arbitrary: n) (auto split: list.splits if_splits)

lemma split_slash_name: "CHR ''/'' \<notin> set n \<Longrightarrow> split_slash n = [n]"
  by (induction n) auto

lemma split_join: "ns \<noteq> [] \<Longrightarrow> list_all proper ns \<Longrightarrow> split_slash (join_slash ns) = ns"
proof (induction ns rule: join_slash.induct)
  case (3 n m ns)
  then show ?case
    using split_slash_append [of n "join_slash (m # ns)"] by (simp add: split_slash_name proper_def)
qed (simp_all add: split_slash_name proper_def)

lemma clean_names_append:
  "clean_names r out (xs @ ys) = clean_names r (rev (clean_names r out xs)) ys"
  by (induction r out xs rule: clean_names.induct) simp_all

lemma clean_names_proper: "list_all proper ns \<Longrightarrow> clean_names r out ns = rev out @ ns"
  by (induction ns arbitrary: out) (simp_all add: proper_def)

lemma clean_rooted_proper:
  "list_all proper out \<Longrightarrow> (\<And>n. n \<in> set ns \<Longrightarrow> CHR ''/'' \<notin> set n) \<Longrightarrow>
    list_all proper (clean_names True out ns)"
proof (induction True out ns rule: clean_names.induct)
  case (2 out n ns)
  have "list_all proper (tl out)" using "2.prems"(1) by (cases out) simp_all
  with 2 show ?case by (simp add: proper_def)
qed (simp add: list_all_iff)

lemma path_names_rooted: "rooted s \<Longrightarrow> list_all proper (path_names s)"
  using clean_rooted_proper [of "[]" "split_slash s"] split_slash_names by (simp add: path_names_def)

text \<open>Joining a cleaned absolute path to a directory appends its names.\<close>

lemma join_absolute:
  assumes "dir \<noteq> []" and "rooted s"
  shows "join_path dir (clean_path s) = render (rooted dir) (path_names dir @ path_names s)"
proof -
  let ?q = "path_names s"
  have q: "list_all proper ?q" using path_names_rooted [OF assms(2)] .
  have c: "clean_path s = ''/'' @ join_slash ?q" using assms(2) by (simp add: clean_path_def render_def)
  have j: "split_slash (join_slash ?q) = (if ?q = [] then [[]] else ?q)"
    using split_join [of ?q] q by simp
  have "split_slash (dir @ ''/'' @ clean_path s) = split_slash dir @ [] # split_slash (join_slash ?q)"
    unfolding c using split_slash_append [of dir] by simp
  moreover have "rooted (dir @ ''/'' @ clean_path s) = rooted dir"
    using assms(1) by (cases dir) (simp_all add: rooted_def)
  moreover have "clean_names (rooted dir) (rev (path_names dir)) (if ?q = [] then [[]] else ?q) = path_names dir @ ?q"
    using clean_names_proper [OF q, of "rooted dir" "rev (path_names dir)"] by simp
  ultimately have "path_names (dir @ ''/'' @ clean_path s) = path_names dir @ ?q"
    unfolding path_names_def [of "dir @ _"] path_names_def [of dir] j [symmetric]
    by (simp only: clean_names_append) simp
  with \<open>rooted (dir @ ''/'' @ clean_path s) = rooted dir\<close> assms(1) show ?thesis
    unfolding join_path_def clean_path_def [of "dir @ ''/'' @ clean_path s"] by simp
qed

end
