(* ===== verification/Handlers.thy ===== *)
theory Handlers
  imports Wire Paths Engine
begin

text \<open>
  The demonstration tools of \<open>internal/executor/handlers.go\<close>: their registry, the table of
  handlers and each handler. What lies outside, the clock, the work context, the file system's
  errors and the answers of HTTP servers, is a record of functions.
\<close>

section \<open>The registry\<close>

definition obj_schema :: "string \<Rightarrow> string" where
  "obj_schema props = ''{\"type\":\"object\",\"properties\":{'' @ props @ ''}}''"

text \<open>The identifier and the time of creation are the database's.\<close>

definition registered :: "string \<Rightarrow> string \<Rightarrow> string \<Rightarrow> tool" where
  "registered name descr props = \<lparr>t_id = [], t_name = name, t_description = descr,
     t_input_schema = obj_schema props, t_max_attempts = 3, t_lease_seconds = 30, t_created_at = 0\<rparr>"

definition demo_tools :: "tool list" where
  "demo_tools =
     [registered ''slow_compute'' ''Sleep N seconds then return a result. Simulates long-running work.''
        ''\"seconds\":{\"type\":\"integer\"},\"fail\":{\"type\":\"boolean\"}'',
      registered ''call_api'' ''GET an external URL and return the response body. Read-only, safe to retry.''
        ''\"url\":{\"type\":\"string\"},\"fail\":{\"type\":\"boolean\"}'',
      registered ''write_file'' ''Write content to a path under the executor scratch dir. Idempotent by path+hash.''
        ''\"path\":{\"type\":\"string\"},\"content\":{\"type\":\"string\"},\"fail\":{\"type\":\"boolean\"}'',
      registered ''send_webhook'' ''POST JSON to a URL. Side-effecting -- supply an idempotency key for external writes.''
        ''\"url\":{\"type\":\"string\"},\"body\":{\"type\":\"object\"},\"fail\":{\"type\":\"boolean\"}'']"

section \<open>Surroundings\<close>

text \<open>
  The error of the work context when it ends first; what \<open>MkdirAll\<close> and \<open>WriteFile\<close> answer,
  the latter with what the file then holds if it was touched; an HTTP exchange with its
  error, the request's and the context's included, or its status and body; the error texts of
  \<open>encoding/json\<close>. Files are their contents by path.
\<close>

record surroundings =
  o_now :: time
  o_ctx :: "string option"
  o_mkdir :: "string \<Rightarrow> string option"
  o_write :: "string \<Rightarrow> string \<Rightarrow> string option \<times> string option"
  o_get :: "string \<Rightarrow> string + nat \<times> string"
  o_post :: "string \<Rightarrow> string \<Rightarrow> string + nat \<times> string"
  o_json_text :: "string \<Rightarrow> string \<Rightarrow> string"

type_synonym files = "string \<Rightarrow> string option"
type_synonym handler = "surroundings \<Rightarrow> raw_message \<Rightarrow> files \<Rightarrow> (string + doc) \<times> files"

definition args_text :: "raw_message \<Rightarrow> string" where
  "args_text args = (case args of None \<Rightarrow> [] | Some t \<Rightarrow> t)"

section \<open>forcedFailure\<close>

text \<open>Decoding errors are ignored here; what was decoded before one counts.\<close>

definition forced_failure :: "raw_message \<Rightarrow> string option" where
  "forced_failure args = (case top_members (args_text args) of
       None \<Rightarrow> None
     | Some (ms, _) \<Rightarrow> if fst (take_bool (values_of ''fail'' ms) False)
         then Some ''forced failure (fail=true)'' else None)"

definition decode_args :: "(members \<Rightarrow> 'a \<times> bool) \<Rightarrow> raw_message \<Rightarrow> 'a option" where
  "decode_args dec args = (case top_members (args_text args) of
       None \<Rightarrow> None
     | Some (ms, bad) \<Rightarrow> (case dec ms of (v, bad') \<Rightarrow> if bad \<or> bad' then None else Some v))"

section \<open>slow_compute\<close>

definition slow_seconds :: "int \<Rightarrow> int" where
  "slow_seconds n = (if n \<le> 0 then 1 else n)"

text \<open>The argument of \<open>time.After\<close>, which fires at once when it is not positive.\<close>

definition slow_wait :: "int \<Rightarrow> int" where
  "slow_wait n = wrap64 (slow_seconds n * second)"

definition slow_compute :: handler where
  "slow_compute w args fs = (case forced_failure args of
       Some e \<Rightarrow> (Inl e, fs)
     | None \<Rightarrow> (case decode_args (\<lambda>ms. take_int (values_of ''seconds'' ms) 0) args of
           None \<Rightarrow> (Inl (o_json_text w ''slowCompute'' (args_text args)), fs)
         | Some n \<Rightarrow> (case o_ctx w of
               Some e \<Rightarrow> (Inl e, fs)
             | None \<Rightarrow> (Inr (D_obj [(''computed_at'', D_time (o_now w)),
                   (''slept_seconds'', D_num (slow_seconds n))]), fs))))"

section \<open>call_api\<close>

definition read_limit :: nat where
  "read_limit = 4096"

definition call_api :: handler where
  "call_api w args fs = (case forced_failure args of
       Some e \<Rightarrow> (Inl e, fs)
     | None \<Rightarrow> (case decode_args (\<lambda>ms. take_string (values_of ''url'' ms) []) args of
           None \<Rightarrow> (Inl (o_json_text w ''callAPI'' (args_text args)), fs)
         | Some url \<Rightarrow>
             if url = [] then (Inl ''url is required'', fs)
             else (case o_get w url of
                 Inl e \<Rightarrow> (Inl e, fs)
               | Inr (status, body) \<Rightarrow>
                   (Inr (D_obj [(''body'', D_str (take read_limit body)),
                      (''status'', D_num (int status))]), fs))))"

section \<open>write_file\<close>

definition slashes :: "string \<Rightarrow> string" where
  "slashes = map (\<lambda>c. if c = CHR 0x5C then CHR ''/'' else c)"

definition write_target :: "string \<Rightarrow> string \<Rightarrow> string option" where
  "write_target scratch path =
     (let target = join_path scratch (clean_path (''/'' @ slashes path))
      in if prefix (clean_path scratch) target then Some target else None)"

definition write_args :: "raw_message \<Rightarrow> (string \<times> string) option" where
  "write_args = decode_args (\<lambda>ms.
     let (p, b1) = take_string (values_of ''path'' ms) []; (c, b2) = take_string (values_of ''content'' ms) []
     in ((p, c), b1 \<or> b2))"

definition write_file :: "string \<Rightarrow> handler" where
  "write_file scratch w args fs = (case forced_failure args of
       Some e \<Rightarrow> (Inl e, fs)
     | None \<Rightarrow> (case write_args args of
           None \<Rightarrow> (Inl (o_json_text w ''writeFile'' (args_text args)), fs)
         | Some (path, content) \<Rightarrow>
             if path = [] then (Inl ''path is required'', fs)
             else (case write_target scratch path of
                 None \<Rightarrow> (Inl ''path escapes scratch directory'', fs)
               | Some target \<Rightarrow> (case o_mkdir w (dir_path target) of
                     Some e \<Rightarrow> (Inl e, fs)
                   | None \<Rightarrow> (case o_write w target content of
                         (Some e, left) \<Rightarrow> (Inl e, if left = None then fs else fs(target := left))
                       | (None, _) \<Rightarrow>
                           (Inr (D_obj [(''bytes_written'', D_num (int (length content))),
                              (''path'', D_str target),
                              (''sha256'', D_str (hex_encode (sha256 content)))]),
                            fs(target := Some content)))))))"

section \<open>send_webhook\<close>

definition webhook_body :: "raw_message \<Rightarrow> string" where
  "webhook_body b = (case b of None \<Rightarrow> ''{}'' | Some t \<Rightarrow> if t = [] then ''{}'' else t)"

definition send_webhook :: handler where
  "send_webhook w args fs = (case forced_failure args of
       Some e \<Rightarrow> (Inl e, fs)
     | None \<Rightarrow> (case decode_args (\<lambda>ms. let (u, b1) = take_string (values_of ''url'' ms) []
                                     in ((u, take_raw (values_of ''body'' ms)), b1)) args of
           None \<Rightarrow> (Inl (o_json_text w ''sendWebhook'' (args_text args)), fs)
         | Some (url, body) \<Rightarrow>
             if url = [] then (Inl ''url is required'', fs)
             else (case o_post w url (webhook_body body) of
                 Inl e \<Rightarrow> (Inl e, fs)
               | Inr (status, _) \<Rightarrow>
                   (Inr (D_obj [(''delivered_at'', D_time (o_now w)), (''status'', D_num (int status))]), fs))))"

section \<open>The table\<close>

definition handlers :: "string \<Rightarrow> string \<Rightarrow> handler option" where
  "handlers scratch = map_of
     [(''slow_compute'', slow_compute), (''call_api'', call_api),
      (''write_file'', write_file scratch), (''send_webhook'', send_webhook)]"

text \<open>The directory \<open>cmd/executor\<close> passes, \<open>os.TempDir\<close> in Unix being the fallback.\<close>

definition scratch_dir :: "environment \<Rightarrow> string" where
  "scratch_dir env = (if env ''SCRATCH_DIR'' \<noteq> [] then env ''SCRATCH_DIR''
     else if env ''TMPDIR'' \<noteq> [] then env ''TMPDIR'' else ''/tmp'')"

section \<open>Properties\<close>

text \<open>The demonstration argument \<open>fail\<close> fails every tool, before it touches anything.\<close>

lemma forced_failure_first:
  assumes "forced_failure args = Some e" and "handlers scratch name = Some f"
  shows "f w args fs = (Inl ''forced failure (fail=true)'', fs)"
proof -
  have "e = ''forced failure (fail=true)''"
    using assms(1) by (auto simp: forced_failure_def split: option.splits prod.splits if_splits)
  with assms show ?thesis
    by (auto simp: handlers_def slow_compute_def call_api_def write_file_def send_webhook_def split: if_splits)
qed

lemma demo_tools_handled: "map (\<lambda>t. handlers scratch (t_name t) \<noteq> None) demo_tools = [True, True, True, True]"
  by (simp add: demo_tools_def registered_def handlers_def)

text \<open>The wait is the one asked for as long as it fits in a duration; beyond, it may not be a wait.\<close>

lemma slow_wait_exact:
  assumes "n \<le> 9223372036"
  shows "slow_wait n = slow_seconds n * second \<and> second \<le> slow_wait n"
proof -
  have "wrap64 (slow_seconds n * second) = slow_seconds n * second"
    using assms by (intro wrap64_id) (auto simp: slow_seconds_def second_def int64_max_def)
  then show ?thesis by (simp add: slow_wait_def slow_seconds_def second_def)
qed

lemma slow_wait_overflow: "slow_wait 9223372037 < 0 \<and> slow_seconds 9223372037 = 9223372037"
  by code_simp

text \<open>
  The test compares texts: with the working directory as scratch directory it refuses what
  lies in it.
\<close>

lemma scratch_dot_refuses: "write_target ''.'' ''out.txt'' = None"
  by code_simp

lemma write_target_below:
  assumes "write_target scratch path = Some target"
  shows "\<exists>q. list_all proper q \<and> target = render (rooted scratch) (path_names scratch @ q)"
proof -
  let ?s = "''/'' @ slashes path"
  have r: "rooted ?s" by (simp add: rooted_def)
  then have "\<not> prefix (clean_path []) (join_path [] (clean_path ?s))"
    by (simp add: join_path_def clean_path_def rooted_def render_def path_names_def)
  then have "scratch \<noteq> []" using assms by (auto simp: write_target_def Let_def split: if_splits)
  with join_absolute [OF _ r] path_names_rooted [OF r] assms show ?thesis
    by (auto simp: write_target_def Let_def split: if_splits)
qed

text \<open>A handler that leaves the files alone, or sets one path among those \<open>P\<close> allows.\<close>

definition sets_one :: "(string \<Rightarrow> bool) \<Rightarrow> (files \<Rightarrow> 'a \<times> files) \<Rightarrow> bool" where
  "sets_one P f \<longleftrightarrow> (\<exists>r. (\<forall>fs. f fs = (r, fs)) \<or> (\<exists>t c. P t \<and> (\<forall>fs. f fs = (r, fs(t := c)))))"

lemma sets_none: "(\<And>fs. f fs = (r, fs)) \<Longrightarrow> sets_one P f"
  by (auto simp: sets_one_def)

lemma sets_oneI: "P t \<Longrightarrow> (\<And>fs. f fs = (r, fs(t := c))) \<Longrightarrow> sets_one P f"
  by (auto simp: sets_one_def)

lemma write_file_sets_one:
  "sets_one (\<lambda>t. \<exists>path. write_target scratch path = Some t) (write_file scratch w args)"
proof (cases "forced_failure args")
  case None
  note w = write_file_def None
  show ?thesis
  proof (cases "write_args args")
    case (Some pc)
    obtain path content where pc: "pc = (path, content)" by force
    show ?thesis
    proof (cases "if path = [] then None else write_target scratch path")
      case t: (Some target)
      then have p: "path \<noteq> []" "write_target scratch path = Some target" by (simp_all split: if_splits)
      show ?thesis
      proof (cases "o_mkdir w (dir_path target)")
        case m: None
        obtain e left where o: "o_write w target content = (e, left)" by force
        show ?thesis
        proof (cases "e \<noteq> None \<and> left = None")
          case True
          then obtain y where "e = Some y" "left = None" by blast
          then show ?thesis
            using Some pc p m o by (intro sets_none [of _ "Inl y"]) (simp add: w)
        next
          case False
          then show ?thesis
            using Some pc p m o
            by (cases e; intro sets_oneI [of _ target _ _ "if e = None then Some content else left"])
               (auto simp: w)
        qed
      qed (use Some pc p in \<open>auto intro: sets_none simp: w\<close>)
    qed (use Some pc in \<open>auto intro: sets_none simp: w split: if_splits\<close>)
  qed (auto intro: sets_none simp: w)
qed (auto intro: sets_none simp: write_file_def)

text \<open>
  C17. \<open>write_file\<close> never writes outside its directory, whatever path it is given: the one
  file it can change is reached from the scratch directory by proper names, without \<open>..\<close>;
  and running it again, as an execution that is retried does, gives the same answer and the
  same files.
\<close>

theorem write_file_confined:
  "\<exists>q. list_all proper q \<and>
    {p. snd (write_file scratch w args fs) p \<noteq> fs p} \<subseteq> {render (rooted scratch) (path_names scratch @ q)} \<and>
    write_file scratch w args (snd (write_file scratch w args fs)) = write_file scratch w args fs"
proof -
  let ?f = "write_file scratch w args"
  consider r where "\<And>fs. ?f fs = (r, fs)"
    | r t c path where "write_target scratch path = Some t" "\<And>fs. ?f fs = (r, fs(t := c))"
    using write_file_sets_one [of scratch w args] by (auto simp: sets_one_def)
  then show ?thesis
  proof cases
    case 1
    then show ?thesis by (intro exI [of _ "[]"]) simp
  next
    case 2
    obtain q where "list_all proper q" "t = render (rooted scratch) (path_names scratch @ q)"
      using write_target_below [OF 2(1)] by blast
    with 2(2) show ?thesis by (intro exI [of _ q]) auto
  qed
qed

end
