(* ===== verification/Tool_Runs.thy ===== *)
theory Tool_Runs
  imports Handlers Encode_Docs
begin

text \<open>
  The tools run by the executor: what a handler returns as the bytes the engine passes on,
  and an execution that fails every time it is run, from its first claim to its end.
\<close>

section \<open>The bytes of a result\<close>

definition marshal_result :: "leaves \<Rightarrow> surroundings \<Rightarrow> doc \<Rightarrow> raw_message + string" where
  "marshal_result v w d = (case marshal v d of
       Some t \<Rightarrow> Inl (Some t)
     | None \<Rightarrow> Inr (o_json_text w ''marshal'' []))"

text \<open>A handler as the engine sees it.\<close>

definition run_handler :: "leaves \<Rightarrow> surroundings \<Rightarrow> handler \<Rightarrow> raw_message \<Rightarrow> files \<Rightarrow> (raw_message + string) \<times> files" where
  "run_handler v w f args fs = (case f w args fs of
       (Inl e, fs') \<Rightarrow> (Inr e, fs')
     | (Inr d, fs') \<Rightarrow> (marshal_result v w d, fs'))"

lemma handler_answers_object:
  assumes "handlers scratch name = Some f" and "fst (f w args fs) = Inr d" and "\<forall>t. plain (lf_time v t)"
  shows "(\<exists>ms. d = D_obj ms) \<and> fits v 10000 d \<and> raw_valid d"
  using assms
  by (auto simp: handlers_def slow_compute_def call_api_def write_file_def send_webhook_def
      split: if_splits option.splits sum.splits prod.splits)

text \<open>
  C30. What a tool returns can be stored: whatever its arguments and surroundings, a handler
  that succeeds is passed on as one JSON object on one line, which is read back as the
  document it stands for; and the engine is told of a failure exactly when the handler failed,
  with its error.
\<close>

theorem tool_results_are_json:
  assumes "handlers scratch name = Some f" and "\<forall>t. plain (lf_time v t)"
  shows "case f w args fs of
      (Inl e, fs') \<Rightarrow> run_handler v w f args fs = (Inr e, fs')
    | (Inr d, fs') \<Rightarrow> \<exists>t ms. run_handler v w f args fs = (Inl (Some t), fs') \<and> parse_json t = Some (J_obj ms) \<and>
        J_obj ms = doc_value v d \<and> list_all (\<lambda>c. 32 \<le> code c) t"
proof (cases "f w args fs")
  case (Pair r fs')
  show ?thesis
  proof (cases r)
    case (Inr d)
    obtain ms where d: "d = D_obj ms" "fits v 10000 d" "raw_valid d"
      using handler_answers_object [OF assms(1) _ assms(2), of w args fs d] Pair Inr by auto
    have "marshal v d = Some (encode v d)" using d(3) by (simp add: marshal_def)
    moreover have "parse_json (encode v d) = Some (doc_value v d)"
      using marshal_reads d(2) by blast
    moreover have "list_all (\<lambda>c. 32 \<le> code c) (encode v d)" by (rule encode_printable [OF d(2)]) simp_all
    ultimately show ?thesis
      using Pair Inr d(1) by (auto simp: run_handler_def marshal_result_def)
  qed (use Pair in \<open>simp add: run_handler_def\<close>)
qed

section \<open>One run of an execution\<close>

text \<open>
  A polling worker claims, runs the handler, which takes \<open>took\<close> microseconds, and reports what
  it returned. The context of the work is never cancelled here.
\<close>

definition work_on :: "(string \<Rightarrow> string option) \<Rightarrow> leaves \<Rightarrow> surroundings \<Rightarrow> runtime \<Rightarrow> string \<Rightarrow> exec_id list \<Rightarrow>
    int \<Rightarrow> worker \<times> st \<times> files \<Rightarrow> worker \<times> st \<times> files" where
  "work_on jsonb v w r scratch locked took = (\<lambda>(k, s, fs).
     case worker_step jsonb r (Proceed locked) k s of (k1, s1) \<Rightarrow>
       (case wk_phase k1 of
          Working c _ _ \<Rightarrow>
            (case handlers scratch (c_tool_name c) of
               None \<Rightarrow> (k1, s1, fs)
             | Some f \<Rightarrow> (case run_handler v w f (Some (c_input_args c)) fs of (out, fs') \<Rightarrow>
                 (case worker_step jsonb r (Returned out) k1 (s1\<lparr>clock := clock s1 + took\<rparr>) of (k2, s2) \<Rightarrow> (k2, s2, fs'))))
        | _ \<Rightarrow> (k1, s1, fs)))"

abbreviation forced_message :: string where
  "forced_message \<equiv> ''forced failure (fail=true)''"

lemma claimed_tokens:
  "next_token (claimed_db now e w (next_token d (e_id e)) secs d) (e_id e) = next_token d (e_id e) + 1"
  by (simp add: next_token_def effect_simps tokens_append tokens_single max_token_append new_event_def)

lemma failed_tokens:
  "tokens (log_of (failed_db now e w tok msg d) k) = tokens (log_of d k) @ (if k = e_id e then [tok] else [])"
  by (auto simp: failed_db_def Let_def tokens_append tokens_single new_event_def)

lemma work_on_fails:
  assumes "wf_db (tables s)" and "net s = []" and "select_ready locked (tables s) = Some e"
    and "e_attempts e < int32_max" and "next_token (tables s) (e_id e) \<le> int64_max"
    and "e_tool_name e \<in> set (rt_handlers r)" and "handlers scratch (e_tool_name e) \<noteq> None"
    and "forced_failure (Some (e_input_args e)) \<noteq> None"
    and "0 \<le> took" and "took < rt_lease_seconds r * 1000000"
  defines "tok \<equiv> next_token (tables s) (e_id e)"
  shows "work_on jsonb v w r scratch locked took (polling, s, fs) =
    (polling, s\<lparr>tables := failed_db (clock s + took) (claimed_row (clock s) e) (rt_worker r) tok forced_message
        (claimed_db (clock s) e (rt_worker r) tok (rt_lease_seconds r) (tables s)), clock := clock s + took\<rparr>, fs)"
proof -
  let ?d = "claimed_db (clock s) e (rt_worker r) tok (rt_lease_seconds r) (tables s)"
  let ?c = "claim_of (clock s) e tok (rt_lease_seconds r)"
  let ?s1 = "s\<lparr>tables := ?d\<rparr>" and ?s2 = "s\<lparr>tables := ?d, clock := clock s + took\<rparr>"
  have cl: "claim locked (rt_worker r) (rt_lease_seconds r) s = (Inr ?c, ?s1)"
    unfolding tok_def by (rule claim_quiet [OF assms(1-5)])
  have row: "exec_of (tables s) (e_id e) = Some e" by (rule select_ready_row [OF assms(1,3)])
  have step: "worker_step jsonb r (Proceed locked) polling s = (polling\<lparr>wk_phase := Working ?c False True\<rparr>, ?s1)"
    using assms(6) by (simp add: worker_step_def poll_def cl claim_of_def)
  have wf: "wf_db ?d"
    using claim_op.wf_run [OF assms(1), of locked "rt_worker r" "rt_lease_seconds r"] cl by simp
  have live: "live_lease (clock s + took) ?d (e_id e) tok"
    unfolding live_lease_iff [OF wf] using assms(10) by (simp add: effect_simps lease_until_def)
  have ex: "exec_of ?d (e_id e) = Some (claimed_row (clock s) e)" by (simp add: effect_simps row)
  obtain f where f: "handlers scratch (e_tool_name e) = Some f" using assms(7) by blast
  obtain msg where "forced_failure (Some (e_input_args e)) = Some msg" using assms(8) by blast
  from forced_failure_first [OF this f] have out: "run_handler v w f (Some (e_input_args e)) fs = (Inr forced_message, fs)"
    by (simp add: run_handler_def)
  have n: "net ?s2 = []" using assms(2) by simp
  have "worker_step jsonb r (Returned (Inr forced_message)) (polling\<lparr>wk_phase := Working ?c False True\<rparr>) ?s2 =
      (polling, ?s2\<lparr>tables := failed_db (clock s + took) (claimed_row (clock s) e) (rt_worker r) tok forced_message ?d\<rparr>)"
    using failing.quiet [OF n, of "e_id e" tok "rt_worker r" forced_message] ex live
    by (simp add: worker_step_def finish_def claim_of_def fail_effect_def del: append.simps)
  with step f out show ?thesis by (simp add: work_on_def claim_of_def)
qed

section \<open>A pass and the tokens\<close>

text \<open>A scheduler logs without a token, so its pass leaves every next token as it is.\<close>

lemma log_of_seq: "log_of (d\<lparr>db_event_seq := n\<rparr>) = log_of d"
  by (rule log_of_cong) simp

lemma expire_effect_tokens: "tokens (log_of (snd (expire_effect eid n m now d)) k) = tokens (log_of d k)"
  by (simp add: expire_effect_def expired_db_def Let_def tokens_append tokens_single new_event_def log_of_seq)

lemma promote_effect_tokens: "tokens (log_of (snd (promote_effect eid now d)) k) = tokens (log_of d k)"
  by (simp add: promote_effect_def promoted_db_def Let_def tokens_append tokens_single new_event_def log_of_seq)

lemma expire_lease_tokens: "tokens (log_of (tables (snd (expire_lease eid n m s))) k) = tokens (log_of (tables s) k)"
  using expiring.atomic [of s eid n m] expire_effect_tokens [of eid n m _ "tables s" k]
  by (metis same_dataD(10))

lemma promote_retry_tokens: "tokens (log_of (tables (snd (promote_retry eid s))) k) = tokens (log_of (tables s) k)"
  using promoting.atomic [of s eid] promote_effect_tokens [of eid _ "tables s" k]
  by (metis same_dataD(10))

lemma expire_all_tokens: "tokens (log_of (tables (snd (expire_all xs c s))) k) = tokens (log_of (tables s) k)"
proof (induction xs c s rule: expire_all.induct)
  case (2 eid n m rest c s)
  obtain r s' where run: "expire_lease eid n m s = (r, s')" by (metis prod.collapse)
  with expire_lease_tokens [of eid n m s k] 2 show ?case by (cases r) auto
qed simp

lemma promote_all_tokens: "tokens (log_of (tables (snd (promote_all xs c s))) k) = tokens (log_of (tables s) k)"
proof (induction xs c s rule: promote_all.induct)
  case (2 eid rest c s)
  obtain r s' where run: "promote_retry eid s = (r, s')" by (metis prod.collapse)
  with promote_retry_tokens [of eid s k] 2 show ?case by (cases r) auto
qed simp

lemma pass_tokens:
  assumes "net s = []"
  shows "next_token (tables (snd (run_scheduler_pass s))) k = next_token (tables s) k"
proof -
  obtain c o1 s1 where x: "expire_all (select_expired (clock s) (tables s)) 0 s = ((c, o1), s1)"
    by (metis prod.collapse)
  have t1: "tokens (log_of (tables s1) k) = tokens (log_of (tables s) k)"
    using expire_all_tokens [of "select_expired (clock s) (tables s)" 0 s k] x by simp
  obtain q s2 where q: "query_rows select_due s1 = (q, s2)" by (metis prod.collapse)
  have t2: "tables s2 = tables s1" by (rule query_rows_answer(1) [OF q])
  show ?thesis
    using assms x t1 t2 q promote_all_tokens
    by (auto simp: run_scheduler_pass_def query_rows_def [of select_expired] next_token_def split: option.split sum.split prod.split)
qed

section \<open>Failing until no attempt is left\<close>

text \<open>The worker runs the execution, time passes, and the scheduler makes a pass.\<close>

definition attempt_round :: "(string \<Rightarrow> string option) \<Rightarrow> leaves \<Rightarrow> surroundings \<Rightarrow> runtime \<Rightarrow> string \<Rightarrow> exec_id list \<Rightarrow>
    int \<times> int \<Rightarrow> worker \<times> st \<times> files \<Rightarrow> worker \<times> st \<times> files" where
  "attempt_round jsonb v w r scratch locked = (\<lambda>(took, pause) x.
     case work_on jsonb v w r scratch locked took x of (k, s, fs) \<Rightarrow>
       (k, snd (run_scheduler_pass (s\<lparr>clock := clock s + pause\<rparr>)), fs))"

definition fated :: "runtime \<Rightarrow> string \<Rightarrow> exec_id list \<Rightarrow> st \<Rightarrow> execution \<Rightarrow> bool" where
  "fated r scratch locked s e \<longleftrightarrow> wf_db (tables s) \<and> net s = [] \<and> exec_of (tables s) (e_id e) = Some e \<and>
     e_id e \<notin> set locked \<and> (\<forall>j. exec_of (tables s) j \<noteq> None \<longrightarrow> j = e_id e \<or> j \<in> set locked) \<and>
     e_tool_name e \<in> set (rt_handlers r) \<and> handlers scratch (e_tool_name e) \<noteq> None \<and>
     forced_failure (Some (e_input_args e)) \<noteq> None"

lemma only_ready:
  assumes "wf_db d" and "exec_of d (e_id e) = Some e" and "e_status e = Ready" and "e_id e \<notin> set locked"
    and "\<forall>j. exec_of d j \<noteq> None \<longrightarrow> j = e_id e \<or> j \<in> set locked"
  shows "select_ready locked d = Some e"
proof -
  have mem: "e \<in> set (db_executions d)" using row_of_SomeD [of e_id "db_executions d" "e_id e" e] assms(2) by (simp add: exec_of_def)
  then have "select_ready locked d \<noteq> None"
    using assms(3,4) by (auto simp: select_ready_def first_by_None filter_empty_conv)
  then obtain e' where e': "select_ready locked d = Some e'" by blast
  from select_ready_row [OF assms(1) this] have "exec_of d (e_id e') = Some e'" .
  with assms(2,5) select_readyD(3) [OF e'] have "e' = e" by (metis option.distinct(1) option.inject)
  with e' show ?thesis by simp
qed

text \<open>What becomes of the execution in a round.\<close>

definition round_outcome :: "execution \<Rightarrow> execution \<Rightarrow> bool" where
  "round_outcome e e' \<longleftrightarrow> e_id e' = e_id e \<and> e_tool_name e' = e_tool_name e \<and> e_input_args e' = e_input_args e \<and>
     e_max_attempts e' = e_max_attempts e \<and> e_attempts e' = e_attempts e + 1 \<and>
     e_status e' = (if e_attempts e + 1 < e_max_attempts e then Ready else Failed) \<and>
     e_error_message e' = Some forced_message"

lemma claimed_then_failed:
  fixes now t :: time and w msg :: string and secs :: int and e :: execution and d :: db
  defines "d2 \<equiv> failed_db t (claimed_row now e) w (next_token d (e_id e)) msg
    (claimed_db now e w (next_token d (e_id e)) secs d)"
  assumes "exec_of d (e_id e) = Some e" and "retry_of d (e_id e) = None"
  shows "exec_of d2 (e_id e) = Some (failed_row t msg (claimed_row now e))" and "lease_of d2 (e_id e) = None"
    and "retry_of d2 (e_id e) = (if e_attempts e + 1 < e_max_attempts e
      then Some \<lparr>r_execution_id = e_id e, r_retry_at = t + backoff_seconds (e_attempts e + 1) * 1000000,
        r_attempt = e_attempts e + 1\<rparr> else None)"
    and "(exec_of d2 j = None) = (exec_of d j = None)"
    and "next_token d2 (e_id e) = next_token d (e_id e) + 1"
proof -
  have id: "e_id (claimed_row now e) = e_id e" "e_attempts (claimed_row now e) = e_attempts e + 1"
    "e_max_attempts (claimed_row now e) = e_max_attempts e" by (simp_all add: claimed_row_def)
  show "exec_of d2 (e_id e) = Some (failed_row t msg (claimed_row now e))" "lease_of d2 (e_id e) = None"
    "(exec_of d2 j = None) = (exec_of d j = None)"
    by (simp_all add: d2_def effect_simps id assms(2))
  show "retry_of d2 (e_id e) = (if e_attempts e + 1 < e_max_attempts e
      then Some \<lparr>r_execution_id = e_id e, r_retry_at = t + backoff_seconds (e_attempts e + 1) * 1000000,
        r_attempt = e_attempts e + 1\<rparr> else None)"
    by (simp add: d2_def effect_simps id assms(3) lease_until_def)
  show "next_token d2 (e_id e) = next_token d (e_id e) + 1"
    using claimed_tokens [of now e w d secs]
    by (simp add: d2_def next_token_def failed_tokens id max_token_append)
qed

lemma attempt_round_outcome:
  assumes "fated r scratch locked s e" and "e_status e = Ready" and "e_attempts e < int32_max"
    and "next_token (tables s) (e_id e) \<le> int64_max"
    and "0 \<le> took" and "took < rt_lease_seconds r * 1000000"
    and "e_attempts e + 1 < e_max_attempts e \<longrightarrow> backoff_seconds (e_attempts e + 1) * 1000000 \<le> pause"
    and "0 \<le> pause"
  shows "\<exists>s' e'. attempt_round jsonb v w r scratch locked (took, pause) (polling, s, fs) = (polling, s', fs) \<and>
    round_outcome e e' \<and> fated r scratch locked s' e' \<and> lease_of (tables s') (e_id e) = None \<and>
    retry_of (tables s') (e_id e) = None \<and> next_token (tables s') (e_id e) = next_token (tables s) (e_id e) + 1"
proof -
  let ?k = "e_id e" and ?d = "tables s" and ?msg = forced_message
  let ?tok = "next_token ?d ?k" and ?t = "clock s + took"
  let ?d1 = "claimed_db (clock s) e (rt_worker r) ?tok (rt_lease_seconds r) ?d"
  let ?e1 = "claimed_row (clock s) e"
  let ?d2 = "failed_db ?t ?e1 (rt_worker r) ?tok ?msg ?d1"
  let ?s2 = "s\<lparr>tables := ?d2, clock := ?t + pause\<rparr>" and ?now = "?t + pause"
  note f = assms(1) [unfolded fated_def]
  have row: "exec_of ?d ?k = Some e" using f by blast
  have sel: "select_ready locked ?d = Some e" using f assms(2) by (intro only_ready) blast+
  have run: "work_on jsonb v w r scratch locked took (polling, s, fs) = (polling, s\<lparr>tables := ?d2, clock := ?t\<rparr>, fs)"
    by (rule work_on_fails [OF _ _ sel assms(3,4) _ _ _ assms(5,6)]) (use f in blast)+
  have wf1: "wf_db ?d1"
    using claim_op.wf_run [of s locked "rt_worker r" "rt_lease_seconds r"] claim_quiet [OF _ _ sel assms(3,4)] f by simp
  have ex1: "exec_of ?d1 ?k = Some ?e1" by (simp add: effect_simps row)
  have id: "e_id ?e1 = ?k" by (simp add: claimed_row_def)
  have "lease_of ?d1 ?k \<noteq> None" by (simp add: effect_simps)
  then have wf2: "wf_db ?d2" using wf_failed [OF wf1, of ?e1] ex1 unfolding id by blast
  have none: "retry_of ?d ?k = None" using retry_has_row [of ?d ?k] f assms(2) row by (cases "retry_of ?d ?k") auto
  have n2: "wf_db (tables ?s2)" "net ?s2 = []" using wf2 f by simp_all
  obtain x d where d: "run_scheduler_pass ?s2 = (x, ?s2\<lparr>tables := d\<rparr>)"
    "\<forall>j. exec_of d j = map_option (after_pass ?now ?d2 j) (exec_of ?d2 j)"
    "\<forall>j. lease_of d j = (if lapsed ?now ?d2 j then None else lease_of ?d2 j)"
    "\<forall>j. retry_of d j = (if retry_due ?now ?d2 j then None else retry_of ?d2 j)"
    using pass_duty [OF n2] by auto
  have wfd: "wf_db d" using scheduler_pass_wf [OF n2(1) d(1)] by simp
  note two = claimed_then_failed [OF row none, of ?t "clock s" "rt_worker r" ?msg "rt_lease_seconds r"]
  let ?e2 = "failed_row ?t ?msg ?e1" and ?more = "e_attempts e + 1 < e_max_attempts e"
  have nl: "\<not> lapsed ?now ?d2 ?k" by (simp add: lapsed_iff two(2))
  have due: "retry_due ?now ?d2 ?k = ?more" using assms(7) by (simp add: retry_due_def two(3))
  let ?e' = "if ?more then promoted_row ?now ?e2 else ?e2"
  have exd: "exec_of d ?k = Some ?e'" using d(2) by (simp add: two(1) after_pass_def nl due)
  have out: "round_outcome e ?e'"
    by (simp add: round_outcome_def promoted_row_def failed_row_def claimed_row_def)
  have others: "exec_of d j \<noteq> None \<longrightarrow> j = ?k \<or> j \<in> set locked" for j
    using d(2) two(4) [of j] f by simp
  have "fated r scratch locked (?s2\<lparr>tables := d\<rparr>) ?e'"
    using out exd others wfd f unfolding fated_def round_outcome_def by simp
  moreover have "lease_of d ?k = None" "retry_of d ?k = None" using d(3,4) by (simp_all add: two(2,3) due)
  moreover have "next_token d ?k = ?tok + 1" using pass_tokens [OF n2(2), of ?k] d(1) two(5) by simp
  moreover have "attempt_round jsonb v w r scratch locked (took, pause) (polling, s, fs) = (polling, ?s2\<lparr>tables := d\<rparr>, fs)"
    using d(1) by (simp add: attempt_round_def run)
  ultimately show ?thesis using out by (intro exI [of _ "?s2\<lparr>tables := d\<rparr>"] exI [of _ ?e']) simp
qed

text \<open>
  Rounds that leave time: each run ends within its lease, and while attempts are left the
  pause after it is at least the backoff.
\<close>

fun timely :: "runtime \<Rightarrow> int \<Rightarrow> int \<Rightarrow> (int \<times> int) list \<Rightarrow> bool" where
  "timely r n m [] \<longleftrightarrow> True"
| "timely r n m ((took, pause) # ps) \<longleftrightarrow>
     0 \<le> took \<and> took < rt_lease_seconds r * 1000000 \<and> 0 \<le> pause \<and>
     (n + 1 < m \<longrightarrow> backoff_seconds (n + 1) * 1000000 \<le> pause) \<and> timely r (n + 1) m ps"

definition after_rounds :: "execution \<Rightarrow> nat \<Rightarrow> st \<Rightarrow> execution \<Rightarrow> bool" where
  "after_rounds e i s e' \<longleftrightarrow> exec_of (tables s) (e_id e) = Some e' \<and> e_attempts e' = e_attempts e + int i \<and>
     e_status e' = (if e_attempts e' < e_max_attempts e then Ready else Failed) \<and>
     e_error_message e' = Some forced_message \<and>
     lease_of (tables s) (e_id e) = None \<and> retry_of (tables s) (e_id e) = None"

lemma rounds_outcome:
  assumes "fated r scratch locked s e" and "e_status e = Ready" and "ps \<noteq> []"
    and "e_attempts e + int (length ps) \<le> e_max_attempts e" and "e_max_attempts e \<le> int32_max"
    and "next_token (tables s) (e_id e) + int (length ps) \<le> int64_max + 1"
    and "timely r (e_attempts e) (e_max_attempts e) ps"
  shows "\<exists>s' e'. fold (attempt_round jsonb v w r scratch locked) ps (polling, s, fs) = (polling, s', fs) \<and>
    after_rounds e (length ps) s' e'"
  using assms
proof (induction ps arbitrary: s e)
  case (Cons p ps)
  obtain took pause where p: "p = (took, pause)" by force
  have b: "e_attempts e < int32_max" "next_token (tables s) (e_id e) \<le> int64_max" using Cons.prems(4-6) by simp_all
  have t: "0 \<le> took" "took < rt_lease_seconds r * 1000000" "0 \<le> pause" "timely r (e_attempts e + 1) (e_max_attempts e) ps"
    "e_attempts e + 1 < e_max_attempts e \<longrightarrow> backoff_seconds (e_attempts e + 1) * 1000000 \<le> pause"
    using Cons.prems(7) p by simp_all
  obtain s1 e1 where one: "attempt_round jsonb v w r scratch locked (took, pause) (polling, s, fs) = (polling, s1, fs)"
    "round_outcome e e1" "fated r scratch locked s1 e1" "lease_of (tables s1) (e_id e) = None"
    "retry_of (tables s1) (e_id e) = None" "next_token (tables s1) (e_id e) = next_token (tables s) (e_id e) + 1"
    using attempt_round_outcome [OF Cons.prems(1,2) b t(1,2,5,3)] by blast
  have e1: "e_id e1 = e_id e" "e_max_attempts e1 = e_max_attempts e" "e_attempts e1 = e_attempts e + 1"
    "e_status e1 = (if e_attempts e + 1 < e_max_attempts e then Ready else Failed)"
    using one(2) by (simp_all add: round_outcome_def)
  show ?case
  proof (cases "ps = []")
    case True
    have "after_rounds e 1 s1 e1"
      using one(2-5) e1 by (simp add: after_rounds_def round_outcome_def fated_def)
    with one(1) p True show ?thesis by auto
  next
    case False
    then have more: "e_attempts e + 1 < e_max_attempts e" using Cons.prems(4) by (cases ps) simp_all
    obtain s' e' where rest: "fold (attempt_round jsonb v w r scratch locked) ps (polling, s1, fs) = (polling, s', fs)"
      "after_rounds e1 (length ps) s' e'"
      using Cons.IH [OF one(3) _ False] e1 more Cons.prems(4-6) t(4) one(6) by auto
    have "after_rounds e (length (p # ps)) s' e'" using rest(2) by (simp add: after_rounds_def e1)
    with rest(1) one(1) p show ?thesis by auto
  qed
qed simp

text \<open>
  C29. The demonstration of exhausted retries works: over a working connection a ready
  execution called with \<open>fail\<close> true, alone in the queue, is run once in every round of claim,
  failure, backoff and scheduler pass. While attempts are left it is ready again after the
  round; after exactly its limit of attempts it has failed for good, with the tool's error,
  without lease or retry, and no file was touched.
\<close>

theorem forced_failure_exhausts:
  assumes "fated r scratch locked s e" and "e_status e = Ready" and "ps \<noteq> []"
    and "e_attempts e + int (length ps) \<le> e_max_attempts e" and "e_max_attempts e \<le> int32_max"
    and "next_token (tables s) (e_id e) + int (length ps) \<le> int64_max + 1"
    and "timely r (e_attempts e) (e_max_attempts e) ps"
  shows "\<exists>s' e'. fold (attempt_round jsonb v w r scratch locked) ps (polling, s, fs) = (polling, s', fs) \<and>
    exec_of (tables s') (e_id e) = Some e' \<and> e_attempts e' = e_attempts e + int (length ps) \<and>
    e_status e' = (if e_attempts e + int (length ps) < e_max_attempts e then Ready else Failed) \<and>
    e_error_message e' = Some ''forced failure (fail=true)'' \<and>
    lease_of (tables s') (e_id e) = None \<and> retry_of (tables s') (e_id e) = None"
proof -
  obtain s' e' where r: "fold (attempt_round jsonb v w r scratch locked) ps (polling, s, fs) = (polling, s', fs)"
    "after_rounds e (length ps) s' e'"
    using rounds_outcome [OF assms] by blast
  show ?thesis
    by (rule exI [of _ s'], rule exI [of _ e']) (use r in \<open>simp add: after_rounds_def\<close>)
qed

definition demo_surroundings :: surroundings where
  "demo_surroundings = \<lparr>o_now = 0, o_ctx = None, o_mkdir = (\<lambda>_. None), o_write = (\<lambda>_ _. (None, None)),
     o_get = (\<lambda>_. Inl ''offline''), o_post = (\<lambda>_ _. Inl ''offline''), o_json_text = (\<lambda>_ _. ''bad json'')\<rparr>"

definition utc_leaves :: leaves where
  "utc_leaves = \<lparr>lf_time = (\<lambda>_. ''2025-01-01T00:00:00Z''), lf_seconds = decimal\<rparr>"

theorem tool_results_are_json_witness:
  "\<exists>t ms. run_handler utc_leaves demo_surroundings slow_compute (Some ''{\"seconds\":2}'') (\<lambda>_. None) =
      (Inl (Some t), \<lambda>_. None) \<and> parse_json t = Some (J_obj ms)"
proof -
  have h: "handlers ''/tmp'' ''slow_compute'' = Some slow_compute" by (simp add: handlers_def)
  have p: "\<forall>t. plain (lf_time utc_leaves t)" by (simp add: utc_leaves_def) code_simp
  have "forced_failure (Some ''{\"seconds\":2}'') = None"
    "decode_args (\<lambda>ms. take_int (values_of ''seconds'' ms) 0) (Some ''{\"seconds\":2}'') = Some 2"
    by code_simp+
  then have "slow_compute demo_surroundings (Some ''{\"seconds\":2}'') (\<lambda>_. None) =
      (Inr (D_obj [(''computed_at'', D_time 0), (''slept_seconds'', D_num 2)]), \<lambda>_. None)"
    by (simp add: slow_compute_def demo_surroundings_def slow_seconds_def)
  with tool_results_are_json [OF h p, of demo_surroundings "Some ''{\"seconds\":2}''" "\<lambda>_. None"] show ?thesis by auto
qed

definition sc_fated :: st where
  "sc_fated = snd (submit Some ''a'' ''ns'' ''slow_compute'' ''k'' (Some ''{\"fail\":true}'') sc_start)"

theorem forced_failure_exhausts_witness:
  "\<exists>s' e'. fold (attempt_round Some utc_leaves demo_surroundings (executor_runtime (load_config (\<lambda>_. []) None) [''slow_compute''])
      ''/tmp'' []) [(0, 2000000), (0, 4000000), (0, 0)] (polling, sc_fated, \<lambda>_. None) = (polling, s', \<lambda>_. None) \<and>
    exec_of (tables s') ''a'' = Some e' \<and> e_attempts e' = 3 \<and> e_status e' = Failed"
proof -
  let ?r = "executor_runtime (load_config (\<lambda>_. []) None) [''slow_compute'']"
  let ?ps = "[(0, 2000000), (0, 4000000), (0, 0)] :: (int \<times> int) list"
  have wf: "wf_db (tables sc_fated)" unfolding sc_fated_def by (rule submit_op.wf_run, rule wf_sc_start)
  have n: "net sc_fated = []" "next_token (tables sc_fated) ''a'' = 1" by code_simp+
  have "map_option (\<lambda>e. (e_id e, e_status e, e_attempts e, e_max_attempts e, e_tool_name e, e_input_args e))
      (exec_of (tables sc_fated) ''a'') = Some (''a'', Ready, 0, 3, ''slow_compute'', ''{\"fail\":true}'')" by code_simp
  then obtain e where e: "exec_of (tables sc_fated) ''a'' = Some e" "e_id e = ''a''" "e_status e = Ready"
    "e_attempts e = 0" "e_max_attempts e = 3" "e_tool_name e = ''slow_compute''" "e_input_args e = ''{\"fail\":true}''"
    by auto
  have "map e_id (db_executions (tables sc_fated)) = [''a'']" by code_simp
  then have others: "exec_of (tables sc_fated) j \<noteq> None \<longrightarrow> j = ''a''" for j
    by (auto simp: exec_of_def row_of_None_iff)
  have ff: "forced_failure (Some ''{\"fail\":true}'') \<noteq> None" by code_simp
  have lease: "rt_lease_seconds ?r = 30" "rt_handlers ?r = [''slow_compute'']"
    by (simp_all add: executor_runtime_def with_defaults_def load_config_def env_int_def)
  have f: "fated ?r ''/tmp'' [] sc_fated e"
    unfolding fated_def using wf n(1) e others ff lease(2) by (simp add: handlers_def)
  have "timely ?r 0 3 ?ps" using backoff_pow2 [of 1] backoff_pow2 [of 2] by (simp add: lease(1))
  with forced_failure_exhausts [OF f e(3), of ?ps] n(2) e show ?thesis
    by (simp add: int32_max_def int64_max_def) metis
qed

section \<open>A result that is refused\<close>

text \<open>
  A body with a NUL byte is passed on as the escape of that character, which PostgreSQL does
  not accept in \<open>jsonb\<close>. The completion then fails, the handler's success is not recorded, and
  the execution keeps its lease until it lapses and is run again.
\<close>

definition nul_result :: string where
  "nul_result = ''{\"body\":\"'' @ escaped_byte CHR 0x00 @ ''\",\"status\":200}''"

lemma nul_body_result:
  "o_get w ''u'' = Inr (200, [CHR 0x00]) \<Longrightarrow>
    run_handler v w call_api (Some ''{\"url\":\"u\"}'') fs = (Inl (Some nul_result), fs)"
proof -
  assume o: "o_get w ''u'' = Inr (200, [CHR 0x00])"
  let ?args = "Some ''{\"url\":\"u\"}''" and ?d = "D_obj [(''body'', D_str [CHR 0x00]), (''status'', D_num 200)]"
  have a: "forced_failure ?args = None" "decode_args (\<lambda>ms. take_string (values_of ''url'' ms) []) ?args = Some ''u''"
    by code_simp+
  have "call_api w ?args fs = (Inr ?d, fs)" using o a by (simp add: call_api_def read_limit_def)
  moreover have "encode v ?d = nul_result" by code_simp
  ultimately show ?thesis by (simp add: run_handler_def marshal_result_def marshal_def)
qed

lemma refused_result_lost:
  assumes "jsonb t = None" and "net s = []"
  shows "finish jsonb r c cancelled False (Inl (Some t)) s = s"
  using completing.quiet [OF assms(2), of jsonb "c_execution_id c" "c_fencing_token c" "rt_worker r" "Some t"] assms(1)
  by (simp add: finish_def under_ctx_def complete_effect_def json_param_def)

end
