(* ===== verification/Demo_Agent.thy ===== *)
theory Demo_Agent
  imports Handlers Fenced_Later
begin

text \<open>
  The demonstration agent, \<open>cmd/demo-agent/main.go\<close>: traffic, and the chaos cycle that claims
  an execution with a short lease, abandons it and reports it after the lease has lapsed.
  What other processes do while the agent sleeps is an argument.
\<close>

section \<open>Settings\<close>

record agent =
  ag_interval :: int
  ag_chaos_every :: int
  ag_namespace :: string

definition env_int_or :: "environment \<Rightarrow> string \<Rightarrow> int \<Rightarrow> int" where
  "env_int_or env key fallback =
     (if env key \<noteq> [] then
        (case atoi (env key) of Some n \<Rightarrow> if 0 \<le> n then n else fallback | None \<Rightarrow> fallback)
      else fallback)"

text \<open>Without a \<open>DATABASE_URL\<close> the agent ends.\<close>

definition load_agent :: "environment \<Rightarrow> agent option" where
  "load_agent env = (if env_or env ''DATABASE_URL'' [] = [] then None
     else Some \<lparr>ag_interval = env_int_or env ''DEMO_INTERVAL_SECS'' 45,
       ag_chaos_every = env_int_or env ''DEMO_CHAOS_EVERY'' 4,
       ag_namespace = env_or env ''DEMO_NAMESPACE'' ''demo''\<rparr>)"

section \<open>Traffic\<close>

definition demo_calls :: "(string \<times> string) list" where
  "demo_calls =
     [(''call_api'', ''{\"url\":\"https://api.github.com/repos/Tyagiquamar/durablemcp\"}''),
      (''call_api'', ''{\"url\":\"https://httpbin.org/get\"}''),
      (''slow_compute'', ''{\"seconds\":2}''),
      (''write_file'', ''{\"path\":\"demo/last-run.txt\",\"content\":\"generated by demo-agent\"}'')]"

definition demo_key :: "int \<Rightarrow> nat \<Rightarrow> string" where
  "demo_key unix i = ''demo-'' @ decimal unix @ ''-'' @ decimal (int i)"

text \<open>The error the caller logs; a duplicate is only logged.\<close>

definition submit_tool_call ::
  "(string \<Rightarrow> string option) \<Rightarrow> exec_id \<Rightarrow> string \<Rightarrow> int \<Rightarrow> nat \<Rightarrow> st \<Rightarrow> error option \<times> st" where
  "submit_tool_call jsonb uid ns unix i s =
     (let (tool, args) = demo_calls ! (i mod length demo_calls)
      in case submit jsonb uid ns tool (demo_key unix i) (Some args) s of
           (Inl e, s') \<Rightarrow> (Some e, s') | (Inr _, s') \<Rightarrow> (None, s'))"

section \<open>Chaos\<close>

definition ghost_result :: string where
  "ghost_result = ''{\"from\":\"ghost\"}''"

definition run_chaos_cycle ::
  "(string \<Rightarrow> string option) \<Rightarrow> exec_id list \<Rightarrow> (st \<Rightarrow> st) \<Rightarrow> st \<Rightarrow> error option \<times> st" where
  "run_chaos_cycle jsonb locked asleep s = (case claim locked ''chaos-agent'' 2 s of
       (Inl ErrNoWork, s1) \<Rightarrow> (None, s1)
     | (Inl e, s1) \<Rightarrow> (Some e, s1)
     | (Inr c, s1) \<Rightarrow>
         (case complete jsonb (c_execution_id c) (c_fencing_token c) ''chaos-agent'' (Some ghost_result) (asleep s1) of
            (Inl ErrStale, s2) \<Rightarrow> (None, s2)
          | (Inl e, s2) \<Rightarrow> (Some e, s2)
          | (Inr _, s2) \<Rightarrow> (None, s2)))"

definition chaos_due :: "agent \<Rightarrow> nat \<Rightarrow> bool" where
  "chaos_due a i \<longleftrightarrow> 0 < ag_chaos_every a \<and> 0 < i \<and> int i mod ag_chaos_every a = 0"

text \<open>One round of the loop, up to its sleep.\<close>

definition agent_round ::
  "(string \<Rightarrow> string option) \<Rightarrow> agent \<Rightarrow> exec_id \<Rightarrow> int \<Rightarrow> exec_id list \<Rightarrow> (st \<Rightarrow> st) \<Rightarrow> nat \<Rightarrow> st \<Rightarrow> st" where
  "agent_round jsonb a uid unix locked asleep i s =
     (let s1 = snd (submit_tool_call jsonb uid (ag_namespace a) unix i s)
      in if chaos_due a i then snd (run_chaos_cycle jsonb locked asleep s1) else s1)"

section \<open>A lease nobody renews\<close>

text \<open>
  A token handed out for an execution is renewed only by a heartbeat that presents it, and
  heartbeats are logged; so while the log has none its lease ends by the time it was given.
\<close>

definition renewed :: "exec_id \<Rightarrow> int \<Rightarrow> db \<Rightarrow> bool" where
  "renewed k t d \<longleftrightarrow> (\<exists>v\<in>set (log_of d k). v_event_type v = Ev_heartbeat \<and> v_fencing_token v = Some t)"

definition ends_by :: "exec_id \<Rightarrow> int \<Rightarrow> time \<Rightarrow> db \<Rightarrow> bool" where
  "ends_by k t b d \<longleftrightarrow> t \<in> set (tokens (log_of d k)) \<and>
     (renewed k t d \<or> (\<forall>l. lease_of d k = Some l \<and> l_fencing_token l = t \<longrightarrow> l_lease_expires l \<le> b))"

lemma ends_byI:
  assumes "ends_by k t b d" and "prefix (log_of d k) (log_of d' k)"
    and "lease_of d' k = lease_of d k \<or> renewed k t d' \<or> pred_option (\<lambda>l. l_fencing_token l \<noteq> t) (lease_of d' k)"
  shows "ends_by k t b d'"
proof -
  have "set (log_of d k) \<subseteq> set (log_of d' k)" using assms(2) by (rule set_mono_prefix)
  moreover from this have "renewed k t d \<Longrightarrow> renewed k t d'" by (auto simp: renewed_def)
  ultimately show ?thesis using assms(1,3) by (auto simp: ends_by_def in_tokens_iff)
qed

lemma ends_by_same: "same_data d d' \<Longrightarrow> ends_by k t b d \<Longrightarrow> ends_by k t b d'"
  by (erule ends_byI) (simp_all add: same_dataD)

text \<open>What a heartbeat makes of the lease.\<close>

lemma heartbeat_lease:
  "lease_of (snd (heartbeat_effect eid tok secs now d)) k = lease_of d k \<or>
    renewed k t (snd (heartbeat_effect eid tok secs now d)) \<or>
    pred_option (\<lambda>l. l_fencing_token l \<noteq> t) (lease_of (snd (heartbeat_effect eid tok secs now d)) k)"
proof (cases "k = eid \<and> live_lease now d eid tok \<and> exec_of d eid \<noteq> None")
  case True
  show ?thesis
  proof (cases "tok = t")
    case True
    then show ?thesis
      using \<open>k = eid \<and> _\<close> by (auto simp: heartbeat_effect_def effect_simps renewed_def new_event_def)
  next
    case False
    then show ?thesis
      using True by (cases "lease_of d k") (auto simp: heartbeat_effect_def effect_simps)
  qed
next
  case False
  then show ?thesis by (auto simp: heartbeat_effect_def effect_simps)
qed

lemma ends_by_claim: "ends_by k t b d \<Longrightarrow> ends_by k t b (snd (claim_effect locked w secs now d))"
proof (rule ends_byI)
  assume e: "ends_by k t b d"
  then have "t < next_token d k" using log_tokens_below_next by (simp add: ends_by_def)
  then show "lease_of (snd (claim_effect locked w secs now d)) k = lease_of d k \<or>
      renewed k t (snd (claim_effect locked w secs now d)) \<or>
      pred_option (\<lambda>l. l_fencing_token l \<noteq> t) (lease_of (snd (claim_effect locked w secs now d)) k)"
    using claim_lease [of locked w secs now d k] by (auto simp: pred_option_def)
qed (simp_all add: log_prefixI claim_op.appends)

lemma ends_by_removed:
  assumes "ends_by k t b d" and "prefix (db_events d) (db_events d')" and "lease_of d' k \<in> {None, lease_of d k}"
  shows "ends_by k t b d'"
  by (rule ends_byI [OF assms(1) log_prefixI [OF assms(2)]]) (use assms(3) in auto)

lemmas ends_by_removing =
  ends_by_removed [OF _ complete_op.appends removing_leases(1)]
  ends_by_removed [OF _ fail_op.appends removing_leases(2)]
  ends_by_removed [OF _ expire_op.appends removing_leases(3)]
  ends_by_removed [OF _ promote_op.appends removing_leases(4)]

interpretation leases: kept "\<lambda>d d'. ends_by k t b d \<longrightarrow> ends_by k t b d'" for k t b
proof
  fix d :: db and jsonb uid ns name key args and eid tok secs and now :: time
  show "ends_by k t b d \<longrightarrow> ends_by k t b (snd (submit_effect jsonb uid ns name key args now d))"
    by (rule impI, erule ends_by_removed) (simp_all add: submit_op.appends submit_lease)
  show "ends_by k t b d \<longrightarrow> ends_by k t b (snd (heartbeat_effect eid tok secs now d))"
    by (rule impI, erule ends_byI [OF _ log_prefixI [OF heartbeat_op.appends]]) (simp_all only: heartbeat_lease)
  show "ends_by k t b d \<longrightarrow> ends_by k t b (with_tools ts d)" for ts
    by (rule impI, erule ends_by_removed) (simp_all add: with_tools_def lease_of_def)
qed (auto intro: ends_by_same ends_by_claim ends_by_removing)

lemma claim_ends_by:
  assumes "wf_db (tables s)" and "claim locked w secs s = (Inr c, s')"
  shows "ends_by (c_execution_id c) (c_fencing_token c) (clock s' + secs * 1000000) (tables s') \<and>
    exec_of (tables s') (c_execution_id c) \<noteq> None"
proof -
  obtain now e where a: "now \<le> clock s'" "exec_of (tables s) (e_id e) = Some e"
    "c = claim_of now e (next_token (tables s) (e_id e)) secs"
    "tables s' = claimed_db now e w (next_token (tables s) (e_id e)) secs (tables s)"
    using claim_answer [OF assms] by metis
  then show ?thesis
    by (simp add: ends_by_def claim_of_def effect_simps tokens_append tokens_single new_event_def lease_until_def)
qed

section \<open>The ghost is always turned away\<close>

text \<open>
  C18. The chaos cycle never completes anything: when the agent has slept five seconds of the
  database's clock after claiming with its lease of two, and nobody sent heartbeats with its
  token, its report changes no execution, lease or retry entry, whatever the other processes
  did meanwhile; and over a working connection it is rejected as stale, as the agent expects.
\<close>

theorem chaos_cycle_rejected:
  assumes "wf_db (tables s)" and "claim locked ''chaos-agent'' 2 s = (Inr c, s1)"
    and "sys_steps jsonb (s1, ps) (asleep s1, ps')" and "wf_db (tables (asleep s1))"
    and "clock s1 + 5000000 \<le> clock (asleep s1)"
    and "\<not> renewed (c_execution_id c) (c_fencing_token c) (tables (asleep s1))"
  shows "rows_unchanged (tables (asleep s1)) (tables (snd (run_chaos_cycle jsonb locked asleep s))) \<and>
    (net (asleep s1) = [] \<and> jsonb ghost_result \<noteq> None \<longrightarrow>
      fst (complete jsonb (c_execution_id c) (c_fencing_token c) ''chaos-agent'' (Some ghost_result) (asleep s1)) = Inl ErrStale \<and>
      fst (run_chaos_cycle jsonb locked asleep s) = None)"
proof -
  let ?k = "c_execution_id c" and ?t = "c_fencing_token c" and ?s2 = "asleep s1"
  let ?run = "complete jsonb ?k ?t ''chaos-agent'' (Some ghost_result) ?s2"
  have e: "ends_by ?k ?t (clock s1 + 2000000) (tables s1)" "exec_of (tables s1) ?k \<noteq> None"
    using claim_ends_by [OF assms(1,2)] by simp_all
  then have "ends_by ?k ?t (clock s1 + 2000000) (tables ?s2)"
    using leases.steps_kept [OF assms(3)] by simp
  then have sup: "superseded ?s2 ?k ?t"
    using assms(5,6) by (auto simp: ends_by_def superseded_def split: option.split)
  have ex: "exec_of (tables ?s2) ?k \<noteq> None"
    using rows.steps_kept [OF assms(3)] rows_kept_exec e(2) by auto
  have end_state: "snd (run_chaos_cycle jsonb locked asleep s) = snd ?run"
    by (cases ?run; cases "fst ?run") (auto simp: run_chaos_cycle_def assms(2) split: error.split)
  have "fst ?run = Inl ErrStale" if "net ?s2 = [] \<and> jsonb ghost_result \<noteq> None"
    using completing.quiet [of ?s2] that ex superseded_not_live [OF assms(4) sup]
    by (auto simp: complete_effect_def json_param_def)
  moreover have "fst (run_chaos_cycle jsonb locked asleep s) = None" if "fst ?run = Inl ErrStale"
    using that by (cases ?run) (simp add: run_chaos_cycle_def assms(2))
  ultimately show ?thesis
    using superseded_complete [OF assms(4) sup] by (simp add: end_state)
qed

theorem chaos_cycle_rejected_witness:
  "fst (run_chaos_cycle Some [] (\<lambda>s. s\<lparr>clock := clock s + 5000000\<rparr>) sc_submitted) = None \<and>
   rows_unchanged (tables (snd (claim [] ''chaos-agent'' 2 sc_submitted)))
     (tables (snd (run_chaos_cycle Some [] (\<lambda>s. s\<lparr>clock := clock s + 5000000\<rparr>) sc_submitted)))"
proof -
  let ?asleep = "\<lambda>s :: st. s\<lparr>clock := clock s + 5000000\<rparr>"
  let ?s1 = "snd (claim [] ''chaos-agent'' 2 sc_submitted)"
  let ?c = "\<lparr>c_execution_id = ''a'', c_tool_name = ''slow_compute'', c_input_args = ''{}'',
     c_attempts = 1, c_max_attempts = 3, c_fencing_token = 1, c_lease_expires = 2000000\<rparr>"
  have "fst (claim [] ''chaos-agent'' 2 sc_submitted) = Inr ?c" by code_simp
  then have run: "claim [] ''chaos-agent'' 2 sc_submitted = (Inr ?c, ?s1)" by (metis prod.collapse)
  have n: "net ?s1 = []" by code_simp
  have st: "sys_steps Some (?s1, []) (?asleep ?s1, [])"
    by (rule steps_read [OF sys_refl]) simp_all
  have wf: "wf_db (tables (?asleep ?s1))" using claim_op.wf_run [OF wf_sc_submitted] by simp
  have r: "\<not> renewed (c_execution_id ?c) (c_fencing_token ?c) (tables (?asleep ?s1))" by code_simp
  show ?thesis
    using chaos_cycle_rejected [where asleep = ?asleep, OF wf_sc_submitted run st wf _ r] n by simp
qed

end
