(* ===== verification/Processes.thy ===== *)
theory Processes
  imports Api_Facts Demo_Agent
begin

text \<open>
  How \<open>cmd/server\<close> starts, and the start of the server and the rounds of the demonstration
  agent as steps of the system.
\<close>

section \<open>cmd/server\<close>

text \<open>\<open>NewPostgres\<close>: the error of the pool's configuration, or a ping.\<close>

definition new_postgres :: "dberr option \<Rightarrow> unit prog" where
  "new_postgres bad_url = (case bad_url of Some e \<Rightarrow> prog_fail (DbError e) | None \<Rightarrow> ping)"

datatype startup = Fatal string | Stdio mcp_handler | Listen string server

definition server_handler :: mcp_handler where
  "server_handler = \<lparr>h_server_name = ''durablemcp'', h_version = ''0.1.0''\<rparr>"

definition server_start ::
  "externals \<Rightarrow> (string \<Rightarrow> dberr option) \<Rightarrow> environment \<Rightarrow> string option \<Rightarrow> exec_id list \<Rightarrow> st \<Rightarrow> startup \<times> st" where
  "server_start w pool env hostname uids s =
     (let cfg = load_config env hostname in
      case new_postgres (pool (cf_database_url cfg)) s of
        (Inl e, s1) \<Rightarrow> (Fatal (''connect postgres: '' @ error_text w e), s1)
      | (Inr _, s1) \<Rightarrow>
          (case seed_tools (w_jsonb w) (zip uids demo_tools) s1 of
             (Inl e, s2) \<Rightarrow> (Fatal (''seed tools: '' @ error_text w e), s2)
           | (Inr _, s2) \<Rightarrow>
               if cf_mcp_transport cfg = ''stdio'' then (Stdio server_handler, s2)
               else (Listen (cf_addr cfg)
                       \<lparr>sv_reader_key = cf_reader_api_key cfg,
                        sv_allow_test = (env ''ALLOW_TEST_ENDPOINTS'' = ''true''),
                        sv_mcp = Some server_handler\<rparr>, s2)))"

section \<open>Starting\<close>

lemma new_postgres_reads: "reading (new_postgres bad_url)"
  using reading_ping by (auto simp: new_postgres_def split: option.split)

lemma seed_tools_steps:
  "sys_steps jsonb x (s, ps) \<Longrightarrow> sys_steps jsonb x (snd (seed_tools jsonb us s), ps)"
proof (induction us arbitrary: s)
  case (Cons u us)
  obtain uid t where u: "u = (uid, t)" by force
  obtain r s1 where r: "auto_stmt (insert_tool jsonb uid t) s = (r, s1)" by force
  have "sys_steps jsonb x (s1, ps)" using sys_more [OF Cons.prems seed, of uid t] r by simp
  with Cons.IH r u show ?case by (cases r) (simp_all add: prog_bind_def)
qed (simp add: prog_return_def)

lemma server_start_steps:
  assumes "sys_steps (w_jsonb w) x (s, ps)"
  shows "sys_steps (w_jsonb w) x (snd (server_start w pool env hostname uids s), ps)"
proof -
  obtain r s1 where r: "new_postgres (pool (cf_database_url (load_config env hostname))) s = (r, s1)" by force
  have s1: "sys_steps (w_jsonb w) x (s1, ps)"
    using steppingD [OF reading_stepping [OF new_postgres_reads] assms] r by (metis snd_conv)
  obtain q s2 where q: "seed_tools (w_jsonb w) (zip uids demo_tools) s1 = (q, s2)" by force
  have "sys_steps (w_jsonb w) x (s2, ps)"
    using seed_tools_steps [OF s1, of "zip uids demo_tools"] q by simp
  with r q s1 show ?thesis by (cases r; cases q) (simp_all add: server_start_def Let_def)
qed

text \<open>
  A server that starts has its tools: whatever the environment says, when it listens or
  serves stdio, each of the four demonstration tools is registered, and the executor's table
  has a handler for each.
\<close>

theorem server_starts_with_tools:
  assumes "server_start w pool env hostname uids s = (start, s')" and "\<And>m. start \<noteq> Fatal m"
    and "length uids = length demo_tools" and "t \<in> set demo_tools"
  shows "row_of t_name (db_tools (tables s')) (t_name t) \<noteq> None \<and> handlers (scratch_dir env) (t_name t) \<noteq> None"
proof
  obtain s1 where "seed_tools (w_jsonb w) (zip uids demo_tools) s1 = (Inr (), s')"
    using assms(1,2) by (auto simp: server_start_def Let_def split: prod.splits sum.splits if_splits)
  from seed_tools_answer [OF this]
  have "\<forall>(uid, t)\<in>set (zip uids demo_tools). row_of t_name (db_tools (tables s')) (t_name t) \<noteq> None" by blast
  moreover obtain uid where "(uid, t) \<in> set (zip uids demo_tools)"
    using assms(3,4) by (metis in_set_impl_in_set_zip2)
  ultimately show "row_of t_name (db_tools (tables s')) (t_name t) \<noteq> None" by fastforce
  show "handlers (scratch_dir env) (t_name t) \<noteq> None"
    using assms(4) by (auto simp: demo_tools_def registered_def handlers_def)
qed

section \<open>A round of the agent is part of the system\<close>

lemma submit_tool_call_steps:
  assumes "sys_steps jsonb x (s, ps)"
  shows "sys_steps jsonb x (snd (submit_tool_call jsonb uid ns unix i s), ps)"
proof -
  obtain tool args where c: "demo_calls ! (i mod length demo_calls) = (tool, args)" by force
  have "snd (submit_tool_call jsonb uid ns unix i s) = snd (submit jsonb uid ns tool (demo_key unix i) (Some args) s)"
    by (simp add: submit_tool_call_def c split: prod.split sum.split)
  with steps_submit [OF assms] show ?thesis by simp
qed

lemma chaos_steps:
  assumes "sys_steps jsonb x (s, ps)" and "\<And>s. sys_steps jsonb (s, ps) (asleep s, ps)"
  shows "sys_steps jsonb x (snd (run_chaos_cycle jsonb locked asleep s), ps)"
proof (cases "claim locked ''chaos-agent'' 2 s")
  case (Pair r s1)
  have s1: "sys_steps jsonb x (s1, ps)" using steps_claim [OF assms(1), of locked "''chaos-agent''" 2] Pair by simp
  show ?thesis
  proof (cases r)
    case (Inl e)
    with Pair s1 show ?thesis by (cases e) (simp_all add: run_chaos_cycle_def)
  next
    case (Inr c)
    have "snd (run_chaos_cycle jsonb locked asleep s) = snd (complete jsonb (c_execution_id c)
        (c_fencing_token c) ''chaos-agent'' (Some ghost_result) (asleep s1))"
      using Pair Inr by (auto simp: run_chaos_cycle_def split: prod.split sum.split error.split)
    with steps_complete [OF steps_trans [OF assms(2) s1]] show ?thesis by simp
  qed
qed

lemma agent_round_steps:
  assumes "sys_steps jsonb x (s, ps)" and "\<And>s. sys_steps jsonb (s, ps) (asleep s, ps)"
  shows "sys_steps jsonb x (snd (run_chaos_cycle jsonb locked asleep s), ps)"
    and "sys_steps jsonb x (agent_round jsonb a uid unix locked asleep i s, ps)"
  using chaos_steps [OF _ assms(2)] submit_tool_call_steps [OF assms(1)] assms(1)
  by (simp_all add: agent_round_def Let_def)

theorem server_starts_with_tools_witness:
  "row_of t_name (db_tools (tables (snd (server_start demo_world (\<lambda>_. None) (\<lambda>_. []) None [''1'', ''2'', ''3'', ''4'']
     \<lparr>tables = empty_db, clock = 0, net = []\<rparr>)))) ''write_file'' \<noteq> None"
proof -
  let ?s0 = "\<lparr>tables = empty_db, clock = 0, net = []\<rparr>"
  let ?run = "server_start demo_world (\<lambda>_. None) (\<lambda>_. []) None [''1'', ''2'', ''3'', ''4''] ?s0"
  have r: "?run = (fst ?run, snd ?run)" by simp
  have "case fst ?run of Fatal m \<Rightarrow> False | _ \<Rightarrow> True" by code_simp
  then have f: "fst ?run \<noteq> Fatal m" for m by (auto split: startup.splits)
  have t: "demo_tools ! 2 \<in> set demo_tools" "t_name (demo_tools ! 2) = ''write_file''"
    by (simp_all add: demo_tools_def registered_def)
  show ?thesis
    using server_starts_with_tools [OF r f _ t(1)] by (simp add: t(2)) (simp add: demo_tools_def)
qed

end
