(* ===== verification/Mains.thy ===== *)
theory Mains
  imports Processes Scheduler_Pass Mcp_Output
begin

text \<open>
  The four programs from their start to their end: \<open>main\<close> of \<open>cmd/server\<close>,
  \<open>cmd/scheduler\<close>, \<open>cmd/executor\<close> and \<open>cmd/demo-agent\<close>. What a loop waits for (ticks,
  requests, events of the executor, rounds of the agent) is a list, which ends when the
  process is told to stop; what the others do meanwhile is a function on the state.
\<close>

section \<open>Connecting\<close>

text \<open>\<open>log.Fatalf\<close> ends a program with its text.\<close>

definition connected :: "externals \<Rightarrow> dberr option \<Rightarrow> (st \<Rightarrow> (string + 'a) \<times> st) \<Rightarrow> st \<Rightarrow> (string + 'a) \<times> st" where
  "connected w bad_url body s = (case new_postgres bad_url s of
       (Inl e, s1) \<Rightarrow> (Inl (''connect postgres: '' @ error_text w e), s1)
     | (Inr _, s1) \<Rightarrow> body s1)"

section \<open>cmd/scheduler\<close>

text \<open>The loop logs what a pass answers and goes on, whatever it is.\<close>

fun scheduler_loop :: "(st \<Rightarrow> st) list \<Rightarrow> st \<Rightarrow> (nat \<times> error option) list \<times> st" where
  "scheduler_loop [] s = ([], s)"
| "scheduler_loop (others # ticks) s =
     (case run_scheduler_pass (others s) of (r, s') \<Rightarrow> apfst ((#) r) (scheduler_loop ticks s'))"

text \<open>The interval of the ticker, and what the passes answered.\<close>

definition scheduler_main :: "externals \<Rightarrow> (string \<Rightarrow> dberr option) \<Rightarrow> environment \<Rightarrow> string option \<Rightarrow>
    (st \<Rightarrow> st) list \<Rightarrow> st \<Rightarrow> (string + int \<times> (nat \<times> error option) list) \<times> st" where
  "scheduler_main w pool env hostname ticks =
     (let cfg = load_config env hostname
      in connected w (pool (cf_database_url cfg))
           (\<lambda>s. case scheduler_loop ticks s of (rs, s') \<Rightarrow> (Inr (scheduler_interval cfg, rs), s')))"

section \<open>cmd/executor\<close>

definition handler_names :: "string list" where
  "handler_names = [''slow_compute'', ''call_api'', ''write_file'', ''send_webhook'']"

lemma handler_names_registered: "name \<in> set handler_names \<longleftrightarrow> handlers scratch name \<noteq> None"
  by (simp add: handler_names_def handlers_def)

text \<open>
  \<open>Run\<close> returns only when its context is cancelled, which is no error here. What the others
  do comes before each event.
\<close>

definition executor_main :: "externals \<Rightarrow> (string \<Rightarrow> dberr option) \<Rightarrow> environment \<Rightarrow> string option \<Rightarrow>
    ((st \<Rightarrow> st) \<times> input) list \<Rightarrow> st \<Rightarrow> (string + worker) \<times> st" where
  "executor_main w pool env hostname events =
     (let cfg = load_config env hostname
      in connected w (pool (cf_database_url cfg))
           (\<lambda>s. case worker_run (w_jsonb w) (executor_runtime cfg handler_names) events
                 (\<lparr>wk_phase = Polling, wk_done = False\<rparr>, s) of (k, s') \<Rightarrow> (Inr k, s')))"

section \<open>cmd/demo-agent\<close>

text \<open>What a round meets: the new identifier, the time, the rows locked, and the others.\<close>

record round =
  rd_uid :: exec_id
  rd_unix :: int
  rd_locked :: "exec_id list"
  rd_asleep :: "st \<Rightarrow> st"
  rd_pause :: "st \<Rightarrow> st"

fun agent_rounds :: "(string \<Rightarrow> string option) \<Rightarrow> agent \<Rightarrow> nat \<Rightarrow> round list \<Rightarrow> st \<Rightarrow> st" where
  "agent_rounds jsonb a i [] s = s"
| "agent_rounds jsonb a i (d # ds) s = agent_rounds jsonb a (Suc i) ds
     (rd_pause d (agent_round jsonb a (rd_uid d) (rd_unix d) (rd_locked d) (rd_asleep d) i s))"

definition agent_main :: "externals \<Rightarrow> (string \<Rightarrow> dberr option) \<Rightarrow> environment \<Rightarrow> round list \<Rightarrow> st \<Rightarrow>
    (string + unit) \<times> st" where
  "agent_main w pool env ds s = (case load_agent env of
       None \<Rightarrow> (Inl ''demo-agent: DATABASE_URL is required'', s)
     | Some a \<Rightarrow> (case new_postgres (pool (env_or env ''DATABASE_URL'' [])) s of
           (Inl e, s1) \<Rightarrow> (Inl (''demo-agent: connect postgres: '' @ error_text w e), s1)
         | (Inr _, s1) \<Rightarrow> (Inr (), agent_rounds (w_jsonb w) a 0 ds s1)))"

section \<open>cmd/server\<close>

fun serve_requests :: "externals \<Rightarrow> server \<Rightarrow> (exec_id \<times> http_request \<times> (st \<Rightarrow> st)) list \<Rightarrow> st \<Rightarrow> http_reply list \<times> st" where
  "serve_requests w v [] s = ([], s)"
| "serve_requests w v ((uid, g, others) # rest) s =
     (case serve_http w v uid g (others s) of (a, s') \<Rightarrow> apfst ((#) a) (serve_requests w v rest s'))"

text \<open>
  The loop of \<open>ServeStdio\<close> with what the others do while it waits for the next line;
  \<open>serve_lines\<close> is the loop of a server nobody else disturbs.
\<close>

fun serve_among :: "externals \<Rightarrow> mcp_handler \<Rightarrow> (nat \<Rightarrow> exec_id) \<Rightarrow> (nat \<Rightarrow> st \<Rightarrow> st) \<Rightarrow> string list \<Rightarrow> st \<Rightarrow>
    rpc_response list \<times> st" where
  "serve_among w h uids others [] s = ([], s)"
| "serve_among w h uids others (line # rest) s =
     (case serve_line w h (uids 0) line (others 0 s) of (a, s') \<Rightarrow>
        apfst ((@) (case a of None \<Rightarrow> [] | Some x \<Rightarrow> [x]))
          (serve_among w h (\<lambda>i. uids (Suc i)) (\<lambda>i. others (Suc i)) rest s'))"

lemma serve_among_alone: "serve_among w h uids (\<lambda>_. id) ls s = serve_lines w h uids ls s"
  by (induction ls arbitrary: uids s) (simp_all add: split_beta apfst_def map_prod_def split: option.split prod.split)

datatype served = Wrote string "string option" | Replied "http_reply list" "string option"

text \<open>
  Standard input is read to its end, or to a line that is too long; \<open>ListenAndServe\<close> ends with
  an error, or because the server was closed. What was served comes with the text \<open>main\<close> ends
  with, if any.
\<close>

definition server_main :: "externals \<Rightarrow> leaves \<Rightarrow> (string \<Rightarrow> dberr option) \<Rightarrow> environment \<Rightarrow> string option \<Rightarrow>
    exec_id list \<Rightarrow> (nat \<Rightarrow> exec_id) \<Rightarrow> (nat \<Rightarrow> st \<Rightarrow> st) \<Rightarrow> string \<Rightarrow> (exec_id \<times> http_request \<times> (st \<Rightarrow> st)) list \<Rightarrow> string option \<Rightarrow>
    st \<Rightarrow> (string + served) \<times> st" where
  "server_main w v pool env hostname uids fresh others input requests listen s =
     (case server_start w pool env hostname uids s of
        (Fatal m, s1) \<Rightarrow> (Inl m, s1)
      | (Stdio h, s1) \<Rightarrow>
          (case serve_among w h fresh others (fst (scan_lines input)) s1 of (as, s2) \<Rightarrow>
             (Inr (Wrote (concat (map (write_line v) as))
                (if snd (scan_lines input) then Some ''stdio transport: bufio.Scanner: token too long'' else None)), s2))
      | (Listen addr sv, s1) \<Rightarrow>
          (case serve_requests w sv requests s1 of (rs, s2) \<Rightarrow>
             (Inr (Replied rs (map_option ((@) ''http server: '') listen)), s2)))"

section \<open>The scheduler goes on\<close>

lemma scheduler_loop_length: "length (fst (scheduler_loop ticks s)) = length ticks"
  by (induction ticks arbitrary: s) (simp_all split: prod.split)

lemma scheduler_loop_take:
  "scheduler_loop (xs @ ys) s = (case scheduler_loop xs s of (rs, s') \<Rightarrow> apfst ((@) rs) (scheduler_loop ys s'))"
  by (induction xs arbitrary: s) (simp_all add: split_beta apfst_def map_prod_def)

lemma scheduler_loop_wf:
  assumes "wf_db (tables s)" and "\<forall>others\<in>set ticks. \<forall>s. wf_db (tables s) \<longrightarrow> wf_db (tables (others s))"
  shows "wf_db (tables (snd (scheduler_loop ticks s)))"
  using assms
proof (induction ticks arbitrary: s)
  case (Cons others ticks)
  obtain r s' where r: "run_scheduler_pass (others s) = (r, s')" by (metis prod.collapse)
  have "wf_db (tables s')" using scheduler_pass_wf [OF _ r] Cons.prems by simp
  with Cons.IH [of s'] Cons.prems(2) r show ?case by simp
qed simp

lemma duty_leaves_none:
  assumes "exec_of d' k = map_option (after_pass now d k) (exec_of d k)"
    and "lease_of d' k = (if lapsed now d k then None else lease_of d k)"
    and "retry_of d' k = (if retry_due now d k then None else retry_of d k)"
  shows "\<not> lapsed now d' k \<and> \<not> retry_due now d' k"
proof
  show "\<not> lapsed now d' k"
  proof (cases "lapsed now d k")
    case False
    have "\<not> lapsed now d' k" if "exec_of d k = Some e" for e
      using False assms(1,2) that by (auto simp: lapsed_iff [of now d'] lapsed_iff [of now d] after_pass_def promoted_row_def False)
    then show ?thesis using assms(1) by (cases "exec_of d k") (simp_all add: lapsed_iff [of now d'])
  qed (simp add: assms(2) lapsed_iff [of now d'])
  show "\<not> retry_due now d' k" using assms(3) by (simp add: retry_due_def split: if_splits)
qed

text \<open>
  C11. No failure stops the scheduler: its loop makes a pass for every tick, and however many
  passes before were cut off by the connection, the first one that finds it working reaps
  every lapsed lease and promotes every due retry, and says how many.
\<close>

theorem scheduler_recovers:
  assumes "wf_db (tables s)" and "\<forall>others\<in>set ticks. \<forall>s. wf_db (tables s) \<longrightarrow> wf_db (tables (others s))"
    and "ticks = xs @ others # ys" and "s' = others (snd (scheduler_loop xs s))" and "net s' = []"
  shows "length (fst (scheduler_loop ticks s)) = length ticks \<and>
    fst (scheduler_loop ticks s) ! length xs =
      (card {k. lapsed (clock s') (tables s') k} + card {k. retry_due (clock s') (tables s') k}, None) \<and>
    (\<forall>k. \<not> lapsed (clock s') (tables (snd (scheduler_loop (xs @ [others]) s))) k \<and>
      \<not> retry_due (clock s') (tables (snd (scheduler_loop (xs @ [others]) s))) k)"
proof -
  have wf: "wf_db (tables s')"
    using scheduler_loop_wf [OF assms(1), of xs] assms(2) by (simp add: assms(3,4))
  obtain d where d: "run_scheduler_pass s' =
      ((card {k. lapsed (clock s') (tables s') k} + card {k. retry_due (clock s') (tables s') k}, None), s'\<lparr>tables := d\<rparr>)"
    "\<forall>k. lease_of d k = (if lapsed (clock s') (tables s') k then None else lease_of (tables s') k)"
    "\<forall>k. retry_of d k = (if retry_due (clock s') (tables s') k then None else retry_of (tables s') k)"
    "\<forall>k. exec_of d k = map_option (after_pass (clock s') (tables s') k) (exec_of (tables s') k)"
    using pass_duty [OF wf assms(5)] by blast
  obtain rs s1 where x: "scheduler_loop xs s = (rs, s1)" by (metis prod.collapse)
  have rs: "length rs = length xs" using scheduler_loop_length [of xs s] x by simp
  have "scheduler_loop ticks s = apfst ((@) rs) (case run_scheduler_pass s' of (r, s'') \<Rightarrow> apfst ((#) r) (scheduler_loop ys s''))"
    by (simp add: assms(3,4) scheduler_loop_take x)
  then have "fst (scheduler_loop ticks s) ! length xs = fst (run_scheduler_pass s')"
    by (simp add: split_beta nth_append rs)
  moreover have "snd (scheduler_loop (xs @ [others]) s) = s'\<lparr>tables := d\<rparr>"
    using d(1) by (simp add: scheduler_loop_take x assms(4))
  moreover have "\<not> lapsed (clock s') d k \<and> \<not> retry_due (clock s') d k" for k
    using d(2-4) by (intro duty_leaves_none) blast+
  ultimately show ?thesis using d(1) scheduler_loop_length [of ticks s] by simp
qed

section \<open>Every program is part of the system\<close>

lemma sched_run_steps:
  "sys_steps jsonb x (s, p # ps) \<Longrightarrow> sched_run n (p, s) = (p', s') \<Longrightarrow> sys_steps jsonb x (s', p' # ps)"
proof (induction n arbitrary: p s)
  case (Suc n)
  obtain q u where q: "sched_step p s = (q, u)" by (metis prod.collapse)
  have "sys_steps jsonb x (u, q # ps)" by (rule sys_more [OF Suc.prems(1) sys_scheduler0 [OF q]])
  from Suc.IH [OF this] Suc.prems(2) q show ?case by (simp add: sched_run_Suc)
qed simp

lemma pass_steps:
  assumes "sys_steps jsonb x (s, Idle # ps)"
  shows "sys_steps jsonb x (snd (run_scheduler_pass s), Idle # ps)"
proof -
  obtain n where "sched_run n (Idle, s) = (Idle, snd (run_scheduler_pass s))" using sched_run_pass by blast
  with sched_run_steps [OF assms] show ?thesis by blast
qed

definition within :: "(string \<Rightarrow> string option) \<Rightarrow> sched list \<Rightarrow> (st \<Rightarrow> st) \<Rightarrow> bool" where
  "within jsonb ps f \<longleftrightarrow> (\<forall>s. sys_steps jsonb (s, ps) (f s, ps))"

lemma withinD: "within jsonb ps f \<Longrightarrow> sys_steps jsonb x (s, ps) \<Longrightarrow> sys_steps jsonb x (f s, ps)"
  unfolding within_def by (blast intro: steps_trans)

lemma scheduler_loop_steps:
  "sys_steps jsonb x (s, Idle # ps) \<Longrightarrow> \<forall>f\<in>set ticks. within jsonb (Idle # ps) f \<Longrightarrow>
    sys_steps jsonb x (snd (scheduler_loop ticks s), Idle # ps)"
proof (induction ticks arbitrary: s)
  case (Cons f ticks)
  have "sys_steps jsonb x (snd (run_scheduler_pass (f s)), Idle # ps)"
    using Cons.prems by (auto intro: pass_steps withinD)
  with Cons.IH Cons.prems(2) show ?case by (simp add: split_beta)
qed simp

lemma agent_rounds_steps:
  "sys_steps jsonb x (s, ps) \<Longrightarrow> \<forall>d\<in>set ds. within jsonb ps (rd_asleep d) \<and> within jsonb ps (rd_pause d) \<Longrightarrow>
    sys_steps jsonb x (agent_rounds jsonb a i ds s, ps)"
proof (induction ds arbitrary: i s)
  case (Cons d ds)
  have "sys_steps jsonb x (agent_round jsonb a (rd_uid d) (rd_unix d) (rd_locked d) (rd_asleep d) i s, ps)"
    by (rule agent_round_steps(2) [OF Cons.prems(1)]) (use Cons.prems(2) in \<open>simp add: within_def\<close>)
  with Cons.IH Cons.prems(2) show ?case by (simp add: withinD)
qed simp

lemma serve_requests_steps:
  "sys_steps (w_jsonb w) x (s, ps) \<Longrightarrow> \<forall>(uid, g, f)\<in>set rs. within (w_jsonb w) ps f \<Longrightarrow>
    sys_steps (w_jsonb w) x (snd (serve_requests w v rs s), ps)"
proof (induction rs arbitrary: s)
  case (Cons r rs)
  obtain uid g f where r: "r = (uid, g, f)" by (cases r) auto
  have "sys_steps (w_jsonb w) x (snd (serve_http w v uid g (f s)), ps)"
    by (rule serve_http_steps, rule withinD [OF _ Cons.prems(1)]) (use Cons.prems(2) r in simp)
  with Cons.IH Cons.prems(2) r show ?case by (simp add: split_beta)
qed simp

lemma connected_steps:
  assumes "sys_steps jsonb x (s, ps)"
    and "\<And>s. sys_steps jsonb x (s, ps) \<Longrightarrow> sys_steps jsonb x (snd (body s), ps)"
  shows "sys_steps jsonb x (snd (connected w bad_url body s), ps)"
proof -
  obtain r s1 where r: "new_postgres bad_url s = (r, s1)" by (metis prod.collapse)
  have "sys_steps jsonb x (s1, ps)"
    using steppingD [OF reading_stepping [OF new_postgres_reads] assms(1)] r by (metis snd_conv)
  with assms(2) r show ?thesis by (cases r) (simp_all add: connected_def)
qed

lemma agent_main_steps:
  assumes "sys_steps (w_jsonb w) x (s, ps)"
    and "\<forall>d\<in>set ds. within (w_jsonb w) ps (rd_asleep d) \<and> within (w_jsonb w) ps (rd_pause d)"
  shows "sys_steps (w_jsonb w) x (snd (agent_main w pool env ds s), ps)"
proof (cases "load_agent env")
  case (Some a)
  obtain r s1 where r: "new_postgres (pool (env_or env ''DATABASE_URL'' [])) s = (r, s1)" by (metis prod.collapse)
  have "sys_steps (w_jsonb w) x (s1, ps)"
    using steppingD [OF reading_stepping [OF new_postgres_reads] assms(1)] r by (metis snd_conv)
  with agent_rounds_steps [OF _ assms(2)] Some r show ?thesis by (cases r) (simp_all add: agent_main_def)
qed (simp add: agent_main_def assms(1))

lemma serve_among_steps:
  "sys_steps (w_jsonb w) x (s, ps) \<Longrightarrow> \<forall>i. within (w_jsonb w) ps (others i) \<Longrightarrow>
    sys_steps (w_jsonb w) x (snd (serve_among w h uids others ls s), ps)"
proof (induction ls arbitrary: uids others s)
  case (Cons l ls)
  have "sys_steps (w_jsonb w) x (others 0 s, ps)" using withinD Cons.prems by blast
  from serve_line_steps [OF this, of h "uids 0" l] Cons.IH Cons.prems(2) show ?case by (simp add: split_beta)
qed simp

lemma server_main_steps:
  assumes "sys_steps (w_jsonb w) x (s, ps)" and "\<forall>(uid, g, f)\<in>set rs. within (w_jsonb w) ps f"
    and "\<forall>i. within (w_jsonb w) ps (others i)"
  shows "sys_steps (w_jsonb w) x (snd (server_main w v pool env host uids fresh others input rs listen s), ps)"
proof -
  obtain start s1 where start: "server_start w pool env host uids s = (start, s1)" by (metis prod.collapse)
  have s1: "sys_steps (w_jsonb w) x (s1, ps)" using server_start_steps [OF assms(1)] start by (metis snd_conv)
  show ?thesis
  proof (cases start)
    case (Stdio h)
    with serve_among_steps [OF s1 assms(3)] start show ?thesis by (simp add: server_main_def split_beta)
  next
    case (Listen addr sv)
    with serve_requests_steps [OF s1 assms(2), of sv] start show ?thesis by (simp add: server_main_def split_beta)
  qed (use start s1 in \<open>simp add: server_main_def\<close>)
qed

text \<open>
  So whatever the environment, the input and the connection, each of the four programs run
  from its start to its end only takes steps of the system, the scheduler those of one of the
  system's schedulers, provided what the others do meanwhile is that as well: what is proved of
  the system holds with the programs running side by side.
\<close>

theorem programs_within_system:
  assumes "\<forall>f\<in>set ticks. within (w_jsonb w) (Idle # ps) f"
    and "\<forall>(f, i)\<in>set events. within (w_jsonb w) (Idle # ps) f"
    and "\<forall>d\<in>set ds. within (w_jsonb w) (Idle # ps) (rd_asleep d) \<and> within (w_jsonb w) (Idle # ps) (rd_pause d)"
    and "\<forall>i. within (w_jsonb w) (Idle # ps) (others i)"
    and "\<forall>(uid, g, f)\<in>set rs. within (w_jsonb w) (Idle # ps) f"
  shows "within (w_jsonb w) (Idle # ps) (\<lambda>s. snd (scheduler_main w pool env host ticks s)) \<and>
    within (w_jsonb w) (Idle # ps) (\<lambda>s. snd (executor_main w pool env host events s)) \<and>
    within (w_jsonb w) (Idle # ps) (\<lambda>s. snd (agent_main w pool env ds s)) \<and>
    within (w_jsonb w) (Idle # ps) (\<lambda>s. snd (server_main w v pool env host uids fresh others input rs listen s))"
proof -
  let ?x = "Idle # ps"
  have "sys_steps (w_jsonb w) (s, ?x) (snd (scheduler_main w pool env host ticks s), ?x)" for s
    unfolding scheduler_main_def Let_def
    by (rule connected_steps [OF sys_refl]) (use scheduler_loop_steps assms(1) in \<open>fastforce simp: split_beta\<close>)
  moreover have "sys_steps (w_jsonb w) (s, ?x) (snd (executor_main w pool env host events s), ?x)" for s
    unfolding executor_main_def Let_def
    by (rule connected_steps [OF sys_refl])
      (use worker_run_steps [OF _ assms(2) [unfolded within_def]] in \<open>fastforce simp: split_beta\<close>)
  moreover have "sys_steps (w_jsonb w) (s, ?x) (snd (agent_main w pool env ds s), ?x)" for s
    by (rule agent_main_steps [OF sys_refl assms(3)])
  moreover have "sys_steps (w_jsonb w) (s, ?x) (snd (server_main w v pool env host uids fresh others input rs listen s), ?x)" for s
    by (rule server_main_steps [OF sys_refl assms(5,4)])
  ultimately show ?thesis by (simp add: within_def)
qed

theorem scheduler_recovers_witness:
  "\<exists>e. map snd (fst (scheduler_loop [\<lambda>s. s\<lparr>net := [(0, Lost ''down'')]\<rparr>, id] sc_lapsed)) = [Some e, None] \<and>
    lapsed 31000000 (tables sc_lapsed) ''a'' \<and>
    \<not> lapsed 31000000 (tables (snd (scheduler_loop [\<lambda>s. s\<lparr>net := [(0, Lost ''down'')]\<rparr>, id] sc_lapsed))) ''a''"
proof -
  let ?f = "\<lambda>s :: st. s\<lparr>net := [(0, Lost ''down'')]\<rparr>"
  let ?r = "scheduler_loop [?f, id] sc_lapsed"
  have l: "lapsed 31000000 (tables sc_lapsed) ''a''" by code_simp
  have c: "clock (snd (scheduler_loop [?f] sc_lapsed)) = 31000000" by code_simp
  have "case snd (fst ?r ! 0) of Some e \<Rightarrow> True | None \<Rightarrow> False" by code_simp
  then obtain e where e: "snd (fst ?r ! 0) = Some e" by (auto split: option.splits)
  have s: "net (snd (scheduler_loop [?f] sc_lapsed)) = []" by code_simp
  have p: "\<forall>f\<in>set [?f, id]. \<forall>s. wf_db (tables s) \<longrightarrow> wf_db (tables (f s))" by simp
  have ts: "[?f, id] = [?f] @ id # []" by simp
  have here: "snd (scheduler_loop [?f] sc_lapsed) = id (snd (scheduler_loop [?f] sc_lapsed))" by (simp only: id_apply)
  note h = scheduler_recovers [OF wf_sc_lapsed p ts here s]
  have "length (fst ?r) = length [?f, id]" by (rule conjunct1 [OF h])
  then have r1: "length (fst ?r) = 2" by simp
  have "snd (fst ?r ! length [?f]) = None" by (subst conjunct1 [OF conjunct2 [OF h]]) simp
  then have r2: "snd (fst ?r ! 1) = None" by (simp only: list.size One_nat_def plus_nat.add_0 add_Suc)
  have "\<not> lapsed 31000000 (tables (snd (scheduler_loop ([?f] @ [id]) sc_lapsed))) ''a''"
    using conjunct1 [OF spec [OF conjunct2 [OF conjunct2 [OF h]], of "''a''"]] unfolding c .
  then have r3: "\<not> lapsed 31000000 (tables (snd ?r)) ''a''" by (simp only: append.simps simp_thms)
  have eq: "fst ?r = [fst ?r ! 0, fst ?r ! 1]" using r1 by (intro nth_equalityI) (auto simp: less_2_cases_iff)
  have "map snd (fst ?r) = map snd [fst ?r ! 0, fst ?r ! 1]" by (rule arg_cong [OF eq])
  also have "\<dots> = [Some e, None]" by (simp only: list.map e r2)
  finally have m: "map snd (fst ?r) = [Some e, None]" .
  show ?thesis by (rule exI, rule conjI [OF m conjI [OF l r3]])
qed

end
