(* ===== verification/Test_Harness.thy ===== *)
theory Test_Harness
  imports Config Paths
begin

text \<open>
  The database of the integration tests, \<open>internal/testdb/testdb.go\<close>: a PostgreSQL of its own
  in a container, or one named by the environment, with the schema applied, and one of them
  shared by all tests of a process. The calls hold the mutex from their start to their end,
  so a process's calls are a list. What Docker, the file system and the database answer is a
  record; a script creates the schema or not as \<open>creates\<close> says.
\<close>

section \<open>What lies outside\<close>

text \<open>
  The containers that run, with the address of each one's database; the scripts executed at
  each address since its database is new.
\<close>

record site =
  si_next :: nat
  si_up :: "(nat \<times> string) list"
  si_scripts :: "string \<Rightarrow> string list"

text \<open>\<open>postgres.Run\<close> may fail and yet leave a container that it had created.\<close>

datatype run_answer = Started string | Run_failed string "string option"

record answers =
  an_run :: run_answer
  an_address :: "string option"
  an_terminates :: bool
  an_pool :: "string option"
  an_query :: "string option"
  an_caller :: "string option"
  an_file :: "string \<Rightarrow> string + string"
  an_exec :: "string option \<times> bool"

definition boot :: "string \<Rightarrow> site \<Rightarrow> site" where
  "boot url s = s\<lparr>si_next := si_next s + 1, si_up := (si_next s, url) # si_up s,
     si_scripts := (si_scripts s)(url := [])\<rparr>"

text \<open>A container's database ends with it; an error of \<open>Terminate\<close> is ignored.\<close>

definition terminate :: "bool \<Rightarrow> nat \<Rightarrow> site \<Rightarrow> site" where
  "terminate works c s = (if works
     then s\<lparr>si_up := filter (\<lambda>(k, _). k \<noteq> c) (si_up s),
            si_scripts := (\<lambda>u. if (c, u) \<in> set (si_up s) then [] else si_scripts s u)\<rparr>
     else s)"

definition schema_at :: "(string \<Rightarrow> bool) \<Rightarrow> string \<Rightarrow> site \<Rightarrow> bool" where
  "schema_at creates url s \<longleftrightarrow> list_ex creates (si_scripts s url)"

section \<open>migrate\<close>

text \<open>\<open>filepath.Join\<close> of several elements, none of them empty.\<close>

definition migrations_path :: "string option \<Rightarrow> string" where
  "migrations_path caller = (case caller of
       None \<Rightarrow> join_path ''migrations'' ''001_init.sql''
     | Some this \<Rightarrow> join_path (dir_path this) ''../../migrations/001_init.sql'')"

text \<open>
  The error, if any. A script runs as one implicit transaction, so an error that is reported
  says that it had no effect, or that its effect was not acknowledged.
\<close>

definition migrate :: "(string \<Rightarrow> bool) \<Rightarrow> answers \<Rightarrow> string \<Rightarrow> site \<Rightarrow> string option \<times> site" where
  "migrate creates a url s = (case an_pool a of
       Some e \<Rightarrow> (Some e, s)
     | None \<Rightarrow> (case an_query a of
           Some e \<Rightarrow> (Some e, s)
         | None \<Rightarrow>
             if schema_at creates url s then (None, s)
             else (case an_file a (migrations_path (an_caller a)) of
                 Inl e \<Rightarrow> (Some e, s)
               | Inr sql \<Rightarrow> (case an_exec a of (e, acted) \<Rightarrow>
                   (e, if e = None \<or> acted then s\<lparr>si_scripts := (si_scripts s)(url := si_scripts s url @ [sql])\<rparr>
                       else s)))))"

text \<open>
  Its two halves, between which another process may act: what the look at the database and the
  file decide, and the execution of the script.
\<close>

definition migrate_check :: "(string \<Rightarrow> bool) \<Rightarrow> answers \<Rightarrow> string \<Rightarrow> site \<Rightarrow> string option + string" where
  "migrate_check creates a url s = (case an_pool a of
       Some e \<Rightarrow> Inl (Some e)
     | None \<Rightarrow> (case an_query a of
           Some e \<Rightarrow> Inl (Some e)
         | None \<Rightarrow> if schema_at creates url s then Inl None
             else (case an_file a (migrations_path (an_caller a)) of Inl e \<Rightarrow> Inl (Some e) | Inr sql \<Rightarrow> Inr sql)))"

definition migrate_apply :: "answers \<Rightarrow> string \<Rightarrow> string \<Rightarrow> site \<Rightarrow> string option \<times> site" where
  "migrate_apply a url sql s = (case an_exec a of (e, acted) \<Rightarrow>
     (e, if e = None \<or> acted then s\<lparr>si_scripts := (si_scripts s)(url := si_scripts s url @ [sql])\<rparr> else s))"

lemma migrate_halves:
  "migrate creates a url s = (case migrate_check creates a url s of
     Inl r \<Rightarrow> (r, s) | Inr sql \<Rightarrow> migrate_apply a url sql s)"
  by (simp add: migrate_def migrate_check_def migrate_apply_def split: option.split sum.split)

text \<open>
  Two test processes on one database given by the environment: both look before either has
  applied the script, and the second sends it to a database that has the schema. PostgreSQL
  then refuses the script, which creates types without \<open>IF NOT EXISTS\<close>, and its \<open>Start\<close> fails.
\<close>

lemma migrate_race:
  assumes "migrate_check creates a url s = Inr sql" and "migrate_check creates b url s = Inr sql'"
    and "creates sql" and "an_exec a = (None, True)" and "an_exec b = (Some e, False)"
  shows "\<exists>s1. migrate_apply a url sql s = (None, s1) \<and> schema_at creates url s1 \<and>
    migrate_apply b url sql' s1 = (Some e, s1)"
  using assms(3-5) by (simp add: migrate_apply_def schema_at_def)

section \<open>Start\<close>

text \<open>The function that \<open>Start\<close> returns to release what it acquired.\<close>

datatype stopper = Nothing_to_stop | Stop nat

fun call_stopper :: "bool \<Rightarrow> stopper \<Rightarrow> site \<Rightarrow> site" where
  "call_stopper works Nothing_to_stop s = s"
| "call_stopper works (Stop c) s = terminate works c s"

definition start :: "(string \<Rightarrow> bool) \<Rightarrow> environment \<Rightarrow> answers \<Rightarrow> site \<Rightarrow> (string + string \<times> stopper) \<times> site" where
  "start creates env a s =
     (let url = env ''DURABLEMCP_TEST_DATABASE_URL'' in
      if url \<noteq> [] then
        (case migrate creates a url s of
           (Some e, s1) \<Rightarrow> (Inl (''apply migrations to DURABLEMCP_TEST_DATABASE_URL: '' @ e), s1)
         | (None, s1) \<Rightarrow> (Inr (url, Nothing_to_stop), s1))
      else (case an_run a of
          Run_failed e left \<Rightarrow>
            (Inl (''start postgres:17-alpine container (is Docker running?): '' @ e),
             case left of None \<Rightarrow> s | Some u \<Rightarrow> boot u s)
        | Started u \<Rightarrow>
            (let c = si_next s; s1 = boot u s in
             case an_address a of
               Some e \<Rightarrow> (Inl e, terminate (an_terminates a) c s1)
             | None \<Rightarrow> (case migrate creates a u s1 of
                   (Some e, s2) \<Rightarrow> (Inl e, terminate (an_terminates a) c s2)
                 | (None, s2) \<Rightarrow> (Inr (u, Stop c), s2)))))"

section \<open>Shared and Shutdown\<close>

record shared_harness =
  sh_url :: string
  sh_stop :: "stopper option"

datatype outcome = Skipped | Fatal_test string | Url string

definition shared :: "(string \<Rightarrow> bool) \<Rightarrow> environment \<Rightarrow> bool \<Rightarrow> answers \<Rightarrow> shared_harness \<times> site \<Rightarrow>
    outcome \<times> shared_harness \<times> site" where
  "shared creates env short a = (\<lambda>(h, s).
     if short then (Skipped, h, s)
     else if sh_url h = [] then
       (case start creates env a s of
          (Inl e, s1) \<Rightarrow> (Fatal_test (''PostgreSQL test database unavailable: '' @ e @
             '' (set DURABLEMCP_TEST_DATABASE_URL or ensure Docker is running)''), h, s1)
        | (Inr (url, stop), s1) \<Rightarrow> (Url url, \<lparr>sh_url = url, sh_stop = Some stop\<rparr>, s1))
     else (Url (sh_url h), h, s))"

definition shutdown :: "bool \<Rightarrow> shared_harness \<times> site \<Rightarrow> shared_harness \<times> site" where
  "shutdown works = (\<lambda>(h, s). case sh_stop h of
       None \<Rightarrow> (h, s)
     | Some f \<Rightarrow> (h\<lparr>sh_stop := None\<rparr>, call_stopper works f s))"

text \<open>The calls of one test process, in the order in which they get the mutex.\<close>

datatype harness_call = Shared bool answers | Shutdown bool

fun harness_run :: "(string \<Rightarrow> bool) \<Rightarrow> environment \<Rightarrow> harness_call list \<Rightarrow> shared_harness \<times> site \<Rightarrow>
    outcome list \<times> shared_harness \<times> site" where
  "harness_run creates env [] x = ([], x)"
| "harness_run creates env (Shared short a # cs) x =
     (case shared creates env short a x of (r, y) \<Rightarrow> apfst ((#) r) (harness_run creates env cs y))"
| "harness_run creates env (Shutdown works # cs) x = harness_run creates env cs (shutdown works x)"

definition new_harness :: shared_harness where
  "new_harness = \<lparr>sh_url = [], sh_stop = None\<rparr>"

section \<open>Starting\<close>

text \<open>
  What is relied on: a container that starts has an address, and the migration's text creates
  the schema. \<open>Run\<close> may fail and leave a container, and \<open>Terminate\<close> may fail.
\<close>

definition reliable :: "(string \<Rightarrow> bool) \<Rightarrow> answers \<Rightarrow> bool" where
  "reliable creates a \<longleftrightarrow> (\<forall>p t. an_file a p = Inr t \<longrightarrow> creates t) \<and> (\<forall>u. an_run a = Started u \<longrightarrow> u \<noteq> [])"

text \<open>The answers with which \<open>Start\<close> may leave a container behind when it fails.\<close>

definition leaky :: "answers \<Rightarrow> bool" where
  "leaky a \<longleftrightarrow> \<not> an_terminates a \<or> (case an_run a of Run_failed e (Some u) \<Rightarrow> True | _ \<Rightarrow> False)"

text \<open>How often the schema was created at an address.\<close>

definition applied :: "(string \<Rightarrow> bool) \<Rightarrow> string \<Rightarrow> site \<Rightarrow> nat" where
  "applied creates url s = length (filter creates (si_scripts s url))"

lemma schema_at_applied: "schema_at creates url s \<longleftrightarrow> 0 < applied creates url s"
  by (simp add: schema_at_def applied_def list_ex_iff filter_empty_conv)

lemma migrate_site:
  assumes "migrate creates a url s = (r, s')"
  shows "si_up s' = si_up s \<and> si_next s' = si_next s \<and>
    (\<forall>u. u \<noteq> url \<longrightarrow> si_scripts s' u = si_scripts s u) \<and>
    (schema_at creates url s \<longrightarrow> s' = s) \<and> applied creates url s' \<le> max 1 (applied creates url s)"
proof -
  have "applied creates url s = 0" if "\<not> schema_at creates url s" using that by (simp add: schema_at_applied)
  then show ?thesis using assms
    by (auto simp: migrate_def applied_def split: option.splits sum.splits if_splits prod.splits)
qed

lemma migrate_succeeds:
  assumes "migrate creates a url s = (None, s')" and "\<forall>p t. an_file a p = Inr t \<longrightarrow> creates t"
  shows "schema_at creates url s'"
  using assms by (auto simp: migrate_def schema_at_def split: option.splits sum.splits if_splits prod.splits)

definition numbered :: "site \<Rightarrow> bool" where
  "numbered s \<longleftrightarrow> (\<forall>(c, u)\<in>set (si_up s). c < si_next s)"

lemma terminate_booted:
  assumes "numbered s" and "si_up s' = (si_next s, url) # si_up s"
  shows "si_up (terminate True (si_next s) s') = si_up s"
  using assms by (auto simp: terminate_def numbered_def intro!: filter_True)

lemma terminate_applied: "applied creates u (terminate works c s) \<le> applied creates u s"
  by (simp add: terminate_def applied_def)

lemma boot_applied: "applied creates u (boot url s) \<le> applied creates u s"
  by (simp add: boot_def applied_def)

lemma boot_up: "si_up (boot url s) = (si_next s, url) # si_up s"
  by (simp add: boot_def)

lemma terminate_up: "length (si_up (terminate works c s)) \<le> length (si_up s)"
  by (simp add: terminate_def)

lemma terminate_head:
  "si_up s' = (c, u) # xs \<Longrightarrow> length (si_up (terminate True c s')) \<le> length xs"
  by (simp add: terminate_def)

lemma terminate_member:
  assumes "(c, u) \<in> set (si_up s)"
  shows "length (si_up (terminate True c s)) < length (si_up s)"
  using assms length_filter_less [of "(c, u)" "si_up s"] by (simp add: terminate_def)

text \<open>
  What \<open>Start\<close> leaves: on an error at most the container it could not release; else what its
  function releases.
\<close>

definition start_leaves :: "(string \<Rightarrow> bool) \<Rightarrow> answers \<Rightarrow> site \<Rightarrow> string + string \<times> stopper \<Rightarrow> site \<Rightarrow> bool" where
  "start_leaves creates a s r s' \<longleftrightarrow> (case r of
       Inl e \<Rightarrow> length (si_up s') \<le> length (si_up s) + (if leaky a then 1 else 0)
     | Inr (url, stop) \<Rightarrow> url \<noteq> [] \<and> schema_at creates url s' \<and>
         (stop = Nothing_to_stop \<and> si_up s' = si_up s \<or>
          stop = Stop (si_next s) \<and> si_up s' = (si_next s, url) # si_up s))"

lemma release_failed:
  assumes "si_up s' = (si_next s, u) # si_up s"
  shows "start_leaves creates a s (Inl e) (terminate (an_terminates a) (si_next s) s')"
proof (cases "an_terminates a")
  case True
  with terminate_head [OF assms] show ?thesis by (simp add: start_leaves_def)
next
  case False
  with terminate_up [of False "si_next s" s'] assms show ?thesis by (simp add: start_leaves_def leaky_def)
qed

lemma start_boots:
  assumes "reliable creates a" and "an_run a = Started u"
    and "env ''DURABLEMCP_TEST_DATABASE_URL'' = []" and "start creates env a s = (r, s')"
  shows "start_leaves creates a s r s' \<and> (\<forall>v. applied creates v s' \<le> max 1 (applied creates v s))"
proof -
  have w: "u \<noteq> []" "\<forall>p t. an_file a p = Inr t \<longrightarrow> creates t"
    using assms(1,2) by (auto simp: reliable_def)
  obtain q s2 where m: "migrate creates a u (boot u s) = (q, s2)" by (metis prod.collapse)
  note m' = migrate_site [OF m]
  have up2: "si_up s2 = (si_next s, u) # si_up s" using m' by (simp add: boot_up)
  have ap: "applied creates v (boot u s) \<le> max 1 (applied creates v s)" for v
    using boot_applied [of creates v u s] by simp
  have "applied creates v s2 \<le> max 1 (applied creates v (boot u s))" for v
    using m' by (cases "v = u") (auto simp: applied_def)
  with ap have ap2: "applied creates v s2 \<le> max 1 (applied creates v s)" for v by (meson max.bounded_iff max.cobounded1 order_trans)
  have t: "applied creates v (terminate works (si_next s) x) \<le> max 1 (applied creates v s)"
    if "applied creates v x \<le> max 1 (applied creates v s)" for v works x
    using terminate_applied that by (rule order_trans)
  show ?thesis
  proof (cases "an_address a")
    case (Some e)
    with assms(2-4) have "r = Inl e" "s' = terminate (an_terminates a) (si_next s) (boot u s)"
      by (auto simp: start_def Let_def)
    with release_failed [OF boot_up] t ap show ?thesis by simp
  next
    case None
    show ?thesis
    proof (cases q)
      case (Some e)
      with None assms(2-4) m have "r = Inl e" "s' = terminate (an_terminates a) (si_next s) s2"
        by (auto simp: start_def Let_def)
      with release_failed [OF up2] t ap2 show ?thesis by simp
    next
      case N: None
      with None assms(2-4) m have "r = Inr (u, Stop (si_next s))" "s' = s2"
        by (auto simp: start_def Let_def)
      with migrate_succeeds [of creates a u _ s2] m N w up2 ap2 show ?thesis by (auto simp: start_leaves_def)
    qed
  qed
qed

lemma start_outcome:
  assumes "reliable creates a" and "start creates env a s = (r, s')"
  shows "start_leaves creates a s r s' \<and> (\<forall>v. applied creates v s' \<le> max 1 (applied creates v s))"
proof (cases "env ''DURABLEMCP_TEST_DATABASE_URL'' = []")
  case True
  show ?thesis
  proof (cases "an_run a")
    case (Started u)
    from start_boots [OF assms(1) Started True assms(2)] show ?thesis .
  next
    case (Run_failed e left)
    have "applied creates v (boot u s) \<le> max 1 (applied creates v s)" for u v
      using boot_applied [of creates v u s] by simp
    with Run_failed True assms(2) show ?thesis
      by (cases left) (auto simp: start_def Let_def start_leaves_def leaky_def boot_up)
  qed
next
  case False
  let ?url = "env ''DURABLEMCP_TEST_DATABASE_URL''"
  obtain q s1 where m: "migrate creates a ?url s = (q, s1)" by (metis prod.collapse)
  have "applied creates v s1 \<le> max 1 (applied creates v s)" for v
    using migrate_site [OF m] by (cases "v = ?url") (auto simp: applied_def)
  moreover have "schema_at creates ?url s1" if "q = None"
    using migrate_succeeds m that assms(1) unfolding reliable_def by blast
  ultimately show ?thesis
    using m migrate_site [OF m] assms(2) False
    by (cases q) (auto simp: start_def Let_def start_leaves_def)
qed

text \<open>What \<open>Start\<close> hands out can be given back.\<close>

lemma start_releases:
  assumes "numbered s" and "reliable creates a" and "start creates env a s = (Inr (url, stop), s')"
  shows "si_up (call_stopper True stop s') = si_up s"
  using start_outcome [OF assms(2,3)] terminate_booted [OF assms(1), of s' url]
  by (auto simp: start_leaves_def)

text \<open>
  A \<open>Run\<close> that fails after it created a container hands it out with the error; it is not
  terminated.
\<close>

lemma failed_run_leaves_container:
  assumes "env ''DURABLEMCP_TEST_DATABASE_URL'' = []" and "an_run a = Run_failed e (Some u)"
  shows "si_up (snd (start creates env a s)) = (si_next s, u) # si_up s"
  using assms by (simp add: start_def Let_def boot_up)

section \<open>One database for all\<close>

text \<open>The containers that run: the shared one, and at most \<open>n\<close> left behind.\<close>

definition running :: "shared_harness \<Rightarrow> nat" where
  "running h = (case sh_stop h of Some (Stop c) \<Rightarrow> 1 | _ \<Rightarrow> 0)"

definition harness_ok :: "(string \<Rightarrow> bool) \<Rightarrow> nat \<Rightarrow> shared_harness \<times> site \<Rightarrow> bool" where
  "harness_ok creates n = (\<lambda>(h, s). (\<forall>u. applied creates u s \<le> 1) \<and>
     (sh_url h = [] \<longrightarrow> sh_stop h = None) \<and>
     (sh_stop h \<noteq> None \<longrightarrow> schema_at creates (sh_url h) s) \<and>
     length (si_up s) \<le> n + running h \<and>
     (\<forall>c. sh_stop h = Some (Stop c) \<longrightarrow> (c, sh_url h) \<in> set (si_up s)))"

text \<open>The calls that may leave a container behind.\<close>

fun leaves_one :: "harness_call \<Rightarrow> bool" where
  "leaves_one (Shared short a) \<longleftrightarrow> leaky a"
| "leaves_one (Shutdown works) \<longleftrightarrow> \<not> works"

lemma harness_ok_mono: "harness_ok creates n x \<Longrightarrow> n \<le> m \<Longrightarrow> harness_ok creates m x"
  by (auto simp: harness_ok_def)

lemma shared_ok:
  assumes "harness_ok creates n x" and "reliable creates a" and "shared creates env short a x = (r, y)"
  shows "harness_ok creates (n + (if leaky a then 1 else 0)) y \<and> (\<forall>v. r = Url v \<longrightarrow> v = sh_url (fst y) \<and> v \<noteq> []) \<and>
    (sh_url (fst x) \<noteq> [] \<longrightarrow> sh_url (fst y) = sh_url (fst x))"
proof -
  obtain h s where x: "x = (h, s)" by (cases x)
  show ?thesis
  proof (cases "short \<or> sh_url h \<noteq> []")
    case False
    obtain q s1 where q: "start creates env a s = (q, s1)" by (metis prod.collapse)
    have ok: "\<forall>u. applied creates u s \<le> 1" "length (si_up s) \<le> n" "sh_stop h = None"
      using assms(1) x False by (auto simp: harness_ok_def running_def)
    have o: "start_leaves creates a s q s1" "\<forall>u. applied creates u s1 \<le> 1"
      using start_outcome [OF assms(2) q] ok(1) by fastforce+
    show ?thesis
    proof (cases q)
      case (Inl e)
      with assms(3) x False q o ok show ?thesis
        by (auto simp: shared_def harness_ok_def start_leaves_def running_def)
    next
      case (Inr p)
      obtain url stop where p: "p = (url, stop)" by force
      with assms(3) x False q Inr have y: "r = Url url" "y = (\<lparr>sh_url = url, sh_stop = Some stop\<rparr>, s1)"
        by (auto simp: shared_def)
      have "url \<noteq> []" "schema_at creates url s1"
        "stop = Nothing_to_stop \<and> si_up s1 = si_up s \<or> stop = Stop (si_next s) \<and> si_up s1 = (si_next s, url) # si_up s"
        using o(1) Inr p by (auto simp: start_leaves_def)
      with y o(2) x False ok(2) show ?thesis by (auto simp: harness_ok_def running_def)
    qed
  qed (use assms x in \<open>auto simp: shared_def elim: harness_ok_mono split: if_splits\<close>)
qed

lemma shutdown_ok:
  assumes "harness_ok creates n x"
  shows "harness_ok creates (n + (if works then 0 else 1)) (shutdown works x) \<and>
    sh_url (fst (shutdown works x)) = sh_url (fst x) \<and> sh_stop (fst (shutdown works x)) = None"
proof -
  obtain h s where x: "x = (h, s)" by (cases x)
  note ok = assms [unfolded x harness_ok_def prod.case]
  show ?thesis
  proof (cases "sh_stop h")
    case None
    with assms x show ?thesis by (auto simp: shutdown_def elim: harness_ok_mono)
  next
    case (Some f)
    have "applied creates u (call_stopper works f s) \<le> 1" for u
      using ok terminate_applied [of creates u works] by (cases f) (auto intro: order_trans)
    moreover have "length (si_up (call_stopper works f s)) \<le> n + (if works then 0 else 1)"
    proof (cases f)
      case (Stop c)
      then have "(c, sh_url h) \<in> set (si_up s)" "length (si_up s) \<le> n + 1" using ok Some by (auto simp: running_def)
      with terminate_member [OF this(1)] Stop show ?thesis by (cases works) (simp_all add: terminate_def)
    qed (use ok Some in \<open>simp add: running_def\<close>)
    ultimately show ?thesis using Some x by (simp add: shutdown_def harness_ok_def running_def)
  qed
qed

definition calls_reliable :: "(string \<Rightarrow> bool) \<Rightarrow> harness_call list \<Rightarrow> bool" where
  "calls_reliable creates cs \<longleftrightarrow> (\<forall>short a. Shared short a \<in> set cs \<longrightarrow> reliable creates a)"

lemma harness_run_ok:
  assumes "harness_ok creates n x" and "calls_reliable creates cs" and "harness_run creates env cs x = (rs, y)"
  shows "harness_ok creates (n + length (filter leaves_one cs)) y \<and>
    (sh_url (fst x) \<noteq> [] \<longrightarrow> sh_url (fst y) = sh_url (fst x)) \<and> (\<forall>v. Url v \<in> set rs \<longrightarrow> v = sh_url (fst y))"
  using assms
proof (induction cs arbitrary: n x rs)
  case (Cons c cs)
  have cs: "calls_reliable creates cs" using Cons.prems(2) by (simp add: calls_reliable_def)
  show ?case
  proof (cases c)
    case (Shared short a)
    obtain r x1 where r: "shared creates env short a x = (r, x1)" by (metis prod.collapse)
    obtain rs' where rs': "harness_run creates env cs x1 = (rs', y)" and e: "rs = r # rs'"
      using Cons.prems(3) Shared r by (cases "harness_run creates env cs x1") auto
    have a: "reliable creates a" using Cons.prems(2) Shared by (simp add: calls_reliable_def)
    note one = shared_ok [OF Cons.prems(1) a r]
    note IH = Cons.IH [OF conjunct1 [OF one] cs rs']
    show ?thesis using one IH Shared unfolding e by (auto elim: harness_ok_mono)
  next
    case (Shutdown works)
    note one = shutdown_ok [OF Cons.prems(1), of works]
    have "harness_run creates env cs (shutdown works x) = (rs, y)" using Cons.prems(3) Shutdown by simp
    from Cons.IH [OF conjunct1 [OF one] cs this] one Shutdown show ?thesis by (auto elim: harness_ok_mono)
  qed
qed simp

text \<open>
  C38. All tests of a process get one database: whatever the order in which they ask for it
  and however many attempts to start it failed before, also when \<open>Run\<close> fails and leaves a
  container or \<open>Terminate\<close> fails, all get the same address. Until \<open>Shutdown\<close> the schema is in
  place there, and it was created at most once at any address; the shared container runs, and
  besides it at most one for every call in which a failed \<open>Run\<close> leaves a container or
  \<open>Terminate\<close> does not work, so with none such only the shared one, and none after \<open>Shutdown\<close>.
\<close>

theorem shared_one_database:
  assumes "harness_run creates env cs (new_harness, s0) = (rs, h, s)" and "calls_reliable creates cs"
    and "si_up s0 = []" and "\<forall>u. applied creates u s0 \<le> 1"
  shows "(\<forall>v. Url v \<in> set rs \<longrightarrow> v = sh_url h) \<and>
    (sh_stop h \<noteq> None \<longrightarrow> schema_at creates (sh_url h) s) \<and> (\<forall>u. applied creates u s \<le> 1) \<and>
    (\<forall>c. sh_stop h = Some (Stop c) \<longrightarrow> (c, sh_url h) \<in> set (si_up s) \<and>
       length (si_up s) \<le> 1 + length (filter leaves_one cs)) \<and>
    (sh_stop h \<in> {None, Some Nothing_to_stop} \<longrightarrow> length (si_up s) \<le> length (filter leaves_one cs)) \<and>
    (filter leaves_one cs = [] \<longrightarrow>
       si_up s = (case sh_stop h of Some (Stop c) \<Rightarrow> [(c, sh_url h)] | _ \<Rightarrow> [])) \<and>
    sh_stop (fst (shutdown True (h, s))) = None \<and>
    length (si_up (snd (shutdown True (h, s)))) \<le> length (filter leaves_one cs)"
proof -
  have "harness_ok creates 0 (new_harness, s0)"
    using assms(3,4) by (simp add: harness_ok_def new_harness_def running_def)
  note run = harness_run_ok [OF this assms(2,1)]
  then have ok: "harness_ok creates (length (filter leaves_one cs)) (h, s)" by simp
  note down = shutdown_ok [OF ok, of True]
  then have after: "length (si_up (snd (shutdown True (h, s)))) \<le> length (filter leaves_one cs)"
    by (auto simp: harness_ok_def running_def split_beta)
  have one: "xs = [x]" if "x \<in> set xs" "length xs \<le> Suc 0" for x and xs :: "(nat \<times> string) list"
    using that by (cases xs) auto
  show ?thesis
    using run ok down after one [of "(_, sh_url h)" "si_up s"]
    by (cases "sh_stop h"; cases "the (sh_stop h)") (auto simp: harness_ok_def running_def)
qed

definition demo_answers :: answers where
  "demo_answers = \<lparr>an_run = Started ''postgres://localhost:5433'', an_address = None, an_terminates = True,
     an_pool = None, an_query = None, an_caller = Some ''/d/internal/testdb/testdb.go'',
     an_file = (\<lambda>p. if p = ''/d/migrations/001_init.sql'' then Inr ''CREATE TABLE executions'' else Inl ''no such file''),
     an_exec = (None, True)\<rparr>"

definition demo_site :: site where
  "demo_site = \<lparr>si_next = 0, si_up = [], si_scripts = (\<lambda>_. [])\<rparr>"

text \<open>
  A first attempt leaves a container whose \<open>Run\<close> failed, a second one is released, and the
  third starts the database of the tests.
\<close>

definition demo_calls_of_tests :: "harness_call list" where
  "demo_calls_of_tests =
     [Shared False (demo_answers\<lparr>an_run := Run_failed ''timeout'' (Some ''postgres://localhost:5432'')\<rparr>),
      Shared False (demo_answers\<lparr>an_pool := Some ''refused''\<rparr>), Shared False demo_answers, Shared False demo_answers]"

theorem shared_one_database_witness:
  "let run = harness_run (\<lambda>t. t = ''CREATE TABLE executions'') (\<lambda>_. []) demo_calls_of_tests (new_harness, demo_site)
   in drop 2 (fst run) = [Url ''postgres://localhost:5433'', Url ''postgres://localhost:5433''] \<and>
     (2, ''postgres://localhost:5433'') \<in> set (si_up (snd (snd run))) \<and> length (si_up (snd (snd run))) \<le> 2"
proof -
  let ?c = "\<lambda>t. t = ''CREATE TABLE executions''"
  let ?run = "harness_run ?c (\<lambda>_. []) demo_calls_of_tests (new_harness, demo_site)"
  have r: "?run = (fst ?run, fst (snd ?run), snd (snd ?run))" by simp
  have ok: "calls_reliable ?c demo_calls_of_tests"
    by (simp add: calls_reliable_def demo_calls_of_tests_def reliable_def demo_answers_def)
  have l: "length (filter leaves_one demo_calls_of_tests) = 1" by code_simp
  have "sh_stop (fst (snd ?run)) = Some (Stop 2) \<and> sh_url (fst (snd ?run)) = ''postgres://localhost:5433''" by code_simp
  then have "(2, ''postgres://localhost:5433'') \<in> set (si_up (snd (snd ?run))) \<and> length (si_up (snd (snd ?run))) \<le> 2"
    using shared_one_database [OF r ok] l by (simp add: demo_site_def applied_def)
  moreover have "drop 2 (fst ?run) = [Url ''postgres://localhost:5433'', Url ''postgres://localhost:5433'']" by code_simp
  ultimately show ?thesis unfolding Let_def by blast
qed

text \<open>\<open>Shutdown\<close> keeps the address: a test that asks afterwards gets a database that is gone.\<close>

lemma shared_after_shutdown:
  "\<exists>x. harness_run (\<lambda>t. t = ''CREATE TABLE executions'') (\<lambda>_. [])
      [Shared False demo_answers, Shutdown True, Shared False demo_answers] (new_harness, demo_site) =
     ([Url ''postgres://localhost:5433'', Url ''postgres://localhost:5433''], x) \<and> si_up (snd x) = []"
proof -
  let ?run = "harness_run (\<lambda>t. t = ''CREATE TABLE executions'') (\<lambda>_. [])
      [Shared False demo_answers, Shutdown True, Shared False demo_answers] (new_harness, demo_site)"
  have "fst ?run = [Url ''postgres://localhost:5433'', Url ''postgres://localhost:5433''] \<and> si_up (snd (snd ?run)) = []"
    by code_simp
  then show ?thesis by (metis prod.collapse)
qed

end
