(* ===== verification/Spec2Isabelle.thy ===== *)
theory Spec2Isabelle
  imports Fenced_Later Dedup Scheduler_Pass System Queries Engine Mcp_Facts Transports Tool_Runs Mains
    Test_Harness
begin

text \<open>
  DurableMCP, a server that makes MCP tool calls durable: a call is stored in PostgreSQL,
  claimed by one of several executors under a lease with a fencing token, retried after
  failures and reaped when its worker dies. This development models the Go program under
  \<open>src/\<close> and proves what its parts promise.

  The program's parts. \<open>internal/store\<close> is the only code that touches the database; every
  other part calls it: \<open>internal/mcp\<close> submits calls, \<open>internal/executor\<close> claims,
  heartbeats, completes and fails them, \<open>cmd/scheduler\<close> runs passes that reap lapsed leases
  and promote due retries, \<open>internal/api\<close> reads. The processes share nothing but the
  database. \<open>cmd/demo-agent\<close> submits calls
  and plays a worker that dies.

  Theories and the code they model.
  \<^item> \<open>Durable_Prelude\<close>: tables as lists of rows in physical order with SQL's update, delete,
    insert and look-up by key; ordered reads; Go's 64-bit arithmetic.
  \<^item> \<open>Schema\<close>: \<open>migrations/001_init.sql\<close> and the structs of \<open>internal/store/store.go\<close>.
  \<^item> \<open>Txn\<close>: statements over a connection that may fail at any round trip, and the
    transactions of \<open>pool.Begin\<close>, \<open>tx.Commit\<close> and the deferred \<open>rollback\<close>.
  \<^item> \<open>Operation\<close>: the locale \<open>store_operation\<close>, the contract of every operation (it takes its
    whole effect at one time, or none and reports a driver error), and the proof that a
    transaction meets it.
  \<^item> \<open>Store_Ops\<close>: \<open>getTool\<close>, \<open>Submit\<close>, \<open>Claim\<close>, \<open>Heartbeat\<close>, \<open>Complete\<close> and \<open>Fail\<close> of
    \<open>internal/store/ops.go\<close>, statement by statement. \<open>Store_Spec\<close> gives the effect of each
    and interprets the contract.
  \<^item> \<open>Scheduler\<close>: \<open>RunSchedulerPass\<close>, \<open>expireLease\<close>, \<open>promoteRetry\<close>; \<open>Scheduler_Pass\<close>: what
    a pass achieves and never disturbs, and the backoff.
  \<^item> \<open>Store_Inv\<close>, \<open>Store_Safety\<close>: the invariant \<open>wf_db\<close> (keys, log, and for every execution the
    agreement of its status, lease, retry entry, attempts and result with its events) and
    its preservation, as the locales \<open>logged_operation\<close> and \<open>wf_operation\<close>.
  \<^item> \<open>Fencing\<close>, \<open>Dedup\<close>: the guarantees of leases and tokens, and of idempotent submission;
    \<open>Fenced_Later\<close>: what a logged token means in every later state of the system.
  \<^item> \<open>Tools\<close>: \<open>SeedTools\<close>; \<open>Queries\<close>: every read of \<open>internal/store/query.go\<close>.
  \<^item> \<open>Lease_Machine\<close>: the abstract specification, each execution as a small state machine;
    \<open>System\<close>: all processes interleaved, their refinement of that machine, and what holds in
    every reachable state.
  \<^item> \<open>Config\<close>: \<open>internal/config\<close>, the level of \<open>internal/logging\<close>, the tick of
    \<open>cmd/scheduler\<close>; \<open>Engine\<close>: \<open>Run\<close>, \<open>execute\<close> and \<open>heartbeat\<close> of
    \<open>internal/executor/engine.go\<close> and the runtime of \<open>cmd/executor\<close>, and how a worker drains
    the queue.
  \<^item> \<open>Json\<close>: what the program uses of \<open>encoding/json\<close>, the reading of a text and its decoding
    into the fields of a struct; \<open>Json_Facts\<close>: the bound its recursion runs under never
    decides; \<open>Sha256\<close>: \<open>crypto/sha256\<close> and \<open>encoding/hex\<close>; \<open>Paths\<close>: \<open>path/filepath\<close>.
  \<^item> \<open>Wire\<close>: the documents the servers marshal and the answers of HTTP handlers; \<open>Encode\<close>: their
    bytes, as \<open>json.Marshal\<close> writes them. \<open>Encode_Strings\<close>, \<open>Encode_Values\<close>, \<open>Encode_Docs\<close>: a
    literal, a compacted raw text and a whole document are read back as what they stand for,
    on one line.
  \<^item> \<open>Mcp\<close>: \<open>internal/mcp/protocol.go\<close> (\<open>Dispatch\<close> and its methods) and
    \<open>internal/mcp/transport.go\<close> (\<open>hashKey\<close>, \<open>ServeStdio\<close> from the bytes read to the answers,
    \<open>HTTPHandler\<close>, \<open>SSEHandler\<close>); \<open>Mcp_Facts\<close>: the identifiers of answers, repeated calls;
    \<open>Mcp_Output\<close>: the bytes of stdio's output and what a client reads; \<open>Transports\<close>: the error
    codes a client reads, and the agreement of the two transports to the byte.
  \<^item> \<open>Api\<close>: \<open>internal/api/server.go\<close>, the routes of \<open>New\<close>, \<open>requireReader\<close> and every handler;
    \<open>Api_Facts\<close>: who may read, what may write, forced completions; \<open>Api_Output\<close>: the bytes
    of the answers and what a client reads in them.
  \<^item> \<open>Handlers\<close>: \<open>internal/executor/handlers.go\<close>, the tools and their registry, and the
    confinement of the file tool; \<open>Tool_Runs\<close>: the bytes of their results, and an execution
    that fails until no attempt is left.
  \<^item> \<open>Demo_Agent\<close>: \<open>cmd/demo-agent\<close>; \<open>Processes\<close>: the start of \<open>cmd/server\<close>; \<open>Mains\<close>: the
    four programs from their start to their end, as part of the system, and the scheduler's
    recovery from failures.
  \<^item> \<open>Test_Harness\<close>: \<open>internal/testdb\<close>, the database of the integration tests.
  \<^item> \<open>Rows_Kept\<close>: the locale \<open>kept\<close>, relations between states that every effect meets and so
    every run; rows keep their identifiers and keys, fenced tokens stay fenced, leases end
    unless renewed.
  \<^item> \<open>Scenario\<close>: a concrete run whose states instantiate the theorems.

  Modelling decisions. A transaction is atomic and reads \<open>now()\<close> once, when it begins;
  transactions of different processes interleave, their statements do not, so row locks show
  only as the rows a claim skips, which are arbitrary. The database's clock never goes
  back. A network plan says how each round trip ends, any server error outside the model
  included; every theorem without a hypothesis on the plan holds for all of them. Times are
  microseconds in the database and nanoseconds in Go's durations. Identifiers are canonical
  UUID texts; the identifier a row gets is an argument. Executions with the same
  \<open>created_at\<close> are listed in an order that is an argument of every query (\<open>tie\<close>, \<open>w_tie\<close>); a
  claim takes the first of them in physical order that is not locked, so every one of them is
  what some locks give. What PostgreSQL makes of a JSON text
  (\<open>jsonb\<close>), of a text as a UUID (\<open>uuid_in\<close>) and of the order of texts (\<open>coll\<close>) are
  arguments. A payload of an event is the list of members of the object the code marshals.

  The servers and tools. A message is its bytes; an answer is the tree given to
  \<open>json.Marshal\<close>, and \<open>encode\<close> gives its bytes, but for the texts of times and of
  floating-point seconds, which are arguments (\<open>leaves\<close>). The texts of decoding errors and of
  driver errors, the file system's errors and the answers of foreign HTTP servers are
  arguments. A request to the REST server is what \<open>net/http\<close> hands on: method, cleaned path,
  query, header, body.

  The recursions of the store are structural and use no fuel. \<open>parse_value\<close> counts its calls
  down from twice the length of the text plus one, which \<open>parse_json_any_bound\<close> proves
  enough: every larger bound gives the same result. The lines of stdio are read by recursion
  on the rest of the input. The loops of \<open>Run\<close>, of the scheduler and of the demonstration
  agent, which do not end, run over lists of the events, ticks and rounds they meet until the
  process is stopped, so they are functions.

  Not modelled: log output, signals and \<open>ListenAndServe\<close> (how serving ends is an
  argument); symbolic links and permissions below the scratch directory; the dashboard and
  the deployment files.
\<close>

end
